(* ===== verification/Prelude.thy ===== *)
theory Prelude
  imports Main "HOL-Library.Word" "HOL-Library.Sublist"
begin

section \<open>Prelude: words, Go panics, Go strings\<close>

text \<open>
  The vocabulary every component shares: the machine integers of Go, the values a Go function
  can end with (a result, a panic or \<open>log.Fatal\<close>), and the functions of the packages
  \<open>strings\<close> and \<open>strconv\<close> that the sources call. A Go string is a list of bytes, here a
  \<open>string\<close>.
\<close>

unbundle bit_operations_syntax

type_synonym u8 = "8 word"
type_synonym u16 = "16 word"
type_synonym u32 = "32 word"

named_theorems go_words \<open>arithmetic facts on fixed-width words\<close>

subsection \<open>How a Go function can end\<close>

datatype go_panic =
    IndexOutOfRange
  | IntegerDivideByZero
  | CloseOfClosedChannel
  | NegativeArgument
  | PanicError string
  | LogFatal string

datatype 'a outcome = Ret 'a | Panic go_panic

fun bindO :: "'a outcome \<Rightarrow> ('a \<Rightarrow> 'b outcome) \<Rightarrow> 'b outcome" where
  "bindO (Ret x) f = f x"
| "bindO (Panic e) f = Panic e"

lemma bindO_Ret_iff [simp]: "bindO m f = Ret y \<longleftrightarrow> (\<exists>x. m = Ret x \<and> f x = Ret y)"
  by (cases m) auto

definition index :: "'a list \<Rightarrow> nat \<Rightarrow> 'a outcome" where
  "index xs i = (if i < length xs then Ret (xs ! i) else Panic IndexOutOfRange)"

lemma index_Ret [simp]: "i < length xs \<Longrightarrow> index xs i = Ret (xs ! i)"
  by (simp add: index_def)

lemma index_Cons_0 [simp]: "index (x # xs) 0 = Ret x"
  by (simp add: index_def)

text \<open>The slices \<open>s[:k]\<close> and \<open>s[k:]\<close> panic when \<open>k\<close> is negative or beyond the length.\<close>

definition slice_to :: "'a list \<Rightarrow> int \<Rightarrow> 'a list outcome" where
  "slice_to xs k = (if 0 \<le> k \<and> k \<le> int (length xs) then Ret (take (nat k) xs) else Panic IndexOutOfRange)"

definition slice_from :: "'a list \<Rightarrow> int \<Rightarrow> 'a list outcome" where
  "slice_from xs k = (if 0 \<le> k \<and> k \<le> int (length xs) then Ret (drop (nat k) xs) else Panic IndexOutOfRange)"

subsection \<open>Signed 64-bit integers\<close>

text \<open>
  Go's \<open>int\<close> and \<open>int64\<close> are 64-bit two's complement values on the platforms the scanner
  runs on. They are modelled as \<open>int\<close>, with the wrap-around applied where an operation can
  overflow.
\<close>

definition int64 :: "int \<Rightarrow> int" where
  "int64 x = (x + 2 ^ 63) mod 2 ^ 64 - 2 ^ 63"

lemma int64_id: "- (2 ^ 63) \<le> x \<Longrightarrow> x < 2 ^ 63 \<Longrightarrow> int64 x = x"
  by (simp add: int64_def)

lemma int64_range: "- (2 ^ 63) \<le> int64 x" "int64 x < 2 ^ 63"
proof -
  have "0 \<le> (x + 2 ^ 63) mod 2 ^ 64" by (rule pos_mod_sign) simp
  moreover have "(x + 2 ^ 63) mod 2 ^ 64 < 2 ^ 64" by (rule pos_mod_bound) simp
  ultimately show "- (2 ^ 63) \<le> int64 x" "int64 x < 2 ^ 63" by (simp_all add: int64_def)
qed

lemma int64_mod: "k \<le> 64 \<Longrightarrow> int64 x mod 2 ^ k = x mod 2 ^ k"
proof -
  assume "k \<le> 64"
  then have dvd: "(2::int) ^ k dvd 2 ^ 64" by (rule le_imp_power_dvd)
  have "(x + 2 ^ 63) mod 2 ^ 64 mod 2 ^ k = (x + 2 ^ 63) mod 2 ^ k"
    using dvd by (rule mod_mod_cancel)
  then have "((x + 2 ^ 63) mod 2 ^ 64 - 2 ^ 63) mod 2 ^ k = (x + 2 ^ 63 - 2 ^ 63) mod 2 ^ k"
    by (rule mod_diff_cong) simp
  then show ?thesis by (simp add: int64_def)
qed

subsection \<open>Words\<close>

lemma ucast16_add: "(ucast (a + b :: u32) :: u16) = ucast a + ucast b"
  by (simp add: word_uint_eq_iff uint_word_ariths unsigned_ucast_eq unsigned_take_bit_eq take_bit_eq_mod
      mod_simps mod_mod_cancel)

subsection \<open>Package strings\<close>

fun split_on :: "char \<Rightarrow> string \<Rightarrow> string list" where
  "split_on c [] = [[]]"
| "split_on c (x # xs) =
     (if x = c then [] # split_on c xs
      else (case split_on c xs of [] \<Rightarrow> [[x]] | t # ts \<Rightarrow> (x # t) # ts))"

fun join_with :: "string \<Rightarrow> string list \<Rightarrow> string" where
  "join_with s [] = []"
| "join_with s [x] = x"
| "join_with s (x # y # r) = x @ s @ join_with s (y # r)"

definition has_char :: "char \<Rightarrow> string \<Rightarrow> bool" where
  "has_char c s \<longleftrightarrow> c \<in> set s"

lemma split_on_neq_Nil [simp]: "split_on c s \<noteq> []"
  by (induction s) (auto split: list.splits)

lemma join_with_Cons: "xs \<noteq> [] \<Longrightarrow> join_with s (x # xs) = x @ s @ join_with s xs"
  by (cases xs) auto

lemma join_split_on: "join_with [c] (split_on c s) = s"
proof (induction s)
  case Nil
  then show ?case by simp
next
  case (Cons x s)
  obtain t ts where eq: "split_on c s = t # ts" by (metis list.exhaust split_on_neq_Nil)
  with Cons show ?case by (cases ts) (auto simp: eq)
qed

lemma split_on_no_sep: "c \<notin> set s \<Longrightarrow> split_on c s = [s]"
  by (induction s) auto

lemma split_on_append_sep:
  "c \<notin> set t \<Longrightarrow> split_on c (t @ c # s) = t # split_on c s"
  by (induction t) auto

lemma split_on_join:
  assumes "xs \<noteq> []" and "\<forall>x \<in> set xs. c \<notin> set x"
  shows "split_on c (join_with [c] xs) = xs"
  using assms
proof (induction xs)
  case Nil
  then show ?case by simp
next
  case (Cons x xs)
  then show ?case
    by (cases "xs = []") (auto simp: join_with_Cons split_on_append_sep split_on_no_sep)
qed

lemma length_split_on: "length (split_on c s) = Suc (count_list s c)"
  by (induction s) (auto split: list.splits)

lemma split_on_parts: "t \<in> set (split_on c s) \<Longrightarrow> c \<notin> set t"
proof (induction s arbitrary: t)
  case Nil
  then show ?case by simp
next
  case (Cons x s)
  obtain u us where eq: "split_on c s = u # us" by (metis list.exhaust split_on_neq_Nil)
  from Cons show ?case by (auto simp: eq split: if_splits)
qed

text \<open>\<open>strings.ToLower\<close> on the ASCII names the DNS packages hand over.\<close>

definition to_lower_char :: "char \<Rightarrow> char" where
  "to_lower_char c = (if 65 \<le> (of_char c :: nat) \<and> (of_char c :: nat) \<le> 90
     then char_of ((of_char c :: nat) + 32) else c)"

definition to_lower :: "string \<Rightarrow> string" where
  "to_lower s = map to_lower_char s"

definition is_space :: "char \<Rightarrow> bool" where
  "is_space c \<longleftrightarrow> (of_char c :: nat) \<in> {9, 10, 11, 12, 13, 32}"

definition trim_space :: "string \<Rightarrow> string" where
  "trim_space s = rev (dropWhile is_space (rev (dropWhile is_space s)))"

subsection \<open>Package strconv\<close>

definition digit_char :: "nat \<Rightarrow> char" where
  "digit_char d = char_of (48 + d)"

fun nat_digits :: "nat \<Rightarrow> string" where
  "nat_digits n = (if n < 10 then [digit_char n] else nat_digits (n div 10) @ [digit_char (n mod 10)])"

declare nat_digits.simps [simp del]

definition itoa :: "int \<Rightarrow> string" where
  "itoa i = (if i < 0 then CHR ''-'' # nat_digits (nat (- i)) else nat_digits (nat i))"

definition is_digit :: "char \<Rightarrow> bool" where
  "is_digit c \<longleftrightarrow> 48 \<le> (of_char c :: nat) \<and> (of_char c :: nat) \<le> 57"

definition digit_val :: "char \<Rightarrow> nat" where
  "digit_val c = (of_char c :: nat) - 48"

definition digits_val :: "string \<Rightarrow> nat" where
  "digits_val s = foldl (\<lambda>n c. 10 * n + digit_val c) 0 s"

definition parse_nat :: "string \<Rightarrow> nat option" where
  "parse_nat s = (if s \<noteq> [] \<and> list_all is_digit s then Some (digits_val s) else None)"

text \<open>
  \<open>strconv.Atoi\<close> and \<open>strconv.ParseInt(s, 10, 64)\<close>: an optional sign, then decimal digits; out of
  the 64-bit range is an error.
\<close>

definition atoi :: "string \<Rightarrow> int option" where
  "atoi s =
     (let r = (case s of
                 c # t \<Rightarrow> if c = CHR ''-'' then map_option (\<lambda>n. - int n) (parse_nat t)
                          else if c = CHR ''+'' then map_option int (parse_nat t)
                          else map_option int (parse_nat s)
               | [] \<Rightarrow> None)
      in case r of None \<Rightarrow> None
         | Some i \<Rightarrow> if - (2 ^ 63) \<le> i \<and> i < 2 ^ 63 then Some i else None)"

lemma of_char_digit_char [simp]: "d < 10 \<Longrightarrow> (of_char (digit_char d) :: nat) = 48 + d"
  by (simp add: digit_char_def)

lemma digit_char_props [simp]:
  "d < 10 \<Longrightarrow> is_digit (digit_char d)" "d < 10 \<Longrightarrow> digit_val (digit_char d) = d"
  by (simp_all add: is_digit_def digit_val_def)

lemma nat_digits_neq_Nil [simp]: "nat_digits n \<noteq> []"
  by (subst nat_digits.simps) simp

lemma nat_digits_digits: "list_all is_digit (nat_digits n)"
proof (induction n rule: nat_digits.induct)
  case (1 n)
  then show ?case by (cases "n < 10") (simp_all add: nat_digits.simps [of n])
qed

lemma digits_val_nat_digits: "digits_val (nat_digits n) = n"
proof (induction n rule: nat_digits.induct)
  case (1 n)
  then show ?case by (cases "n < 10") (simp_all add: nat_digits.simps [of n] digits_val_def)
qed

lemma parse_nat_nat_digits [simp]: "parse_nat (nat_digits n) = Some n"
  by (simp add: parse_nat_def nat_digits_digits digits_val_nat_digits)

lemma is_digit_not_sign: "is_digit c \<Longrightarrow> c \<noteq> CHR ''-'' \<and> c \<noteq> CHR ''+''"
  by (auto simp: is_digit_def)

lemma nat_digits_chars: "c \<in> set (nat_digits n) \<Longrightarrow> is_digit c"
  using nat_digits_digits by (simp add: list_all_iff)

lemma atoi_itoa: "- (2 ^ 63) \<le> i \<Longrightarrow> i < 2 ^ 63 \<Longrightarrow> atoi (itoa i) = Some i"
proof (cases "i < 0")
  case True
  moreover assume "- (2 ^ 63) \<le> i"
  ultimately show ?thesis by (simp add: atoi_def itoa_def)
next
  case False
  assume "i < 2 ^ 63"
  obtain c t where ct: "nat_digits (nat i) = c # t" by (metis list.exhaust nat_digits_neq_Nil)
  then have "is_digit c" using nat_digits_chars [of c "nat i"] by simp
  then have nsgn: "c \<noteq> CHR ''-'' \<and> c \<noteq> CHR ''+''" by (rule is_digit_not_sign)
  have pn: "parse_nat (c # t) = Some (nat i)" using parse_nat_nat_digits [of "nat i"] by (simp add: ct)
  from False \<open>i < 2 ^ 63\<close> show ?thesis using nsgn
    by (simp add: atoi_def itoa_def ct pn)
qed

end
