(* ===== verification/GoNet.thy ===== *)
theory GoNet
  imports Prelude
begin

section \<open>Packages net and encoding/binary: addresses, networks, parsing\<close>

text \<open>
  A Go \<open>net.IP\<close> is a byte slice of length 0 (\<open>nil\<close>), 4 or 16. The functions below are the parts
  of \<open>net\<close>, \<open>net/netip\<close> and \<open>encoding/binary\<close> the scanners call.
\<close>

type_synonym ip = "u8 list"

definition v4_prefix :: "u8 list" where
  "v4_prefix = [0, 0, 0, 0, 0, 0, 0, 0, 0, 0, 0xff, 0xff]"

lemma length_v4_prefix [simp]: "length v4_prefix = 12"
  by (simp add: v4_prefix_def)

definition to4 :: "ip \<Rightarrow> ip" where
  "to4 a = (if length a = 4 then a
            else if length a = 16 \<and> take 12 a = v4_prefix then drop 12 a else [])"

definition ip_equal :: "ip \<Rightarrow> ip \<Rightarrow> bool" where
  "ip_equal a b =
     (if length a = length b then a = b
      else if length a = 4 \<and> length b = 16 then take 12 b = v4_prefix \<and> a = drop 12 b
      else if length a = 16 \<and> length b = 4 then take 12 a = v4_prefix \<and> drop 12 a = b
      else False)"

subsection \<open>Big-endian 32- and 16-bit values\<close>

definition be_uint32 :: "u8 list \<Rightarrow> u32 outcome" where
  "be_uint32 b = (case b of
       b0 # b1 # b2 # b3 # _ \<Rightarrow>
         Ret (ucast b3 OR push_bit 8 (ucast b2) OR push_bit 16 (ucast b1) OR push_bit 24 (ucast b0))
     | _ \<Rightarrow> Panic IndexOutOfRange)"

definition be_put_uint32 :: "u32 \<Rightarrow> u8 list" where
  "be_put_uint32 v = [ucast (drop_bit 24 v), ucast (drop_bit 16 v), ucast (drop_bit 8 v), ucast v]"

definition be_uint16 :: "u8 list \<Rightarrow> u16 outcome" where
  "be_uint16 b = (case b of b0 # b1 # _ \<Rightarrow> Ret (ucast b1 OR push_bit 8 (ucast b0))
     | _ \<Rightarrow> Panic IndexOutOfRange)"

lemma length_be_put [simp]: "length (be_put_uint32 v) = 4"
  by (simp add: be_put_uint32_def)

lemma to4_be_put [simp]: "to4 (be_put_uint32 v) = be_put_uint32 v"
  by (simp add: to4_def)

lemma be_uint32_put [simp]: "be_uint32 (be_put_uint32 v) = Ret v"
proof -
  have "(ucast (ucast v :: u8) OR push_bit 8 (ucast (ucast (drop_bit 8 v) :: u8)) OR
     push_bit 16 (ucast (ucast (drop_bit 16 v) :: u8)) OR
     push_bit 24 (ucast (ucast (drop_bit 24 v) :: u8)) :: u32) = v"
  proof (rule bit_word_eqI)
    fix n assume "n < LENGTH(32)"
    then consider "n < 8" | "8 \<le> n" "n < 16" | "16 \<le> n" "n < 24" | "24 \<le> n" "n < 32"
      by fastforce
    then show "bit (ucast (ucast v :: u8) OR push_bit 8 (ucast (ucast (drop_bit 8 v) :: u8)) OR
     push_bit 16 (ucast (ucast (drop_bit 16 v) :: u8)) OR
     push_bit 24 (ucast (ucast (drop_bit 24 v) :: u8)) :: u32) n = bit v n"
      by cases (auto simp: bit_simps)
  qed
  then show ?thesis by (simp add: be_uint32_def be_put_uint32_def)
qed

lemma be_put_uint32_inj [simp]: "be_put_uint32 v = be_put_uint32 w \<longleftrightarrow> v = w"
  by (metis be_uint32_put outcome.inject(1))

lemma length_4_cases:
  assumes "length a = 4" obtains b0 b1 b2 b3 where "a = [b0, b1, b2, b3]"
  using assms by (auto simp: length_Suc_conv eval_nat_numeral)

lemma be_put_be_uint32:
  assumes "length a = 4" and "be_uint32 a = Ret v"
  shows "be_put_uint32 v = a"
proof -
  from assms(1) obtain b0 b1 b2 b3 :: u8 where a: "a = [b0, b1, b2, b3]"
    by (rule length_4_cases)
  let ?v = "ucast b3 OR push_bit 8 (ucast b2) OR push_bit 16 (ucast b1) OR push_bit 24 (ucast b0) :: u32"
  have "ucast (drop_bit 24 ?v) = b0" "ucast (drop_bit 16 ?v) = b1"
    "ucast (drop_bit 8 ?v) = b2" "ucast ?v = b3"
    by (rule bit_word_eqI; auto simp: bit_simps dest: bit_imp_le_length)+
  with a assms(2) show ?thesis by (simp add: be_uint32_def be_put_uint32_def)
qed

subsection \<open>Networks\<close>

record ipnet =
  net_ip :: ip
  net_mask :: "u8 list"

definition cidr_mask :: "nat \<Rightarrow> nat \<Rightarrow> u8 list" where
  "cidr_mask ones bits = map (\<lambda>i. if 8 \<le> ones - 8 * i then 255 else NOT (drop_bit (ones - 8 * i) 255))
     [0..<bits div 8]"

definition and_bytes :: "u8 list \<Rightarrow> u8 list \<Rightarrow> u8 list" where
  "and_bytes a m = map2 (AND) a m"

text \<open>\<open>IP.Mask\<close>, for the two shapes \<open>ParseCIDR\<close> produces.\<close>

definition ip_mask :: "ip \<Rightarrow> u8 list \<Rightarrow> ip" where
  "ip_mask a m =
     (let a' = (if length m = 4 \<and> length a = 16 \<and> take 12 a = v4_prefix then drop 12 a else a)
      in if length a' = length m then and_bytes a' m else [])"

definition network_number_and_mask :: "ipnet \<Rightarrow> ip \<times> u8 list" where
  "network_number_and_mask n =
     (let ip0 = to4 (net_ip n);
          a = (if ip0 = [] then net_ip n else ip0)
      in if ip0 = [] \<and> length a \<noteq> 16 then ([], [])
         else if length (net_mask n) = 4 then (if length a \<noteq> 4 then ([], []) else (a, net_mask n))
         else if length (net_mask n) = 16 then
           (if length a = 4 then (a, drop 12 (net_mask n)) else (a, net_mask n))
         else ([], []))"

definition net_contains :: "ipnet \<Rightarrow> ip \<Rightarrow> bool" where
  "net_contains n a =
     (let (nn, m) = network_number_and_mask n;
          a' = (if to4 a = [] then a else to4 a)
      in length a' = length nn \<and> and_bytes nn m = and_bytes a' m)"

lemma net_contains_v4:
  assumes "length a = 4" and "length b = 4" and "length m = 4"
  shows "net_contains \<lparr>net_ip = a, net_mask = m\<rparr> b \<longleftrightarrow> and_bytes a m = and_bytes b m"
  using assms by (auto simp: net_contains_def network_number_and_mask_def to4_def Let_def)

text \<open>A nil address is in no IPv4 network.\<close>

lemma net_contains_nil:
  assumes "length a = 4" and "length m = 4"
  shows "\<not> net_contains \<lparr>net_ip = a, net_mask = m\<rparr> []"
  using assms by (auto simp: net_contains_def network_number_and_mask_def to4_def Let_def)

lemma length_cidr_mask [simp]: "length (cidr_mask n b) = b div 8"
  by (simp add: cidr_mask_def)

text \<open>
  An IPv4 mask of \<open>n\<close> ones is the big-endian form of the word whose \<open>n\<close> upper bits are set, so
  membership in a CIDR block is equality of the upper \<open>n\<close> bits.
\<close>

lemma bit_255: "bit (255 :: u8) j \<longleftrightarrow> j < 8"
proof -
  have "(255 :: u8) = mask 8" by (simp add: mask_eq_exp_minus_1)
  then show ?thesis by (simp only: bit_mask_iff) simp
qed

lemma bit_mask_byte:
  assumes "k < 8"
  shows "bit (if 8 \<le> c then 255 else NOT (drop_bit c 255) :: u8) k \<longleftrightarrow> 8 - c \<le> k"
  using assms bit_255 [of k] bit_255 [of "c + k"] by (auto simp: bit_not_iff bit_drop_bit_eq)

definition mask_byte :: "nat \<Rightarrow> u8" where
  "mask_byte c = (if 8 \<le> c then 255 else NOT (drop_bit c 255))"

lemma mask_byte_eq:
  assumes "d + s = 24" and "n \<le> 32"
  shows "mask_byte (n - d) = ucast (drop_bit s (NOT (mask (32 - n)) :: u32))"
proof (rule bit_word_eqI)
  fix k assume k: "k < LENGTH(8)"
  then have "bit (mask_byte (n - d)) k \<longleftrightarrow> 8 - (n - d) \<le> k"
    unfolding mask_byte_def by (intro bit_mask_byte) simp
  also have "\<dots> \<longleftrightarrow> bit (ucast (drop_bit s (NOT (mask (32 - n)) :: u32)) :: u8) k"
    using assms k by (auto simp: bit_simps)
  finally show "bit (mask_byte (n - d)) k =
    bit (ucast (drop_bit s (NOT (mask (32 - n)) :: u32)) :: u8) k" .
qed

lemma cidr_mask_32:
  assumes "n \<le> 32"
  shows "cidr_mask n 32 = be_put_uint32 (NOT (mask (32 - n)))"
proof -
  have "cidr_mask n 32 = map (\<lambda>i. mask_byte (n - 8 * i)) [0..<4]"
    by (simp add: cidr_mask_def mask_byte_def)
  also have "\<dots> = [mask_byte (n - 0), mask_byte (n - 8), mask_byte (n - 16), mask_byte (n - 24)]"
    by (simp add: upt_rec)
  also have "\<dots> = be_put_uint32 (NOT (mask (32 - n)))"
    using assms by (simp only: mask_byte_eq [of 0 24] mask_byte_eq [of 8 16] mask_byte_eq [of 16 8]
        mask_byte_eq [of 24 0]) (simp add: be_put_uint32_def)
  finally show ?thesis .
qed

lemma and_bytes_be_put: "and_bytes (be_put_uint32 v) (be_put_uint32 w) = be_put_uint32 (v AND w)"
  by (auto simp: and_bytes_def be_put_uint32_def bit_simps intro!: bit_word_eqI)

definition cidr_net :: "u32 \<Rightarrow> nat \<Rightarrow> ipnet" where
  "cidr_net v n = \<lparr>net_ip = and_bytes (be_put_uint32 v) (cidr_mask n 32), net_mask = cidr_mask n 32\<rparr>"

lemma and_not_mask_eq_iff:
  "v AND NOT (mask k) = w AND NOT (mask k) \<longleftrightarrow> drop_bit k v = drop_bit k (w :: u32)"
proof
  assume a: "v AND NOT (mask k) = w AND NOT (mask k)"
  show "drop_bit k v = drop_bit k w"
  proof (rule bit_word_eqI)
    fix i
    have "bit (v AND NOT (mask k)) (k + i) = bit (w AND NOT (mask k)) (k + i)" by (simp only: a)
    then show "bit (drop_bit k v) i = bit (drop_bit k w) i"
      by (auto simp: bit_simps dest: bit_imp_le_length)
  qed
next
  assume a: "drop_bit k v = drop_bit k w"
  show "v AND NOT (mask k) = w AND NOT (mask k)"
  proof (rule bit_word_eqI)
    fix i
    have "bit (drop_bit k v) (i - k) = bit (drop_bit k w) (i - k)" by (simp only: a)
    then show "bit (v AND NOT (mask k)) i = bit (w AND NOT (mask k)) i"
      by (auto simp: bit_simps)
  qed
qed

lemma net_contains_cidr_net:
  assumes "n \<le> 32"
  shows "net_contains (cidr_net v n) (be_put_uint32 w) \<longleftrightarrow> drop_bit (32 - n) v = drop_bit (32 - n) w"
proof -
  have "net_contains (cidr_net v n) (be_put_uint32 w) \<longleftrightarrow>
      v AND NOT (mask (32 - n)) AND NOT (mask (32 - n)) = w AND NOT (mask (32 - n))"
    unfolding cidr_net_def using assms
    by (subst net_contains_v4) (simp_all add: cidr_mask_32 and_bytes_be_put)
  also have "\<dots> \<longleftrightarrow> drop_bit (32 - n) v = drop_bit (32 - n) w"
    by (simp add: and.assoc and_not_mask_eq_iff)
  finally show ?thesis .
qed

subsection \<open>Parsing addresses\<close>

text \<open>One decimal octet: 1 to 3 digits, at most 255, no leading zero.\<close>

definition parse_octet :: "string \<Rightarrow> u8 option" where
  "parse_octet s = (case parse_nat s of None \<Rightarrow> None
     | Some n \<Rightarrow> if n \<le> 255 \<and> (length s = 1 \<or> hd s \<noteq> CHR ''0'') then Some (of_nat n) else None)"

fun parse_octets :: "string list \<Rightarrow> u8 list option" where
  "parse_octets [] = Some []"
| "parse_octets (s # ss) = (case parse_octet s of None \<Rightarrow> None
     | Some b \<Rightarrow> map_option ((#) b) (parse_octets ss))"

definition parse_ipv4_fields :: "string \<Rightarrow> u8 list option" where
  "parse_ipv4_fields s =
     (let fs = split_on CHR ''.'' s in if length fs = 4 then parse_octets fs else None)"

definition hex_val :: "char \<Rightarrow> nat option" where
  "hex_val c = (let n = (of_char c :: nat) in
     if 48 \<le> n \<and> n \<le> 57 then Some (n - 48)
     else if 97 \<le> n \<and> n \<le> 102 then Some (n - 87)
     else if 65 \<le> n \<and> n \<le> 70 then Some (n - 55) else None)"

fun hex_run :: "string \<Rightarrow> nat list \<times> string" where
  "hex_run [] = ([], [])"
| "hex_run (c # s) = (case hex_val c of None \<Rightarrow> ([], c # s)
     | Some d \<Rightarrow> (let (ds, r) = hex_run s in (d # ds, r)))"

text \<open>
  The loop of \<open>netip.parseIPv6\<close>. \<open>acc\<close> are the bytes written so far, \<open>ell\<close> is the position of the
  ellipsis, if any. The first argument bounds the number of groups: every iteration writes two
  or four bytes, and the loop runs while fewer than 16 are written, so 8 rounds are all of them.
\<close>

fun ipv6_groups :: "nat \<Rightarrow> string \<Rightarrow> u8 list \<Rightarrow> nat option \<Rightarrow> (u8 list \<times> nat option \<times> string) option" where
  "ipv6_groups 0 s acc ell = Some (acc, ell, s)"
| "ipv6_groups (Suc n) s acc ell =
     (let (ds, r) = hex_run s; v = foldl (\<lambda>a d. 16 * a + d) 0 ds in
      if ds = [] \<or> 4 < length ds then None
      else if r \<noteq> [] \<and> hd r = CHR ''.'' then
        (if (ell = None \<and> length acc \<noteq> 12) \<or> 16 < length acc + 4 then None
         else case parse_ipv4_fields s of None \<Rightarrow> None | Some b \<Rightarrow> Some (acc @ b, ell, []))
      else let acc' = acc @ [of_nat (v div 256), of_nat (v mod 256)] in
        (case r of [] \<Rightarrow> Some (acc', ell, [])
         | c # r1 \<Rightarrow>
             if c \<noteq> CHR '':'' \<or> r1 = [] then None
             else if hd r1 = CHR '':'' then
               (if ell \<noteq> None then None
                else if tl r1 = [] then Some (acc', Some (length acc'), [])
                else ipv6_groups n (tl r1) acc' (Some (length acc')))
             else ipv6_groups n r1 acc' ell))"

definition parse_ipv6 :: "string \<Rightarrow> ip option" where
  "parse_ipv6 s =
     (let lead = (2 \<le> length s \<and> take 2 s = ''::'') in
      if lead \<and> length s = 2 then Some (replicate 16 0)
      else case ipv6_groups 8 (if lead then drop 2 s else s) [] (if lead then Some 0 else None) of
        None \<Rightarrow> None
      | Some (b, ell, r) \<Rightarrow>
          if r \<noteq> [] then None
          else if length b < 16 then
            (case ell of None \<Rightarrow> None
             | Some e \<Rightarrow> Some (take e b @ replicate (16 - length b) 0 @ drop e b))
          else if ell \<noteq> None then None else Some b)"

text \<open>
  \<open>netip.ParseAddr\<close> without zones, which \<open>net.ParseIP\<close> and \<open>net.ParseCIDR\<close> reject: the first
  dot or colon decides the family. The result is the 4- or 16-byte form.
\<close>

definition parse_addr :: "string \<Rightarrow> ip option" where
  "parse_addr s =
     (case find (\<lambda>c. c \<in> {CHR ''.'', CHR '':'', CHR ''%''}) s of
        Some c \<Rightarrow> if c = CHR ''.'' then parse_ipv4_fields s
                  else if c = CHR '':'' \<and> CHR ''%'' \<notin> set s then parse_ipv6 s else None
      | None \<Rightarrow> None)"

definition as16 :: "ip \<Rightarrow> ip" where
  "as16 a = (if length a = 4 then v4_prefix @ a else a)"

text \<open>\<open>net.ParseIP\<close>: \<open>nil\<close> (the empty slice) when the text is no address.\<close>

definition parse_ip :: "string \<Rightarrow> ip" where
  "parse_ip s = (case parse_addr s of None \<Rightarrow> [] | Some a \<Rightarrow> as16 a)"

definition parse_cidr :: "string \<Rightarrow> (ip \<times> ipnet) option" where
  "parse_cidr s =
     (if CHR ''/'' \<notin> set s then None
      else let addr = takeWhile (\<lambda>c. c \<noteq> CHR ''/'') s;
               m = tl (dropWhile (\<lambda>c. c \<noteq> CHR ''/'') s)
        in (case (parse_addr addr, parse_nat m) of
              (Some a, Some n) \<Rightarrow>
                (if n \<le> 8 * length a
                 then (let mk = cidr_mask n (8 * length a)
                       in Some (as16 a, \<lparr>net_ip = ip_mask (as16 a) mk, net_mask = mk\<rparr>))
                 else None)
            | _ \<Rightarrow> None))"

subsection \<open>Printing addresses\<close>

definition dotted :: "ip \<Rightarrow> string" where
  "dotted a = join_with ''.'' (map (\<lambda>b. nat_digits (unat b)) a)"

definition hex_char :: "nat \<Rightarrow> char" where
  "hex_char d = (if d < 10 then char_of (48 + d) else char_of (87 + d))"

fun hex_digits :: "nat \<Rightarrow> string" where
  "hex_digits n = (if n < 16 then [hex_char n] else hex_digits (n div 16) @ [hex_char (n mod 16)])"

declare hex_digits.simps [simp del]

definition v6_groups :: "ip \<Rightarrow> nat list" where
  "v6_groups a = map (\<lambda>i. 256 * unat (a ! (2 * i)) + unat (a ! (2 * i + 1))) [0..<length a div 2]"

definition zero_run :: "nat list \<Rightarrow> nat \<times> nat" where
  "zero_run gs = foldl (\<lambda>(zs, ze) i.
       let l = length (takeWhile (\<lambda>g. g = 0) (drop i gs))
       in if 2 \<le> l \<and> ze - zs < l then (i, i + l) else (zs, ze)) (255, 255) [0..<8]"

definition v6_string :: "ip \<Rightarrow> string" where
  "v6_string a =
     (let gs = v6_groups a; (zs, ze) = zero_run gs
      in if zs = 255 then join_with '':'' (map hex_digits gs)
         else join_with '':'' (map hex_digits (take zs gs)) @ ''::'' @
              join_with '':'' (map hex_digits (drop ze gs)))"

text \<open>\<open>IP.String\<close> on the lengths a \<open>net.IP\<close> takes here (0, 4, 16).\<close>

definition ip_string :: "ip \<Rightarrow> string" where
  "ip_string a = (if a = [] then ''<nil>''
     else if to4 a \<noteq> [] then dotted (to4 a)
     else v6_string a)"

subsection \<open>Round trip of IPv4 addresses\<close>

lemma hd_nat_digits: "0 < n \<Longrightarrow> hd (nat_digits n) \<noteq> CHR ''0''"
proof (induction n rule: nat_digits.induct)
  case (1 n)
  show ?case
  proof (cases "n < 10")
    case True
    with "1.prems" have "(of_char (hd (nat_digits n)) :: nat) \<noteq> 48"
      by (subst nat_digits.simps) simp
    then show ?thesis by auto
  next
    case False
    with 1 have "hd (nat_digits (n div 10)) \<noteq> CHR ''0''" by simp
    with False show ?thesis by (subst nat_digits.simps) simp
  qed
qed

lemma parse_octet_digits [simp]: "parse_octet (nat_digits (unat b)) = Some b"
proof -
  have "unat b < 256" using unsigned_less [of b, where ?'a = nat] by simp
  moreover have "length (nat_digits (unat b)) = 1 \<or> hd (nat_digits (unat b)) \<noteq> CHR ''0''"
    using hd_nat_digits [of "unat b"] by (cases "unat b = 0") (simp_all add: nat_digits.simps [of 0])
  ultimately show ?thesis by (simp add: parse_octet_def)
qed

lemma parse_octets_digits: "parse_octets (map (\<lambda>b. nat_digits (unat b)) a) = Some a"
  by (induction a) simp_all

lemma digits_no_dot: "CHR ''.'' \<notin> set (nat_digits n)" "CHR '':'' \<notin> set (nat_digits n)"
  "CHR ''%'' \<notin> set (nat_digits n)"
  by (auto dest!: nat_digits_chars simp: is_digit_def)

lemma parse_ipv4_fields_dotted:
  assumes "length a = 4"
  shows "parse_ipv4_fields (dotted a) = Some a"
proof -
  have "split_on CHR ''.'' (dotted a) = map (\<lambda>b. nat_digits (unat b)) a"
    unfolding dotted_def using assms
    by (intro split_on_join) (auto simp: digits_no_dot)
  then show ?thesis using assms by (simp add: parse_ipv4_fields_def parse_octets_digits)
qed

lemma parse_ip_dotted:
  assumes "length a = 4"
  shows "parse_ip (dotted a) = v4_prefix @ a"
proof -
  from assms obtain b0 b1 b2 b3 where a: "a = [b0, b1, b2, b3]" by (rule length_4_cases)
  have f: "find P (xs @ x # ys) = Some x" if "\<forall>y \<in> set xs. \<not> P y" "P x" for P :: "char \<Rightarrow> bool" and xs x ys
    using that by (induction xs) auto
  have "find (\<lambda>c. c \<in> {CHR ''.'', CHR '':'', CHR ''%''}) (dotted a) = Some CHR ''.''"
    unfolding a dotted_def using digits_no_dot
    by (simp only: list.map join_with.simps append_Cons append_Nil) (rule f; fastforce)
  with assms show ?thesis
    by (simp add: parse_ip_def parse_addr_def parse_ipv4_fields_dotted as16_def)
qed

end
