(* ===== verification/Config.thy ===== *)
theory Config
  imports Complex_Main GoNet
begin

section \<open>The configuration (config/config.go, common/exit_codes.go)\<close>

text \<open>
  The record every module reads. Filling it from YAML and from the environment is the work of the
  package \<open>cleanenv\<close> and is not modelled; \<open>default_cfg\<close> holds the defaults the field tags give
  (and the zero value of a field without one).
\<close>

record Cfg_db =
  Iface_name :: string
  Iface_ip :: string
  Dst_port :: u16
  Dns_query :: string
  Dns_query_type :: string
  Dnssec_enabled :: bool
  EDNS0_enabled :: bool
  EDNS0_buffer_size :: int
  Log_dnsrecs :: bool
  Excl_ips_fname :: string
  Pkts_per_sec :: int
  Verbosity :: int
  Port_min :: u16
  Port_max :: u16
  Port_reuse_timeout :: int
  Number_routines :: u16
  Craft_ethernet :: bool
  Domain_mode :: string
  Domain_list :: string
  Rate_curve :: string
  Rate_mode :: string
  Rate_increase_interval :: int
  Rate_wait_interval :: int
  Rate_ignore_threshold :: bool
  Rate_receive_threshold :: rat
  Rate_inject_speed :: int
  Rate_inject_count :: int
  Rate_inject_routines :: int
  Rate_inject_max_fwds :: int
  Rate_response_ip_only :: bool
  Rate_concurrent_pool :: bool
  Rate_subroutines :: int

definition default_cfg :: Cfg_db where
  "default_cfg = \<lparr>Iface_name = '''', Iface_ip = '''', Dst_port = 53, Dns_query = '''',
     Dns_query_type = ''A'', Dnssec_enabled = False, EDNS0_enabled = False,
     EDNS0_buffer_size = 4096, Log_dnsrecs = False, Excl_ips_fname = '''', Pkts_per_sec = 0,
     Verbosity = 3, Port_min = 0, Port_max = 0, Port_reuse_timeout = 0, Number_routines = 1,
     Craft_ethernet = False, Domain_mode = ''constant'', Domain_list = '''',
     Rate_curve = ''50,100,200,400,600,800,1000'', Rate_mode = ''direct'',
     Rate_increase_interval = 2000, Rate_wait_interval = 150, Rate_ignore_threshold = False,
     Rate_receive_threshold = 3 / 4, Rate_inject_speed = 100, Rate_inject_count = 1000,
     Rate_inject_routines = 1000, Rate_inject_max_fwds = 50, Rate_response_ip_only = False,
     Rate_concurrent_pool = False, Rate_subroutines = 5\<rparr>"

datatype ExitCode = WRONG_INPUT_ARGS | WRONG_PROTOCOL

fun exit_code :: "ExitCode \<Rightarrow> int" where
  "exit_code WRONG_INPUT_ARGS = 1"
| "exit_code WRONG_PROTOCOL = 2"

end
