(* ===== verification/Common.thy ===== *)
theory Common
  imports Config
begin

section \<open>Packets and helpers (common/common.go, common/base.go, common/tcp_common)\<close>

subsection \<open>Helpers of common.go\<close>

definition To_csv_line :: "string list \<Rightarrow> string" where
  "To_csv_line str_slice = join_with '';'' str_slice @ [CHR 10]"

definition Htons :: "u16 \<Rightarrow> u16" where
  "Htons i = (push_bit 8 i AND 0xff00) OR drop_bit 8 i"

definition Ip42int :: "ip \<Rightarrow> u32 outcome" where
  "Ip42int a = (if length a = 16 then be_uint32 (drop 12 a) else be_uint32 a)"

definition Int2ip4 :: "u32 \<Rightarrow> ip" where
  "Int2ip4 nn = be_put_uint32 nn"

lemma bit_ff00: "bit (0xff00 :: u16) n \<longleftrightarrow> 8 \<le> n \<and> n < 16"
proof -
  have "(0xff00 :: u16) = push_bit 8 (mask 8)" by (simp add: mask_eq_exp_minus_1)
  then show ?thesis by (simp only: bit_simps) auto
qed

lemma bit_Htons: "n < 16 \<Longrightarrow> bit (Htons i) n \<longleftrightarrow> bit i (if n < 8 then n + 8 else n - 8)"
  using bit_ff00 [of n] by (auto simp: Htons_def bit_simps add.commute dest: bit_imp_le_length)

lemma Htons_Htons: "Htons (Htons i) = i"
  by (rule bit_word_eqI) (auto simp: bit_Htons)

lemma Ip42int_Int2ip4: "Ip42int (Int2ip4 v) = Ret v"
  by (simp add: Ip42int_def Int2ip4_def)

text \<open>The CSV line of a record can be split into its fields again when no field has a semicolon.\<close>

lemma To_csv_line_fields:
  assumes "fs \<noteq> []" and "\<forall>f \<in> set fs. CHR '';'' \<notin> set f"
  shows "split_on CHR '';'' (butlast (To_csv_line fs)) = fs"
  using split_on_join [OF assms] by (simp add: To_csv_line_def)

subsection \<open>TCP flags (tcp_flags.go)\<close>

record TCP_flags =
  FIN :: bool
  SYN :: bool
  RST :: bool
  PSH :: bool
  ACK :: bool

definition flags_Equals :: "TCP_flags \<Rightarrow> TCP_flags \<Rightarrow> bool" where
  "flags_Equals f tomatch \<longleftrightarrow> FIN f = FIN tomatch \<and> SYN f = SYN tomatch \<and> RST f = RST tomatch \<and>
     PSH f = PSH tomatch \<and> ACK f = ACK tomatch"

definition Is_PSH_ACK :: "TCP_flags \<Rightarrow> bool" where
  "Is_PSH_ACK f = flags_Equals f \<lparr>FIN = False, SYN = False, RST = False, PSH = True, ACK = True\<rparr>"

definition Is_SYN_ACK :: "TCP_flags \<Rightarrow> bool" where
  "Is_SYN_ACK f = flags_Equals f \<lparr>FIN = False, SYN = True, RST = False, PSH = False, ACK = True\<rparr>"

definition Is_SYN :: "TCP_flags \<Rightarrow> bool" where
  "Is_SYN f = flags_Equals f \<lparr>FIN = False, SYN = True, RST = False, PSH = False, ACK = False\<rparr>"

definition Is_FIN_ACK :: "TCP_flags \<Rightarrow> bool" where
  "Is_FIN_ACK f = flags_Equals f \<lparr>FIN = True, SYN = False, RST = False, PSH = False, ACK = True\<rparr>"

definition Is_FIN_PSH_ACK :: "TCP_flags \<Rightarrow> bool" where
  "Is_FIN_PSH_ACK f = flags_Equals f \<lparr>FIN = True, SYN = False, RST = False, PSH = True, ACK = True\<rparr>"

lemmas flag_preds = flags_Equals_def Is_PSH_ACK_def Is_SYN_ACK_def Is_SYN_def Is_FIN_ACK_def
  Is_FIN_PSH_ACK_def

lemma flags_Equals_eq [simp]: "flags_Equals f g \<longleftrightarrow> f = g"
  by (cases f; cases g) (auto simp: flags_Equals_def)

text \<open>At most one of the five tests holds of a packet.\<close>

lemma flag_preds_exclusive:
  "Is_SYN f \<Longrightarrow> \<not> Is_SYN_ACK f" "Is_SYN f \<Longrightarrow> \<not> Is_PSH_ACK f" "Is_SYN f \<Longrightarrow> \<not> Is_FIN_PSH_ACK f"
  "Is_SYN f \<Longrightarrow> \<not> Is_FIN_ACK f" "Is_SYN_ACK f \<Longrightarrow> \<not> Is_PSH_ACK f" "Is_SYN_ACK f \<Longrightarrow> \<not> Is_FIN_ACK f"
  "Is_SYN_ACK f \<Longrightarrow> \<not> Is_FIN_PSH_ACK f" "Is_PSH_ACK f \<Longrightarrow> \<not> Is_FIN_PSH_ACK f"
  "Is_FIN_ACK f \<Longrightarrow> \<not> Is_PSH_ACK f" "Is_FIN_ACK f \<Longrightarrow> \<not> Is_FIN_PSH_ACK f"
  by (auto simp: flag_preds)

subsection \<open>Packets\<close>

text \<open>
  The fields of the layers of \<open>gopacket\<close> that the sources read or set. The encoding of these
  values to bytes and back is the library's: where the code needs it, it is a parameter.
\<close>

record ipv4_layer =
  ip_TTL :: u8
  ip_SrcIP :: ip
  ip_DstIP :: ip
  ip_Protocol :: u8
  ip_Id :: u16

abbreviation IPProtocolTCP :: u8 where "IPProtocolTCP \<equiv> 6"
abbreviation IPProtocolUDP :: u8 where "IPProtocolUDP \<equiv> 17"

record tcp_layer =
  tcp_SrcPort :: u16
  tcp_DstPort :: u16
  tcp_Seq :: u32
  tcp_Ack :: u32
  tcp_flags :: TCP_flags
  tcp_Window :: u16

record udp_layer =
  udp_SrcPort :: u16
  udp_DstPort :: u16

record dns_question =
  q_Name :: string
  q_Type :: u16
  q_Class :: u16

record dns_rr =
  rr_Type :: u16
  rr_Class :: u16
  rr_TTL :: u32
  rr_IP :: ip
  rr_Data :: "u8 list option"

record dns_msg =
  dns_ID :: u16
  dns_RD :: bool
  dns_OpCode :: nat
  dns_ResponseCode :: nat
  dns_QDCount :: u16
  dns_ARCount :: u16
  dns_Questions :: "dns_question list"
  dns_Answers :: "dns_rr list"
  dns_Additionals :: "dns_rr list"

abbreviation DNSTypeA :: u16 where "DNSTypeA \<equiv> 1"
abbreviation DNSTypeHINFO :: u16 where "DNSTypeHINFO \<equiv> 13"
abbreviation DNSTypeTXT :: u16 where "DNSTypeTXT \<equiv> 16"
abbreviation DNSTypeAAAA :: u16 where "DNSTypeAAAA \<equiv> 28"
abbreviation DNSTypeOPT :: u16 where "DNSTypeOPT \<equiv> 41"
abbreviation DNSTypeDNSKEY :: u16 where "DNSTypeDNSKEY \<equiv> 48"
abbreviation DNSTypeANY :: u16 where "DNSTypeANY \<equiv> 255"
abbreviation DNSClassIN :: u16 where "DNSClassIN \<equiv> 1"

subsection \<open>The raw layer-2 sender (base.go)\<close>

text \<open>The Ethernet header \<open>Base_init\<close> builds, and the frame that \<open>RawL2.Send\<close> writes.\<close>

definition eth_header :: "u8 list \<Rightarrow> u8 list \<Rightarrow> u8 list outcome" where
  "eth_header dstMac srcMac =
     (if length dstMac < 6 \<or> length srcMac < 6 then Panic IndexOutOfRange
      else Ret (take 6 dstMac @ take 6 srcMac @ [0x08, 0x00]))"

definition RawL2_Send :: "u8 list \<Rightarrow> u8 list \<Rightarrow> u8 list" where
  "RawL2_Send hdr payload = hdr @ payload"

lemma RawL2_frame:
  assumes "eth_header d s = Ret h"
  shows "length (RawL2_Send h p) = 14 + length p" and "drop 14 (RawL2_Send h p) = p"
  using assms by (auto simp: eth_header_def RawL2_Send_def split: if_splits)

subsection \<open>Building the packets of the TCP modules (tcp_sender.go)\<close>

definition build_ack_pos_fin ::
  "Cfg_db \<Rightarrow> ip \<Rightarrow> u16 \<Rightarrow> u32 \<Rightarrow> u32 \<Rightarrow> bool \<Rightarrow> ipv4_layer \<times> tcp_layer \<times> u8 list" where
  "build_ack_pos_fin cfg dst_ip src_port seq_num ack_num fin =
     (\<lparr>ip_TTL = 64, ip_SrcIP = parse_ip (Iface_ip cfg), ip_DstIP = dst_ip,
        ip_Protocol = IPProtocolTCP, ip_Id = 1\<rparr>,
      \<lparr>tcp_SrcPort = src_port, tcp_DstPort = Dst_port cfg, tcp_Seq = ack_num, tcp_Ack = seq_num + 1,
        tcp_flags = \<lparr>FIN = fin, SYN = False, RST = False, PSH = False, ACK = True\<rparr>,
        tcp_Window = 8192\<rparr>,
      [])"

text \<open>
  The DNS message over TCP has its size in front, two bytes, big endian. The code writes a zero and
  the size modulo 256.
\<close>

definition prepend_size :: "u8 list \<Rightarrow> u8 list" where
  "prepend_size b = 0 # of_nat (length b) # b"

text \<open>The check of an answer's size, as the TCP scanner and the traceroute have it.\<close>

definition pld_size :: "u8 list \<Rightarrow> nat" where
  "pld_size p = unat (p ! 0) + 256 * unat (p ! 1)"

definition size_check_drops :: "u8 list \<Rightarrow> bool" where
  "size_check_drops p \<longleftrightarrow> pld_size p = length p - 2"

text \<open>A message with the length prefix of RFC 1035: the size in two bytes, high byte first.\<close>

definition rfc_frame :: "u8 list \<Rightarrow> u8 list" where
  "rfc_frame m = of_nat (length m div 256) # of_nat (length m mod 256) # m"

lemma prepend_size_ok: "length m < 256 \<Longrightarrow> prepend_size m = rfc_frame m"
  by (simp add: prepend_size_def rfc_frame_def)

lemma size_check_rfc_frame:
  assumes "length m < 65536"
  shows "size_check_drops (rfc_frame m) \<longleftrightarrow> length m div 256 = length m mod 256"
proof -
  have u: "unat (of_nat n :: u8) = n" if "n < 256" for n
    using that by (simp add: unat_of_nat)
  have "length m div 256 < 256" using assms by auto
  then have p: "pld_size (rfc_frame m) = length m div 256 + 256 * (length m mod 256)"
    by (simp add: pld_size_def rfc_frame_def u)
  have "length m = 256 * (length m div 256) + length m mod 256" by simp
  moreover have "x + 256 * y = 256 * x + y \<longleftrightarrow> x = y" for x y :: nat by arith
  ultimately show ?thesis unfolding size_check_drops_def p
    by (metis add_diff_cancel_left' length_Cons numeral_2_eq_2 plus_1_eq_Suc add_2_eq_Suc rfc_frame_def)
qed

end
