(* ===== verification/Fragments.thy ===== *)
theory Fragments
  imports Common "HOL-Library.Multiset"
begin

section \<open>Reassembly of IP fragments (common/base.go, Process_pkt)\<close>

text \<open>
  Every captured packet goes through \<open>Process_pkt\<close>: an unfragmented one is handed on, a fragment is
  buffered under the identification field of its header, and the buffer is scanned for a complete
  datagram. The model follows the two nested loops of the code; the state is the map \<open>fragmap\<close>.
\<close>

record ip_pkt =
  pk_hdr :: ipv4_layer
  pk_MF :: bool
  pk_FragOffset :: u16
  pk_Payload :: "u8 list"

type_synonym fragmap = "u16 \<rightharpoonup> ip_pkt list"

datatype delivery =
    Nothing
  | Deliver_pkt ip_pkt
  | Deliver_transport ipv4_layer "u8 list"

definition is_fragment :: "ip_pkt \<Rightarrow> bool" where
  "is_fragment p \<longleftrightarrow> pk_MF p \<or> pk_FragOffset p \<noteq> 0"

definition is_last_fragment :: "ip_pkt \<Rightarrow> bool" where
  "is_last_fragment p \<longleftrightarrow> pk_FragOffset p \<noteq> 0 \<and> \<not> pk_MF p"

text \<open>The inner loop: the first fragment at the offset, and whether a last fragment was passed.\<close>

fun scan_frags :: "nat \<Rightarrow> ip_pkt list \<Rightarrow> bool \<Rightarrow> bool \<times> ip_pkt option" where
  "scan_frags n [] last_seen = (last_seen, None)"
| "scan_frags n (f # fs) last_seen =
     (let last_seen' = (last_seen \<or> is_last_fragment f)
      in if 8 * unat (pk_FragOffset f) = n then (last_seen', Some f)
         else scan_frags n fs last_seen')"

text \<open>The outer loop runs once per buffered fragment.\<close>

fun collect_frags :: "nat \<Rightarrow> ip_pkt list \<Rightarrow> u8 list \<Rightarrow> bool \<Rightarrow> (u8 list \<times> bool) option" where
  "collect_frags 0 fs transp_pkt last_seen = Some (transp_pkt, last_seen)"
| "collect_frags (Suc k) fs transp_pkt last_seen =
     (case scan_frags (length transp_pkt) fs last_seen of
        (_, None) \<Rightarrow> None
      | (last_seen', Some f) \<Rightarrow> collect_frags k fs (transp_pkt @ pk_Payload f) last_seen')"

definition Process_pkt :: "fragmap \<Rightarrow> ip_pkt option \<Rightarrow> fragmap \<times> delivery" where
  "Process_pkt m pkt = (case pkt of
       None \<Rightarrow> (m, Nothing)
     | Some p \<Rightarrow>
         if \<not> is_fragment p then (m, Deliver_pkt p)
         else
           let k = ip_Id (pk_hdr p);
               fs = (case m k of None \<Rightarrow> [] | Some l \<Rightarrow> l) @ [p];
               m' = m(k \<mapsto> fs)
           in (case collect_frags (length fs) fs [] False of
                 None \<Rightarrow> (m', Nothing)
               | Some (transp_pkt, last_seen) \<Rightarrow>
                   if \<not> last_seen then (m', Nothing)
                   else (m'(k := None),
                         if ip_Protocol (pk_hdr p) = IPProtocolUDP \<or> ip_Protocol (pk_hdr p) = IPProtocolTCP
                         then Deliver_transport (pk_hdr p) transp_pkt else Nothing)))"

fun process_all :: "fragmap \<Rightarrow> ip_pkt list \<Rightarrow> fragmap \<times> delivery list" where
  "process_all m [] = (m, [])"
| "process_all m (p # ps) =
     (let (m1, d) = Process_pkt m (Some p); (m2, ds) = process_all m1 ps in (m2, d # ds))"

lemma process_all_step:
  "Process_pkt m (Some p) = (m1, d) \<Longrightarrow> process_all m1 ps = (m2, ds) \<Longrightarrow>
     process_all m (p # ps) = (m2, d # ds)"
  by simp

lemma Process_pkt_unfragmented:
  "\<not> is_fragment p \<Longrightarrow> Process_pkt m (Some p) = (m, Deliver_pkt p)"
  by (simp add: Process_pkt_def)

subsection \<open>How a datagram is cut into fragments\<close>

fun frags_from :: "ipv4_layer \<Rightarrow> nat \<Rightarrow> u8 list list \<Rightarrow> ip_pkt list" where
  "frags_from h n [] = []"
| "frags_from h n (c # cs) =
     \<lparr>pk_hdr = h, pk_MF = (cs \<noteq> []), pk_FragOffset = of_nat (n div 8), pk_Payload = c\<rparr>
     # frags_from h (n + length c) cs"

text \<open>A legal cut: two pieces or more, all but the last a positive multiple of eight bytes.\<close>

definition legal_cut :: "u8 list list \<Rightarrow> bool" where
  "legal_cut cs \<longleftrightarrow> 2 \<le> length cs \<and> (\<forall>c \<in> set (butlast cs). c \<noteq> [] \<and> 8 dvd length c) \<and>
     length (concat cs) \<le> 65535"

definition cut_off :: "u8 list list \<Rightarrow> nat \<Rightarrow> nat" where
  "cut_off cs i = length (concat (take i cs))"

lemma length_frags_from [simp]: "length (frags_from h n cs) = length cs"
  by (induction cs arbitrary: n) simp_all

lemma frags_from_nth:
  assumes "i < length cs"
  shows "frags_from h n cs ! i = \<lparr>pk_hdr = h, pk_MF = (Suc i \<noteq> length cs),
     pk_FragOffset = of_nat ((n + cut_off cs i) div 8), pk_Payload = cs ! i\<rparr>"
  using assms
proof (induction cs arbitrary: n i)
  case Nil
  then show ?case by simp
next
  case (Cons c cs)
  then show ?case by (cases i) (auto simp: cut_off_def add.assoc)
qed

lemma cut_off_0 [simp]: "cut_off cs 0 = 0"
  by (simp add: cut_off_def)

lemma cut_off_Suc: "i < length cs \<Longrightarrow> cut_off cs (Suc i) = cut_off cs i + length (cs ! i)"
  by (simp add: cut_off_def take_Suc_conv_app_nth)

lemma cut_off_mono: "i \<le> j \<Longrightarrow> cut_off cs i \<le> cut_off cs j"
proof -
  assume "i \<le> j"
  then have "take j cs = take i cs @ take (j - i) (drop i cs)"
    by (metis add_diff_inverse_nat not_less take_add)
  then show ?thesis by (simp add: cut_off_def)
qed

lemma cut_off_le: "cut_off cs i \<le> length (concat cs)"
  using cut_off_mono [of i "max i (length cs)" cs] by (simp add: cut_off_def)

lemma cut_piece:
  assumes "legal_cut cs" and "Suc i < length cs"
  shows "cs ! i \<noteq> []" and "8 dvd length (cs ! i)"
proof -
  from assms(2) have "cs ! i \<in> set (butlast cs)"
    by (metis in_set_conv_nth length_butlast less_diff_conv nth_butlast plus_1_eq_Suc add.commute)
  with assms(1) show "cs ! i \<noteq> []" and "8 dvd length (cs ! i)" by (auto simp: legal_cut_def)
qed

lemma cut_off_dvd:
  assumes "legal_cut cs" and "i < length cs" shows "8 dvd cut_off cs i"
  using assms(2)
proof (induction i)
  case 0
  show ?case by simp
next
  case (Suc i)
  then show ?case using cut_piece [OF assms(1)] by (simp add: cut_off_Suc)
qed

lemma cut_off_strict:
  assumes "legal_cut cs" and "i < j" and "j < length cs"
  shows "cut_off cs i < cut_off cs j"
proof -
  have "cut_off cs i < cut_off cs (Suc i)"
    using assms cut_piece(1) [OF assms(1), of i] by (simp add: cut_off_Suc)
  also have "\<dots> \<le> cut_off cs j" using assms(2) by (intro cut_off_mono) simp
  finally show ?thesis .
qed

lemma cut_off_inj:
  assumes "legal_cut cs" and "i < length cs" and "j < length cs" and "cut_off cs i = cut_off cs j"
  shows "i = j"
  using cut_off_strict [OF assms(1), of i j] cut_off_strict [OF assms(1), of j i] assms
  by (cases i j rule: linorder_cases) auto

definition frag :: "ipv4_layer \<Rightarrow> u8 list list \<Rightarrow> nat \<Rightarrow> ip_pkt" where
  "frag h cs i = frags_from h 0 cs ! i"

lemma frag_offset:
  assumes "legal_cut cs" and "i < length cs"
  shows "8 * unat (pk_FragOffset (frag h cs i)) = cut_off cs i"
proof -
  have "cut_off cs i div 8 \<le> 65535"
    using cut_off_le [of cs i] assms(1) by (auto simp: legal_cut_def)
  then have "unat (of_nat (cut_off cs i div 8) :: u16) = cut_off cs i div 8"
    by (simp add: unat_of_nat)
  then show ?thesis using assms cut_off_dvd [OF assms] by (simp add: frag_def frags_from_nth)
qed

lemma frag_fields:
  assumes "i < length cs"
  shows "pk_hdr (frag h cs i) = h" "pk_Payload (frag h cs i) = cs ! i"
    "pk_MF (frag h cs i) \<longleftrightarrow> Suc i \<noteq> length cs"
  using assms by (simp_all add: frag_def frags_from_nth)

lemma set_frags_from: "set (frags_from h 0 cs) = frag h cs ` {..<length cs}"
  by (auto simp: frag_def set_conv_nth)

lemma frag_inj:
  assumes "legal_cut cs" and "i < length cs" and "j < length cs" and "frag h cs i = frag h cs j"
  shows "i = j"
proof (rule cut_off_inj [OF assms(1-3)])
  have "cut_off cs i = 8 * unat (pk_FragOffset (frag h cs i))"
    by (simp only: frag_offset [OF assms(1,2)])
  also have "\<dots> = cut_off cs j" by (simp only: assms(4) frag_offset [OF assms(1,3)])
  finally show "cut_off cs i = cut_off cs j" .
qed

lemma is_last_frag:
  assumes "legal_cut cs" and "i < length cs"
  shows "is_last_fragment (frag h cs i) \<longleftrightarrow> Suc i = length cs"
proof -
  have "pk_FragOffset (frag h cs i) \<noteq> 0" if "Suc i = length cs"
  proof
    assume z: "pk_FragOffset (frag h cs i) = 0"
    have "0 < i" using that assms(1) by (auto simp: legal_cut_def)
    then have "cut_off cs 0 < cut_off cs i" using assms by (intro cut_off_strict) auto
    then show False using frag_offset [OF assms, of h] z by simp
  qed
  then show ?thesis using assms(2) by (auto simp: is_last_fragment_def frag_fields)
qed

lemma is_fragment_frag:
  assumes "legal_cut cs" and "i < length cs"
  shows "is_fragment (frag h cs i)"
proof (cases "Suc i = length cs")
  case True
  then have "is_last_fragment (frag h cs i)" using is_last_frag [OF assms] by simp
  then show ?thesis by (simp add: is_fragment_def is_last_fragment_def)
next
  case False
  then show ?thesis using assms(2) by (simp add: is_fragment_def frag_fields)
qed

subsection \<open>What the loops compute on fragments of one datagram\<close>

lemma scan_frags_None:
  "\<forall>f \<in> set fs. 8 * unat (pk_FragOffset f) \<noteq> n \<Longrightarrow> snd (scan_frags n fs ls) = None"
  by (induction fs arbitrary: ls) (simp_all add: Let_def)

lemma scan_frags_Some:
  assumes "f \<in> set fs" and "8 * unat (pk_FragOffset f) = n"
    and "\<forall>g \<in> set fs. 8 * unat (pk_FragOffset g) = n \<longrightarrow> g = f"
  shows "\<exists>ls'. scan_frags n fs ls = (ls', Some f) \<and> (ls \<or> is_last_fragment f \<longrightarrow> ls') \<and>
    (ls' \<longrightarrow> ls \<or> (\<exists>g \<in> set fs. is_last_fragment g))"
  using assms
proof (induction fs arbitrary: ls)
  case Nil
  then show ?case by simp
next
  case (Cons g fs)
  show ?case
  proof (cases "8 * unat (pk_FragOffset g) = n")
    case True
    with Cons.prems have "g = f" by simp
    with True show ?thesis by auto
  next
    case False
    have "f \<in> set fs" using Cons.prems(1,2) False by (metis set_ConsD)
    moreover have "\<forall>g \<in> set fs. 8 * unat (pk_FragOffset g) = n \<longrightarrow> g = f"
      using Cons.prems(3) by (meson list.set_intros(2))
    ultimately obtain ls' where "scan_frags n fs (ls \<or> is_last_fragment g) = (ls', Some f)"
      and "(ls \<or> is_last_fragment g) \<or> is_last_fragment f \<longrightarrow> ls'"
      and "ls' \<longrightarrow> (ls \<or> is_last_fragment g) \<or> (\<exists>g \<in> set fs. is_last_fragment g)"
      using Cons.IH [OF _ Cons.prems(2), of "ls \<or> is_last_fragment g"] by blast
    moreover have "scan_frags n (g # fs) ls = scan_frags n fs (ls \<or> is_last_fragment g)"
      using False by (simp add: Let_def)
    ultimately show ?thesis by auto
  qed
qed

text \<open>
  One step of the outer loop with the first \<open>i\<close> pieces in hand: it goes on exactly when piece \<open>i\<close>
  has been received.
\<close>

lemma scan_frags_frag:
  assumes "legal_cut cs" and "i < length cs" and "set fs \<subseteq> frag h cs ` {..<length cs}"
    and "frag h cs i \<in> set fs"
  shows "\<exists>ls'. scan_frags (cut_off cs i) fs ls = (ls', Some (frag h cs i)) \<and>
    (ls \<or> Suc i = length cs \<longrightarrow> ls') \<and>
    (ls' \<longrightarrow> ls \<or> frag h cs (length cs - 1) \<in> set fs)"
proof -
  have uniq: "\<forall>g \<in> set fs. 8 * unat (pk_FragOffset g) = cut_off cs i \<longrightarrow> g = frag h cs i"
  proof (intro ballI impI)
    fix g assume "g \<in> set fs" and o: "8 * unat (pk_FragOffset g) = cut_off cs i"
    then obtain j where j: "j < length cs" "g = frag h cs j" using assms(3) by fast
    with o have "cut_off cs j = cut_off cs i" using frag_offset [OF assms(1) j(1), of h] by simp
    then show "g = frag h cs i" using cut_off_inj [OF assms(1) j(1) assms(2)] j(2) by simp
  qed
  have last: "frag h cs (length cs - 1) \<in> set fs" if gin: "g \<in> set fs" and gl: "is_last_fragment g" for g
  proof -
    obtain j where j: "j < length cs" "g = frag h cs j" using gin assms(3) by fast
    with gl have "Suc j = length cs" using is_last_frag [OF assms(1) j(1)] by simp
    then have "j = length cs - 1" by simp
    with j gin show ?thesis by simp
  qed
  show ?thesis
    using scan_frags_Some [OF assms(4) frag_offset [OF assms(1,2)] uniq, of ls] last
      is_last_frag [OF assms(1,2), of h] by blast
qed

lemma scan_frags_missing:
  assumes "legal_cut cs" and "i < length cs" and "set fs \<subseteq> frag h cs ` {..<length cs}"
    and "frag h cs i \<notin> set fs"
  shows "snd (scan_frags (cut_off cs i) fs ls) = None"
proof (rule scan_frags_None, intro ballI notI)
  fix g assume "g \<in> set fs" and o: "8 * unat (pk_FragOffset g) = cut_off cs i"
  then obtain j where j: "j < length cs" "g = frag h cs j" using assms(3) by fast
  with o have "cut_off cs j = cut_off cs i" using frag_offset [OF assms(1) j(1), of h] by simp
  then have "j = i" using cut_off_inj [OF assms(1) j(1) assms(2)] by simp
  with j \<open>g \<in> set fs\<close> assms(4) show False by simp
qed

lemma collect_frags_run:
  assumes "legal_cut cs" and "set fs \<subseteq> frag h cs ` {..<length cs}"
    and "i + k \<le> length cs" and "\<forall>j \<in> {i..<i + k}. frag h cs j \<in> set fs"
  shows "\<exists>ls'. collect_frags k fs (concat (take i cs)) ls = Some (concat (take (i + k) cs), ls') \<and>
    (ls \<or> (0 < k \<and> i + k = length cs) \<longrightarrow> ls') \<and>
    (ls' \<longrightarrow> ls \<or> frag h cs (length cs - 1) \<in> set fs)"
  using assms(3,4)
proof (induction k arbitrary: i ls)
  case 0
  then show ?case by simp
next
  case (Suc k)
  then have i: "i < length cs" and fi: "frag h cs i \<in> set fs" by auto
  obtain ls1 where s: "scan_frags (cut_off cs i) fs ls = (ls1, Some (frag h cs i))"
    and l1: "ls \<or> Suc i = length cs \<longrightarrow> ls1" "ls1 \<longrightarrow> ls \<or> frag h cs (length cs - 1) \<in> set fs"
    using scan_frags_frag [OF assms(1) i assms(2) fi] by blast
  have tk: "concat (take i cs) @ cs ! i = concat (take (Suc i) cs)"
    using i by (simp add: take_Suc_conv_app_nth)
  have "\<forall>j \<in> {Suc i..<Suc i + k}. frag h cs j \<in> set fs" using Suc.prems(2) by simp
  then obtain ls2 where c: "collect_frags k fs (concat (take (Suc i) cs)) ls1 =
      Some (concat (take (Suc i + k) cs), ls2)"
    and l2: "ls1 \<or> (0 < k \<and> Suc i + k = length cs) \<longrightarrow> ls2"
    "ls2 \<longrightarrow> ls1 \<or> frag h cs (length cs - 1) \<in> set fs"
    using Suc.IH [of "Suc i" ls1] Suc.prems(1) by auto
  have "collect_frags (Suc k) fs (concat (take i cs)) ls =
      Some (concat (take (i + Suc k) cs), ls2)"
    using s c by (simp add: cut_off_def [symmetric] frag_fields [OF i] tk)
  moreover have "ls \<or> (0 < Suc k \<and> i + Suc k = length cs) \<longrightarrow> ls2" using l1 l2 by (cases k) simp_all
  ultimately show ?case using l1 l2 by blast
qed

lemma collect_frags_gap:
  assumes "legal_cut cs" and "set fs \<subseteq> frag h cs ` {..<length cs}"
    and "i \<le> j" and "j < i + k" and "j < length cs" and "frag h cs j \<notin> set fs"
  shows "collect_frags k fs (concat (take i cs)) ls = None"
  using assms(3-5)
proof (induction k arbitrary: i ls)
  case 0
  then show ?case by simp
next
  case (Suc k)
  then have i: "i < length cs" by simp
  show ?case
  proof (cases "frag h cs i \<in> set fs")
    case False
    then have "snd (scan_frags (cut_off cs i) fs ls) = None"
      using scan_frags_missing [OF assms(1) i assms(2)] by simp
    then show ?thesis by (cases "scan_frags (cut_off cs i) fs ls") (simp add: cut_off_def)
  next
    case True
    then obtain ls1 where s: "scan_frags (cut_off cs i) fs ls = (ls1, Some (frag h cs i))"
      using scan_frags_frag [OF assms(1) i assms(2)] by blast
    have "i \<noteq> j" using True assms(6) by auto
    then have "collect_frags k fs (concat (take (Suc i) cs)) ls1 = None"
      using Suc.IH [of "Suc i" ls1] Suc.prems by simp
    then show ?thesis using s i by (simp add: cut_off_def frag_fields take_Suc_conv_app_nth)
  qed
qed

text \<open>When every piece is in hand, one more round finds no fragment.\<close>

lemma collect_frags_past_end:
  assumes "legal_cut cs" and "last cs \<noteq> []" and "set fs \<subseteq> frag h cs ` {..<length cs}" and "0 < k"
  shows "collect_frags k fs (concat cs) ls = None"
proof -
  have "\<forall>f \<in> set fs. 8 * unat (pk_FragOffset f) \<noteq> length (concat cs)"
  proof (intro ballI notI)
    fix f assume "f \<in> set fs" and o: "8 * unat (pk_FragOffset f) = length (concat cs)"
    then obtain j where j: "j < length cs" "f = frag h cs j" using assms(3) by fast
    have "cs ! j \<noteq> []"
    proof (cases "Suc j = length cs")
      case True
      then have "cs \<noteq> []" "j = length cs - 1" by auto
      then show ?thesis using assms(2) by (simp add: last_conv_nth)
    next
      case False
      then show ?thesis using j(1) cut_piece(1) [OF assms(1), of j] by simp
    qed
    then have "cut_off cs j < cut_off cs (Suc j)" using j(1) by (simp add: cut_off_Suc)
    also have "\<dots> \<le> length (concat cs)" by (rule cut_off_le)
    finally show False using o frag_offset [OF assms(1) j(1), of h] j(2) by simp
  qed
  then have "snd (scan_frags (length (concat cs)) fs ls) = None" by (rule scan_frags_None)
  then show ?thesis using assms(4)
    by (cases k; cases "scan_frags (length (concat cs)) fs ls") simp_all
qed

lemma collect_frags_add:
  "collect_frags (a + b) fs acc ls = (case collect_frags a fs acc ls of None \<Rightarrow> None
     | Some (acc', ls') \<Rightarrow> collect_frags b fs acc' ls')"
  by (induction a arbitrary: acc ls) (auto split: prod.splits option.splits)

lemma card_frags:
  assumes "legal_cut cs" and "m \<le> length cs"
  shows "card (frag h cs ` {..<m}) = m"
proof -
  have "inj_on (frag h cs) {..<m}"
    using frag_inj [OF assms(1)] assms(2) by (auto intro!: inj_onI)
  then show ?thesis by (simp add: card_image)
qed

lemma collect_partial:
  assumes "legal_cut cs" and "set fs \<subseteq> frag h cs ` {..<length cs}" and "distinct fs"
    and "length fs < length cs"
  shows "(case collect_frags (length fs) fs [] False of None \<Rightarrow> True | Some (_, ls) \<Rightarrow> \<not> ls)"
proof (cases "\<forall>j \<in> {0..<length fs}. frag h cs j \<in> set fs")
  case False
  then obtain j where "j < length fs" "frag h cs j \<notin> set fs" by auto
  then have "collect_frags (length fs) fs (concat (take 0 cs)) False = None"
    using collect_frags_gap [OF assms(1,2), of 0 j "length fs" False] assms(4) by simp
  then show ?thesis by simp
next
  case True
  then have sub: "frag h cs ` {..<length fs} \<subseteq> set fs" by auto
  have "card (frag h cs ` {..<length fs}) = length fs"
    using card_frags [OF assms(1)] assms(4) by simp
  then have eq: "frag h cs ` {..<length fs} = set fs"
    using sub assms(3) by (intro card_subset_eq) (simp_all add: distinct_card)
  have "frag h cs (length cs - 1) \<notin> set fs"
  proof
    assume "frag h cs (length cs - 1) \<in> set fs"
    then obtain j where j: "j < length fs" "frag h cs (length cs - 1) = frag h cs j"
      using eq by (metis imageE lessThan_iff)
    then have "length cs - 1 = j" using frag_inj [OF assms(1) _ _ j(2)] assms(4) by simp
    then show False using j(1) assms(4) by simp
  qed
  then show ?thesis
    using collect_frags_run [OF assms(1,2), of 0 "length fs" False] True assms(4) by auto
qed

lemma collect_complete:
  assumes "legal_cut cs" and "set fs \<subseteq> frag h cs ` {..<length cs}" and "distinct fs"
    and "length fs = length cs"
  shows "collect_frags (length fs) fs [] False = Some (concat cs, True)"
proof -
  have "card (frag h cs ` {..<length cs}) = card (set fs)"
    using card_frags [OF assms(1), of "length cs" h] distinct_card [OF assms(3)] assms(4) by simp
  then have "set fs = frag h cs ` {..<length cs}" using assms(2) by (intro card_subset_eq) simp_all
  then show ?thesis
    using collect_frags_run [OF assms(1,2), of 0 "length fs" False] assms(4,1)
    by (auto simp: legal_cut_def)
qed

lemma collect_duplicate:
  assumes "legal_cut cs" and "last cs \<noteq> []" and "set fs \<subseteq> frag h cs ` {..<length cs}"
    and "\<not> distinct fs"
  shows "collect_frags (length fs) fs [] False = None"
proof (cases "\<forall>j \<in> {0..<min (length fs) (length cs)}. frag h cs j \<in> set fs")
  case False
  then obtain j where "j < length fs" "j < length cs" "frag h cs j \<notin> set fs" by auto
  then show ?thesis using collect_frags_gap [OF assms(1,3), of 0 j "length fs" False] by simp
next
  case True
  have less: "card (set fs) < length fs"
    using assms(4) by (metis card_distinct card_length le_neq_implies_less)
  have "length cs < length fs"
  proof (rule ccontr)
    assume "\<not> length cs < length fs"
    then have "frag h cs ` {..<length fs} \<subseteq> set fs" using True by auto
    then have "card (frag h cs ` {..<length fs}) \<le> card (set fs)" by (rule card_mono [rotated]) simp
    then show False
      using card_frags [OF assms(1), of "length fs" h] \<open>\<not> length cs < length fs\<close> less by simp
  qed
  then obtain k where k: "length fs = length cs + k" "0 < k" by (metis less_imp_add_positive)
  obtain ls where "collect_frags (length cs) fs [] False = Some (concat cs, ls)"
    using collect_frags_run [OF assms(1,3), of 0 "length cs" False] True \<open>length cs < length fs\<close>
    by auto
  then show ?thesis
    using collect_frags_past_end [OF assms(1,2,3) k(2)] by (simp add: k(1) collect_frags_add)
qed

subsection \<open>One packet\<close>

definition buffered :: "fragmap \<Rightarrow> u16 \<Rightarrow> ip_pkt list" where
  "buffered m k = (case m k of None \<Rightarrow> [] | Some l \<Rightarrow> l)"

lemma Process_pkt_fragment:
  assumes "legal_cut cs" and "p \<in> set (frags_from h 0 cs)"
  shows "Process_pkt m (Some p) =
    (let fs = buffered m (ip_Id h) @ [p]; m' = m(ip_Id h \<mapsto> fs)
     in case collect_frags (length fs) fs [] False of
          None \<Rightarrow> (m', Nothing)
        | Some (t, ls) \<Rightarrow> if \<not> ls then (m', Nothing)
            else (m(ip_Id h := None),
              if ip_Protocol h = IPProtocolUDP \<or> ip_Protocol h = IPProtocolTCP
              then Deliver_transport h t else Nothing))"
proof -
  obtain i where "i < length cs" "p = frag h cs i" using assms(2) by (auto simp: set_frags_from)
  then have "pk_hdr p = h" "is_fragment p" using is_fragment_frag [OF assms(1)] by (simp_all add: frag_fields)
  then show ?thesis
    by (simp add: Process_pkt_def buffered_def [symmetric] Let_def split: option.split
        del: collect_frags.simps)
qed

lemma Process_pkt_partial:
  assumes "legal_cut cs" and "set fs \<subseteq> set (frags_from h 0 cs)" and "p \<in> set (frags_from h 0 cs)"
    and "buffered m (ip_Id h) = fs" and "distinct (fs @ [p])" and "Suc (length fs) < length cs"
  shows "Process_pkt m (Some p) = (m(ip_Id h \<mapsto> fs @ [p]), Nothing)"
proof -
  have "case collect_frags (length (fs @ [p])) (fs @ [p]) [] False of None \<Rightarrow> True | Some (_, ls) \<Rightarrow> \<not> ls"
    by (rule collect_partial [OF assms(1), of _ h])
      (use assms in \<open>auto simp: set_frags_from\<close>)
  then show ?thesis
    by (auto simp: Process_pkt_fragment [OF assms(1,3)] assms(4) Let_def split: option.splits)
qed

lemma Process_pkt_final:
  assumes "legal_cut cs" and "set fs \<subseteq> set (frags_from h 0 cs)" and "p \<in> set (frags_from h 0 cs)"
    and "buffered m (ip_Id h) = fs" and "distinct (fs @ [p])" and "Suc (length fs) = length cs"
    and "ip_Protocol h = IPProtocolUDP \<or> ip_Protocol h = IPProtocolTCP"
  shows "Process_pkt m (Some p) = (m(ip_Id h := None), Deliver_transport h (concat cs))"
proof -
  have "collect_frags (length (fs @ [p])) (fs @ [p]) [] False = Some (concat cs, True)"
    by (rule collect_complete [OF assms(1), of _ h])
      (use assms in \<open>auto simp: set_frags_from\<close>)
  then show ?thesis
    using assms(7) by (simp add: Process_pkt_fragment [OF assms(1,3)] assms(4) Let_def)
qed

lemma process_all_fragments:
  assumes "legal_cut cs" and "mset (fs @ ps) = mset (frags_from h 0 cs)" and "ps \<noteq> []"
    and "buffered m (ip_Id h) = fs"
    and "ip_Protocol h = IPProtocolUDP \<or> ip_Protocol h = IPProtocolTCP"
  shows "process_all m ps = (m(ip_Id h := None),
    replicate (length ps - 1) Nothing @ [Deliver_transport h (concat cs)])"
  using assms(2-4)
proof (induction ps arbitrary: fs m)
  case Nil
  then show ?case by simp
next
  case (Cons p ps)
  have len: "length fs + Suc (length ps) = length cs"
    using arg_cong [OF Cons.prems(1), of size] by simp
  have st: "set (fs @ p # ps) = set (frags_from h 0 cs)" by (rule mset_eq_setD) (rule Cons.prems(1))
  have "card (set (frags_from h 0 cs)) = length cs"
    using card_frags [OF assms(1), of "length cs" h] by (simp add: set_frags_from)
  then have d: "distinct (fs @ p # ps)" using st len by (intro card_distinct) simp
  have sub: "set fs \<subseteq> set (frags_from h 0 cs)" "p \<in> set (frags_from h 0 cs)" "distinct (fs @ [p])"
    using st d by auto
  show ?case
  proof (cases "ps = []")
    case True
    have "Process_pkt m (Some p) = (m(ip_Id h := None), Deliver_transport h (concat cs))"
      by (rule Process_pkt_final [OF assms(1) sub(1,2) Cons.prems(3) sub(3) _ assms(5)])
        (use len True in simp)
    note run = process_all_step [OF this process_all.simps(1)]
    have e: "replicate (length [p] - 1) Nothing @ [d] = [d]" for d by simp
    show ?thesis unfolding True e by (rule run)
  next
    case False
    have step: "Process_pkt m (Some p) = (m(ip_Id h \<mapsto> fs @ [p]), Nothing)"
      by (rule Process_pkt_partial [OF assms(1) sub(1,2) Cons.prems(3) sub(3)])
        (use len False in \<open>cases ps; simp\<close>)
    have "buffered (m(ip_Id h \<mapsto> fs @ [p])) (ip_Id h) = fs @ [p]" by (simp add: buffered_def)
    moreover have "mset ((fs @ [p]) @ ps) = mset (frags_from h 0 cs)" using Cons.prems(1) by simp
    ultimately have "process_all (m(ip_Id h \<mapsto> fs @ [p])) ps = ((m(ip_Id h \<mapsto> fs @ [p]))(ip_Id h := None),
        replicate (length ps - 1) Nothing @ [Deliver_transport h (concat cs)])"
      using False by (intro Cons.IH) (simp_all del: fun_upd_apply)
    note run = process_all_step [OF step this]
    have e: "replicate (length (p # ps) - 1) Nothing = Nothing # replicate (length ps - 1) Nothing"
      using False by (cases ps) simp_all
    show ?thesis unfolding e using run by (simp only: append_Cons fun_upd_upd)
  qed
qed

lemma Process_pkt_duplicate:
  assumes "legal_cut cs" and "last cs \<noteq> []" and "set fs \<subseteq> set (frags_from h 0 cs)"
    and "p \<in> set (frags_from h 0 cs)" and "buffered m (ip_Id h) = fs" and "\<not> distinct (fs @ [p])"
  shows "Process_pkt m (Some p) = (m(ip_Id h \<mapsto> fs @ [p]), Nothing)"
proof -
  have "collect_frags (length (fs @ [p])) (fs @ [p]) [] False = None"
    by (rule collect_duplicate [OF assms(1,2), of _ h])
      (use assms in \<open>auto simp: set_frags_from\<close>)
  then show ?thesis
    by (simp add: Process_pkt_fragment [OF assms(1,4)] assms(5) Let_def del: collect_frags.simps)
qed

subsection \<open>Properties\<close>

text \<open>
  C4. Reassembly is correct in every order of arrival: when the fragments of a UDP or TCP datagram
  (legally cut, none lost, none repeated) arrive in any order and nothing is buffered under their
  identification, all packets but the last are swallowed, the last one hands the original payload
  to \<open>Handle_pkt\<close>, and the buffer is as it was before.
\<close>

theorem reassembly_any_order:
  assumes "legal_cut cs" and "mset arrivals = mset (frags_from h 0 cs)" and "m (ip_Id h) = None"
    and "ip_Protocol h = IPProtocolUDP \<or> ip_Protocol h = IPProtocolTCP"
  shows "process_all m arrivals =
    (m, replicate (length cs - 1) Nothing @ [Deliver_transport h (concat cs)])"
proof -
  have "length arrivals = length cs" using arg_cong [OF assms(2), of size] by simp
  moreover from this have "arrivals \<noteq> []" using assms(1) by (auto simp: legal_cut_def)
  moreover have "m(ip_Id h := None) = m" using assms(3) by auto
  ultimately show ?thesis
    using process_all_fragments [OF assms(1), of "[]" arrivals h m] assms by (simp add: buffered_def)
qed

definition ex_hdr :: ipv4_layer where
  "ex_hdr = \<lparr>ip_TTL = 64, ip_SrcIP = [9, 9, 9, 9], ip_DstIP = [10, 0, 0, 1], ip_Protocol = 17, ip_Id = 7\<rparr>"

definition ex_cut :: "u8 list list" where
  "ex_cut = [[1, 2, 3, 4, 5, 6, 7, 8], [9, 10]]"

lemma ex_cut_legal: "legal_cut ex_cut"
  by (simp add: ex_cut_def legal_cut_def) (simp add: eval_nat_numeral)

lemma reassembly_any_order_witness:
  "process_all Map.empty (rev (frags_from ex_hdr 0 ex_cut)) =
     (Map.empty, [Nothing, Deliver_transport ex_hdr [1, 2, 3, 4, 5, 6, 7, 8, 9, 10]])"
  using reassembly_any_order [OF ex_cut_legal, of "rev (frags_from ex_hdr 0 ex_cut)" ex_hdr Map.empty]
  by (simp add: ex_hdr_def) (simp add: ex_cut_def)

text \<open>
  C33. One repeated fragment blocks a datagram for good: once the buffer holds a fragment twice
  (IP may duplicate packets), no further fragments of the datagram make it complete; they are only
  added to the buffer. The loop of the code runs once per buffered fragment and gives up in the
  round after the last piece.
\<close>

theorem duplicate_fragment_blocks:
  assumes "legal_cut cs" and "last cs \<noteq> []" and "buffered m (ip_Id h) = fs"
    and "set fs \<subseteq> set (frags_from h 0 cs)" and "\<not> distinct fs"
    and "set arrivals \<subseteq> set (frags_from h 0 cs)"
  shows "buffered (fst (process_all m arrivals)) (ip_Id h) = fs @ arrivals \<and>
    snd (process_all m arrivals) = replicate (length arrivals) Nothing"
  using assms(3-6)
proof (induction arrivals arbitrary: fs m)
  case Nil
  then show ?case by simp
next
  case (Cons p ps)
  have "\<not> distinct (fs @ [p])" using Cons.prems(3) by simp
  then have step: "Process_pkt m (Some p) = (m(ip_Id h \<mapsto> fs @ [p]), Nothing)"
    using Process_pkt_duplicate [OF assms(1,2) Cons.prems(2) _ Cons.prems(1)] Cons.prems(4) by simp
  obtain m2 ds where r: "process_all (m(ip_Id h \<mapsto> fs @ [p])) ps = (m2, ds)"
    by (cases "process_all (m(ip_Id h \<mapsto> fs @ [p])) ps") blast
  have "buffered (m(ip_Id h \<mapsto> fs @ [p])) (ip_Id h) = fs @ [p]" by (simp add: buffered_def)
  moreover have "set (fs @ [p]) \<subseteq> set (frags_from h 0 cs)" "\<not> distinct (fs @ [p])"
    "set ps \<subseteq> set (frags_from h 0 cs)"
    using Cons.prems(2-4) by simp_all
  ultimately have "buffered (fst (process_all (m(ip_Id h \<mapsto> fs @ [p])) ps)) (ip_Id h) = (fs @ [p]) @ ps \<and>
      snd (process_all (m(ip_Id h \<mapsto> fs @ [p])) ps) = replicate (length ps) Nothing"
    by (rule Cons.IH)
  then show ?case unfolding process_all_step [OF step r] r by simp
qed

definition ex_dup :: "ip_pkt list" where
  "ex_dup = [hd (frags_from ex_hdr 0 ex_cut), hd (frags_from ex_hdr 0 ex_cut)]"

lemma ex_dup_ok: "set ex_dup \<subseteq> set (frags_from ex_hdr 0 ex_cut)" "\<not> distinct ex_dup"
  "last ex_cut \<noteq> []" "length ex_cut = Suc (Suc 0)"
proof -
  have "frags_from ex_hdr 0 ex_cut \<noteq> []" by (simp add: ex_cut_def)
  then show "set ex_dup \<subseteq> set (frags_from ex_hdr 0 ex_cut)" by (simp add: ex_dup_def)
qed (simp_all add: ex_dup_def ex_cut_def)

lemma duplicate_fragment_blocks_witness:
  "snd (process_all [7 \<mapsto> ex_dup] (frags_from ex_hdr 0 ex_cut)) = [Nothing, Nothing]"
proof -
  have "buffered [7 \<mapsto> ex_dup] (ip_Id ex_hdr) = ex_dup" by (simp add: buffered_def ex_hdr_def)
  from duplicate_fragment_blocks [OF ex_cut_legal ex_dup_ok(3) this ex_dup_ok(1,2) subset_refl]
  have "snd (process_all [7 \<mapsto> ex_dup] (frags_from ex_hdr 0 ex_cut)) =
      replicate (length (frags_from ex_hdr 0 ex_cut)) Nothing" by (rule conjunct2)
  then show ?thesis by (simp only: length_frags_from ex_dup_ok(4) replicate.simps)
qed

end
