(* ===== verification/Lcg.thy ===== *)
theory Lcg
  imports GoNet "HOL-Library.Log_Nat" "HOL-Library.Signed_Division" "HOL-Library.Multiset"
begin

section \<open>The address generator (generator/lcg.go)\<close>

text \<open>
  A linear congruential generator enumerates the hosts of a network in pseudo-random order. The
  values of \<open>rand.Intn\<close> are arguments of \<open>lcg_Init\<close>; every operation is on 64-bit integers, with
  the wrap-around of Go (for a /0 scan the product does overflow). The lemmas show the full period
  of the generator (Hull and Dobell, for a power-of-two modulus) and that the loop of \<open>Next\<close> ends.
\<close>

record lcg_state =
  lcg_value :: int
  lcg_offset :: int
  lcg_multiplier :: int
  lcg_modulus :: int
  lcg_max :: int
  lcg_found :: int

definition lcg_Init :: "int \<Rightarrow> int \<Rightarrow> int \<Rightarrow> lcg_state outcome" where
  "lcg_Init stop r1 r2 =
     (if stop \<le> 0 then Panic NegativeArgument
      else Ret \<lparr>lcg_value = r1,
                lcg_offset = int64 (int64 (int64 (r2 + stop) * 2) + 1),
                lcg_multiplier = int64 (int64 (4 * (stop sdiv 4)) + 1),
                lcg_modulus = 2 ^ ceillog2 (nat stop),
                lcg_max = stop,
                lcg_found = 0\<rparr>)"

definition lcg_advance :: "lcg_state \<Rightarrow> lcg_state" where
  "lcg_advance s = s\<lparr>lcg_value :=
     int64 (int64 (lcg_value s * lcg_multiplier s) + lcg_offset s) smod lcg_modulus s\<rparr>"

partial_function (option) lcg_skip :: "lcg_state \<Rightarrow> lcg_state option" where
  "lcg_skip s = (if lcg_max s \<le> lcg_value s then lcg_skip (lcg_advance s) else Some s)"

definition lcg_Next :: "lcg_state \<Rightarrow> (int \<times> lcg_state) option" where
  "lcg_Next s = (case lcg_skip s of None \<Rightarrow> None
     | Some s1 \<Rightarrow> Some (lcg_value s1, lcg_advance (s1\<lparr>lcg_found := lcg_found s1 + 1\<rparr>)))"

definition lcg_Has_next :: "lcg_state \<Rightarrow> bool" where
  "lcg_Has_next s \<longleftrightarrow> lcg_found s < lcg_max s"

definition Ip42uint32 :: "ip \<Rightarrow> u32 outcome" where
  "Ip42uint32 a = be_uint32 (to4 a)"

definition Uint322ip :: "u32 \<Rightarrow> ip" where
  "Uint322ip v = be_put_uint32 v"

lemma Ip42uint32_Uint322ip [simp]: "Ip42uint32 (Uint322ip v) = Ret v"
  by (simp add: Ip42uint32_def Uint322ip_def)

lemma Uint322ip_inj [simp]: "Uint322ip v = Uint322ip w \<longleftrightarrow> v = w"
  by (simp add: Uint322ip_def)

subsection \<open>The arithmetic of the full period\<close>

text \<open>The geometric sums that the iterates of an affine map produce.\<close>

fun geo :: "int \<Rightarrow> nat \<Rightarrow> int" where
  "geo a 0 = 0"
| "geo a (Suc n) = 1 + a * geo a n"

lemma geo_add: "geo a (m + n) = geo a m + a ^ m * geo a n"
  by (induction m) (simp_all add: algebra_simps)

lemma geo_double: "geo a (2 * n) = (1 + a ^ n) * geo a n"
  using geo_add [of a n n] by (simp add: mult_2 distrib_right)

lemma power_minus_one_geo: "a ^ n - 1 = (a - 1) * geo a n"
proof (induction n)
  case 0
  show ?case by simp
next
  case (Suc n)
  have "a ^ Suc n - 1 = a * (a ^ n - 1) + (a - 1)" by (simp add: algebra_simps)
  also have "\<dots> = (a - 1) * geo a (Suc n)" unfolding Suc.IH by (simp add: algebra_simps)
  finally show ?case .
qed

lemma geo_parity: "odd a \<Longrightarrow> even (geo a n) \<longleftrightarrow> even n"
  by (induction n) auto

lemma one_plus_power_mod4:
  assumes "a mod 4 = (1 :: int)" shows "\<exists>q. 1 + a ^ n = 2 * q \<and> odd q"
proof -
  have "a ^ n mod 4 = 1"
    using assms by (simp flip: power_mod)
  then have "(1 + a ^ n) mod 4 = 2" by presburger
  then have "1 + a ^ n = 2 * ((1 + a ^ n) div 2) \<and> odd ((1 + a ^ n) div 2)" by presburger
  then show ?thesis by blast
qed

text \<open>The power of two in \<open>1 + a + \<dots> + a\<^sup>n\<^sup>-\<^sup>1\<close> is that in \<open>n\<close>.\<close>

lemma pow2_dvd_geo:
  assumes "a mod 4 = 1"
  shows "2 ^ k dvd geo a n \<longleftrightarrow> (2 :: nat) ^ k dvd n"
proof (induction k arbitrary: n)
  case 0
  show ?case by simp
next
  case (Suc k)
  have "odd a" using assms by presburger
  show ?case
  proof (cases "even n")
    case False
    with geo_parity [OF \<open>odd a\<close>] have "odd (geo a n)" by simp
    with False show ?thesis by (metis dvd_trans dvd_triv_left power_Suc)
  next
    case True
    then obtain m where m: "n = 2 * m" by blast
    obtain q where q: "1 + a ^ m = 2 * q" "odd q" using one_plus_power_mod4 [OF assms] by blast
    have "2 ^ Suc k dvd geo a n \<longleftrightarrow> 2 * 2 ^ k dvd 2 * (q * geo a m)"
      by (simp add: m geo_double q mult.assoc)
    also have "\<dots> \<longleftrightarrow> 2 ^ k dvd q * geo a m" by simp
    also have "\<dots> \<longleftrightarrow> 2 ^ k dvd geo a m"
      using q(2) by (intro coprime_dvd_mult_right_iff) simp
    also have "\<dots> \<longleftrightarrow> (2 :: nat) ^ Suc k dvd n" by (simp add: Suc.IH m)
    finally show ?thesis .
  qed
qed

definition affine :: "int \<Rightarrow> int \<Rightarrow> int \<Rightarrow> int" where
  "affine a c x = a * x + c"

lemma affine_iter: "(affine a c ^^ n) x = a ^ n * x + c * geo a n"
  by (induction n) (simp_all add: affine_def algebra_simps)

text \<open>Hull and Dobell for the modulus \<open>2\<^sup>k\<close>: the first \<open>2\<^sup>k\<close> iterates are distinct.\<close>

lemma full_period:
  assumes a: "a mod 4 = 1" and c: "odd c"
    and eq: "(affine a c ^^ i) x mod 2 ^ k = (affine a c ^^ (i + d)) x mod 2 ^ k"
  shows "(2 :: nat) ^ k dvd d"
proof -
  have "odd a" using a by presburger
  have "(affine a c ^^ (i + d)) x - (affine a c ^^ i) x = a ^ i * (geo a d * ((a - 1) * x + c))"
  proof -
    have "(affine a c ^^ (i + d)) x - (affine a c ^^ i) x
      = a ^ i * ((a ^ d - 1) * x) + c * (geo a (i + d) - geo a i)"
      by (simp add: affine_iter power_add algebra_simps)
    also have "\<dots> = a ^ i * ((a - 1) * geo a d * x) + c * (a ^ i * geo a d)"
      by (simp add: power_minus_one_geo geo_add)
    finally show ?thesis by (simp add: algebra_simps)
  qed
  moreover have "2 ^ k dvd (affine a c ^^ (i + d)) x - (affine a c ^^ i) x"
    using eq by (metis mod_eq_dvd_iff)
  ultimately have "2 ^ k dvd a ^ i * (geo a d * ((a - 1) * x + c))" by simp
  moreover have "coprime (2 ^ k) (a ^ i)" using \<open>odd a\<close> by simp
  ultimately have "2 ^ k dvd geo a d * ((a - 1) * x + c)" by (simp add: coprime_dvd_mult_right_iff)
  moreover have "odd ((a - 1) * x + c)" using \<open>odd a\<close> c by simp
  then have "coprime (2 ^ k) ((a - 1) * x + c)" by simp
  ultimately have "2 ^ k dvd geo a d" by (simp add: coprime_dvd_mult_left_iff)
  then show ?thesis by (simp add: pow2_dvd_geo [OF a])
qed

subsection \<open>The iterates of the code\<close>

lemma smod_mod: "(a smod b) mod b = a mod (b :: int)"
  by (metis mod_mult_self3 sdiv_mult_smod_eq)

lemma smod_nonneg: "0 \<le> a \<Longrightarrow> 0 < b \<Longrightarrow> a smod b = a mod (b :: int)"
  by (cases "a = 0") (simp_all add: signed_modulo_int_def)

lemma smod_less: "0 < b \<Longrightarrow> a smod b < (b :: int)"
proof -
  assume b: "0 < b"
  show ?thesis
  proof (cases "a < 0")
    case True
    have "0 \<le> - a mod b" using b by (rule pos_mod_sign)
    moreover have "a smod b = - (- a mod b)" using True b by (simp add: signed_modulo_int_def)
    ultimately show ?thesis using b by linarith
  next
    case False
    then show ?thesis using b by (simp add: smod_nonneg)
  qed
qed

lemma lcg_advance_frame [simp]:
  "lcg_offset (lcg_advance s) = lcg_offset s" "lcg_multiplier (lcg_advance s) = lcg_multiplier s"
  "lcg_modulus (lcg_advance s) = lcg_modulus s" "lcg_max (lcg_advance s) = lcg_max s"
  "lcg_found (lcg_advance s) = lcg_found s"
  by (simp_all add: lcg_advance_def)

lemma lcg_iter_frame [simp]:
  "lcg_offset ((lcg_advance ^^ n) s) = lcg_offset s"
  "lcg_multiplier ((lcg_advance ^^ n) s) = lcg_multiplier s"
  "lcg_modulus ((lcg_advance ^^ n) s) = lcg_modulus s" "lcg_max ((lcg_advance ^^ n) s) = lcg_max s"
  by (induction n) simp_all

text \<open>Modulo the modulus the code computes the affine map, whatever overflows.\<close>

lemma lcg_advance_mod:
  assumes "lcg_modulus s = 2 ^ k" and "k \<le> 64"
  shows "lcg_value (lcg_advance s) mod 2 ^ k =
    affine (lcg_multiplier s) (lcg_offset s) (lcg_value s) mod 2 ^ k"
proof -
  have "lcg_value (lcg_advance s) mod 2 ^ k =
      (int64 (lcg_value s * lcg_multiplier s) + lcg_offset s) mod 2 ^ k"
    using assms by (simp add: lcg_advance_def smod_mod int64_mod)
  also have "\<dots> = (lcg_value s * lcg_multiplier s + lcg_offset s) mod 2 ^ k"
    by (rule mod_add_cong) (simp_all add: int64_mod assms)
  finally show ?thesis by (simp add: affine_def mult.commute)
qed

lemma lcg_iter_mod:
  assumes "lcg_modulus s = 2 ^ k" and "k \<le> 64"
  shows "lcg_value ((lcg_advance ^^ n) s) mod 2 ^ k =
    (affine (lcg_multiplier s) (lcg_offset s) ^^ n) (lcg_value s) mod 2 ^ k"
proof (induction n)
  case 0
  show ?case by simp
next
  case (Suc n)
  let ?f = "affine (lcg_multiplier s) (lcg_offset s)" and ?t = "(lcg_advance ^^ n) s"
  have "lcg_value (lcg_advance ?t) mod 2 ^ k = ?f (lcg_value ?t) mod 2 ^ k"
    using lcg_advance_mod [of ?t k] assms by simp
  also have "\<dots> = ?f ((?f ^^ n) (lcg_value s)) mod 2 ^ k"
    unfolding affine_def
    by (intro mod_add_cong mod_mult_cong refl) (use Suc.IH in \<open>simp add: affine_def\<close>)
  finally show ?case by simp
qed

text \<open>What \<open>Init\<close> establishes and every step keeps.\<close>

definition lcg_wf :: "nat \<Rightarrow> lcg_state \<Rightarrow> bool" where
  "lcg_wf k s \<longleftrightarrow> k \<le> 32 \<and> lcg_modulus s = 2 ^ k \<and> lcg_multiplier s mod 4 = 1 \<and>
     odd (lcg_offset s) \<and> 0 < lcg_max s \<and> lcg_max s \<le> 2 ^ k"

lemma lcg_wf_advance [simp]: "lcg_wf k (lcg_advance s) \<longleftrightarrow> lcg_wf k s"
  by (simp add: lcg_wf_def)

lemma lcg_wf_iter [simp]: "lcg_wf k ((lcg_advance ^^ n) s) \<longleftrightarrow> lcg_wf k s"
  by (simp add: lcg_wf_def)

lemma lcg_residues_distinct:
  assumes "lcg_wf k s"
  shows "inj_on (\<lambda>n. lcg_value ((lcg_advance ^^ n) s) mod 2 ^ k) {..<2 ^ k}"
proof (rule linorder_inj_onI')
  fix i j assume ij: "i \<in> {..<(2 :: nat) ^ k}" "j \<in> {..<(2 :: nat) ^ k}" "i < j"
  show "lcg_value ((lcg_advance ^^ i) s) mod 2 ^ k \<noteq> lcg_value ((lcg_advance ^^ j) s) mod 2 ^ k"
  proof
    assume "lcg_value ((lcg_advance ^^ i) s) mod 2 ^ k = lcg_value ((lcg_advance ^^ j) s) mod 2 ^ k"
    then have "(2 :: nat) ^ k dvd (j - i)"
      using assms ij(3) by (intro full_period [of "lcg_multiplier s" "lcg_offset s" i "lcg_value s"])
        (auto simp: lcg_wf_def lcg_iter_mod)
    then show False using ij by (auto dest: dvd_imp_le)
  qed
qed

lemma lcg_residues_all:
  assumes "lcg_wf k s"
  shows "(\<lambda>n. lcg_value ((lcg_advance ^^ n) s) mod 2 ^ k) ` {..<2 ^ k} = {0..<2 ^ k}"
proof (rule card_subset_eq)
  show "(\<lambda>n. lcg_value ((lcg_advance ^^ n) s) mod 2 ^ k) ` {..<2 ^ k} \<subseteq> {0..<2 ^ k}" by auto
  show "card ((\<lambda>n. lcg_value ((lcg_advance ^^ n) s) mod 2 ^ k) ` {..<2 ^ k}) = card {0..<(2 :: int) ^ k}"
    using lcg_residues_distinct [OF assms] by (simp add: card_image nat_power_eq)
qed simp

lemma lcg_Init_wf:
  assumes "lcg_Init stop r1 r2 = Ret s" and "stop \<le> 2 ^ 32"
    and "0 \<le> r1" "r1 < stop" "0 \<le> r2" "r2 < stop"
  shows "lcg_wf (ceillog2 (nat stop)) s" and "lcg_value s = r1" and "lcg_max s = stop"
    and "lcg_found s = 0" and "lcg_multiplier s = 4 * (stop div 4) + 1"
    and "lcg_offset s = 2 * (r2 + stop) + 1"
proof -
  from assms(1) have pos: "0 < stop" by (simp add: lcg_Init_def split: if_splits)
  have sd: "stop sdiv 4 = stop div 4" using pos by (simp add: signed_divide_int_def)
  have b: "0 \<le> 4 * (stop div 4)" "4 * (stop div 4) \<le> stop" using pos by presburger+
  have off: "int64 (int64 (int64 (r2 + stop) * 2) + 1) = 2 * (r2 + stop) + 1"
    using assms pos by (simp add: int64_id)
  have mul: "int64 (int64 (4 * (stop sdiv 4)) + 1) = 4 * (stop div 4) + 1"
    using assms(2) b by (simp add: sd int64_id)
  have s: "s = \<lparr>lcg_value = r1, lcg_offset = 2 * (r2 + stop) + 1,
      lcg_multiplier = 4 * (stop div 4) + 1, lcg_modulus = 2 ^ ceillog2 (nat stop),
      lcg_max = stop, lcg_found = 0\<rparr>"
    using assms(1) pos by (simp add: lcg_Init_def off mul)
  have "nat stop \<le> 2 ^ 32" using assms(2) pos by (simp add: nat_le_iff)
  then have k: "ceillog2 (nat stop) \<le> 32" using pos by (subst ceillog2_le_iff) simp_all
  have "int (nat stop) \<le> int (2 ^ ceillog2 (nat stop))"
    using le_two_power_ceillog2 [of "nat stop"] by (simp only: of_nat_le_iff)
  then have "stop \<le> 2 ^ ceillog2 (nat stop)" using pos by simp
  moreover have "(4 * (stop div 4) + 1) mod 4 = 1" by presburger
  ultimately show "lcg_wf (ceillog2 (nat stop)) s" using k pos by (simp add: lcg_wf_def s)
  show "lcg_value s = r1" "lcg_max s = stop" "lcg_found s = 0"
    "lcg_multiplier s = 4 * (stop div 4) + 1" "lcg_offset s = 2 * (r2 + stop) + 1"
    by (simp_all add: s)
qed

subsection \<open>Taking values from the generator\<close>

fun lcg_take :: "nat \<Rightarrow> lcg_state \<Rightarrow> (int list \<times> lcg_state) option" where
  "lcg_take 0 s = Some ([], s)"
| "lcg_take (Suc n) s = (case lcg_Next s of None \<Rightarrow> None
     | Some (v, s1) \<Rightarrow> map_option (\<lambda>(vs, s2). (v # vs, s2)) (lcg_take n s1))"

definition orbit :: "nat \<Rightarrow> lcg_state \<Rightarrow> int list" where
  "orbit j s = map (\<lambda>i. lcg_value ((lcg_advance ^^ i) s)) [0..<j]"

lemma length_orbit [simp]: "length (orbit j s) = j"
  by (simp add: orbit_def)

lemma orbit_Suc: "orbit (Suc j) s = lcg_value s # orbit j (lcg_advance s)"
  by (simp add: orbit_def upt_conv_Cons map_Suc_upt [symmetric] funpow_swap1 del: upt_Suc)

lemma lcg_advance_found: "lcg_advance (s\<lparr>lcg_found := x\<rparr>) = (lcg_advance s)\<lparr>lcg_found := x\<rparr>"
  by (simp add: lcg_advance_def)

lemma lcg_iter_found: "(lcg_advance ^^ n) (s\<lparr>lcg_found := x\<rparr>) = ((lcg_advance ^^ n) s)\<lparr>lcg_found := x\<rparr>"
  by (induction n) (simp_all add: lcg_advance_found)

lemma orbit_found [simp]: "orbit j (s\<lparr>lcg_found := x\<rparr>) = orbit j s"
  by (simp add: orbit_def lcg_iter_found)

lemma lcg_skip_step: "lcg_max s \<le> lcg_value s \<Longrightarrow> lcg_skip s = lcg_skip (lcg_advance s)"
  by (subst lcg_skip.simps) simp

lemma lcg_skip_stop: "lcg_value s < lcg_max s \<Longrightarrow> lcg_skip s = Some s"
  by (subst lcg_skip.simps) simp

lemma lcg_Next_stop:
  "lcg_value s < lcg_max s \<Longrightarrow>
     lcg_Next s = Some (lcg_value s, (lcg_advance s)\<lparr>lcg_found := lcg_found s + 1\<rparr>)"
  by (simp add: lcg_Next_def lcg_skip_stop lcg_advance_found)

lemma lcg_Next_step: "lcg_max s \<le> lcg_value s \<Longrightarrow> lcg_Next s = lcg_Next (lcg_advance s)"
  by (simp add: lcg_Next_def lcg_skip_step [of s])

text \<open>
  Calling \<open>Next\<close> as often as the first \<open>j\<close> iterates hold values below \<open>max\<close> returns these values,
  in order: the loop of \<open>Next\<close> ends each time.
\<close>

lemma lcg_take_orbit:
  "\<exists>s'. lcg_take (length (filter (\<lambda>v. v < lcg_max s) (orbit j s))) s =
     Some (filter (\<lambda>v. v < lcg_max s) (orbit j s), s')
   \<and> lcg_found s' = lcg_found s + int (length (filter (\<lambda>v. v < lcg_max s) (orbit j s)))
   \<and> lcg_max s' = lcg_max s"
proof (induction j arbitrary: s)
  case 0
  show ?case by (simp add: orbit_def)
next
  case (Suc j)
  show ?case
  proof (cases "lcg_value s < lcg_max s")
    case True
    let ?s = "(lcg_advance s)\<lparr>lcg_found := lcg_found s + 1\<rparr>"
    show ?thesis using Suc.IH [of ?s] True by (auto simp: orbit_Suc lcg_Next_stop)
  next
    case False
    define f where "f = filter (\<lambda>v. v < lcg_max s) (orbit j (lcg_advance s))"
    have "lcg_take (length f) s = lcg_take (length f) (lcg_advance s)" if "f \<noteq> []"
      using that False by (cases "length f") (simp_all add: lcg_Next_step [of s])
    moreover have "\<exists>s'. lcg_take (length f) (lcg_advance s) = Some (f, s')
        \<and> lcg_found s' = lcg_found s + int (length f) \<and> lcg_max s' = lcg_max s"
      using Suc.IH [of "lcg_advance s"] by (simp add: f_def)
    ultimately have "\<exists>s'. lcg_take (length f) s = Some (f, s')
        \<and> lcg_found s' = lcg_found s + int (length f) \<and> lcg_max s' = lcg_max s"
      by (cases "f = []") auto
    then show ?thesis using False by (simp add: orbit_Suc f_def)
  qed
qed

text \<open>Up to \<open>2\<^sup>3\<^sup>1\<close> values nothing overflows and every value is in range.\<close>

definition lcg_small :: "lcg_state \<Rightarrow> bool" where
  "lcg_small s \<longleftrightarrow> 0 \<le> lcg_multiplier s \<and> lcg_multiplier s \<le> 2 ^ 31 + 1 \<and>
     0 \<le> lcg_offset s \<and> lcg_offset s \<le> 2 ^ 34 \<and> lcg_modulus s \<le> 2 ^ 31"

lemma lcg_small_advance [simp]: "lcg_small (lcg_advance s) \<longleftrightarrow> lcg_small s"
  by (simp add: lcg_small_def)

lemma lcg_advance_range:
  assumes "lcg_wf k s" and "lcg_small s" and "0 \<le> lcg_value s" and "lcg_value s < 2 ^ k"
  shows "0 \<le> lcg_value (lcg_advance s)" and "lcg_value (lcg_advance s) < 2 ^ k"
proof -
  let ?v = "lcg_value s" and ?a = "lcg_multiplier s" and ?c = "lcg_offset s"
  have m: "lcg_modulus s = 2 ^ k" "(2 :: int) ^ k \<le> 2 ^ 31"
    using assms(1,2) by (auto simp: lcg_wf_def lcg_small_def)
  have nn: "0 \<le> ?v * ?a" using assms by (simp add: lcg_small_def)
  have "?v * ?a \<le> 2 ^ 31 * (2 ^ 31 + 1)"
    by (rule mult_mono) (use assms m in \<open>auto simp: lcg_small_def\<close>)
  then have "int64 (?v * ?a) = ?v * ?a" using nn by (intro int64_id) simp_all
  moreover have "int64 (?v * ?a + ?c) = ?v * ?a + ?c"
    using assms(2) nn \<open>?v * ?a \<le> 2 ^ 31 * (2 ^ 31 + 1)\<close>
    by (intro int64_id) (simp_all add: lcg_small_def)
  ultimately have "lcg_value (lcg_advance s) = (?v * ?a + ?c) mod 2 ^ k"
    using nn assms(2) by (simp add: lcg_advance_def smod_nonneg m lcg_small_def)
  then show "0 \<le> lcg_value (lcg_advance s)" and "lcg_value (lcg_advance s) < 2 ^ k" by simp_all
qed

lemma lcg_iter_range:
  assumes "lcg_wf k s" and "lcg_small s" and "0 \<le> lcg_value s" and "lcg_value s < 2 ^ k"
  shows "0 \<le> lcg_value ((lcg_advance ^^ n) s) \<and> lcg_value ((lcg_advance ^^ n) s) < 2 ^ k"
proof (induction n)
  case 0
  show ?case using assms by simp
next
  case (Suc n)
  have "lcg_small ((lcg_advance ^^ n) s)" using assms(2) by (induction n) simp_all
  then show ?case using Suc assms(1) lcg_advance_range [of k "(lcg_advance ^^ n) s"] by simp
qed

lemma orbit_enumerates:
  assumes "lcg_wf k s" and "lcg_small s" and "0 \<le> lcg_value s" and "lcg_value s < 2 ^ k"
  shows "distinct (orbit (2 ^ k) s)" and "set (orbit (2 ^ k) s) = {0..<2 ^ k}"
proof -
  have eq: "lcg_value ((lcg_advance ^^ n) s) mod 2 ^ k = lcg_value ((lcg_advance ^^ n) s)" for n
    using lcg_iter_range [OF assms, of n] by simp
  show "distinct (orbit (2 ^ k) s)"
    using lcg_residues_distinct [OF assms(1)]
    by (simp add: orbit_def distinct_map eq atLeast0LessThan)
  show "set (orbit (2 ^ k) s) = {0..<2 ^ k}"
    using lcg_residues_all [OF assms(1)] by (simp add: orbit_def eq atLeast0LessThan)
qed

lemma lcg_take_enumerates:
  assumes "lcg_wf k s" and "lcg_small s" and "0 \<le> lcg_value s" and "lcg_value s < 2 ^ k"
  shows "\<exists>vs s'. lcg_take (nat (lcg_max s)) s = Some (vs, s') \<and> distinct vs \<and>
    set vs = {0..<lcg_max s} \<and> lcg_found s' = lcg_found s + lcg_max s \<and> lcg_max s' = lcg_max s"
proof -
  let ?vs = "filter (\<lambda>v. v < lcg_max s) (orbit (2 ^ k) s)"
  have d: "distinct ?vs" using orbit_enumerates(1) [OF assms] by simp
  have st: "set ?vs = {0..<lcg_max s}"
    using orbit_enumerates(2) [OF assms] assms(1) by (auto simp: lcg_wf_def)
  have "card {0..<lcg_max s} = length ?vs"
    using distinct_card [OF d] by (simp only: st)
  then have "length ?vs = nat (lcg_max s)" by simp
  then show ?thesis
    using lcg_take_orbit [of s "2 ^ k"] d st assms(1) by (fastforce simp: lcg_wf_def)
qed

text \<open>
  A power-of-two range up to \<open>2\<^sup>3\<^sup>2\<close>: the residues of the values enumerate the range, also where
  the product of a step overflows and the values turn negative.
\<close>

lemma lcg_take_full:
  assumes "lcg_wf k s" and "lcg_max s = 2 ^ k" and "lcg_value s < 2 ^ k"
  shows "\<exists>s'. lcg_take (2 ^ k) s = Some (orbit (2 ^ k) s, s') \<and> lcg_found s' = lcg_found s + 2 ^ k"
proof -
  have "lcg_value ((lcg_advance ^^ n) s) < 2 ^ k" for n
    using assms by (cases n) (simp_all add: lcg_advance_def smod_less lcg_wf_def)
  then have f: "filter (\<lambda>v. v < lcg_max s) (orbit (2 ^ k) s) = orbit (2 ^ k) s"
    by (simp add: filter_id_conv orbit_def assms(2))
  show ?thesis using lcg_take_orbit [of s "2 ^ k"] by (auto simp: f)
qed

lemma lcg_take_full_residues:
  assumes "lcg_wf k s"
  shows "distinct (map (\<lambda>v. v mod 2 ^ k) (orbit (2 ^ k) s))"
    and "set (map (\<lambda>v. v mod 2 ^ k) (orbit (2 ^ k) s)) = {0..<2 ^ k}"
  using lcg_residues_distinct [OF assms] lcg_residues_all [OF assms]
  by (simp_all add: orbit_def distinct_map o_def atLeast0LessThan image_image)

subsection \<open>Properties\<close>

text \<open>
  C24. The generator is a permutation: for every bound from 1 to \<open>2\<^sup>3\<^sup>1\<close>, a power of two or not, and
  whatever the random seed and offset, \<open>Next\<close> returns each of the values \<open>0, \<dots>, stop - 1\<close> exactly
  once, every call returns (its loop ends), and after the last value \<open>Has_next\<close> is false.
\<close>

theorem lcg_enumerates:
  assumes "lcg_Init stop r1 r2 = Ret s" and "stop \<le> 2 ^ 31"
    and "0 \<le> r1" "r1 < stop" "0 \<le> r2" "r2 < stop"
  shows "\<exists>vs s'. lcg_take (nat stop) s = Some (vs, s') \<and> distinct vs \<and> set vs = {0..<stop} \<and>
    \<not> lcg_Has_next s'"
proof -
  from assms(2) have "stop \<le> 2 ^ 32" by simp
  note i = lcg_Init_wf [OF assms(1) this assms(3-6)]
  have pos: "0 < stop" using assms(3,4) by simp
  have "nat stop \<le> 2 ^ 31" using assms(2) pos by (simp add: nat_le_iff)
  then have k: "ceillog2 (nat stop) \<le> 31" using pos by (subst ceillog2_le_iff) simp_all
  have "(2 :: int) ^ ceillog2 (nat stop) \<le> 2 ^ 31" by (rule power_increasing [OF k]) simp
  then have "lcg_small s" using i(1,5,6) assms(2-6) by (simp add: lcg_small_def lcg_wf_def)
  moreover have "lcg_value s < 2 ^ ceillog2 (nat stop)"
    using i(1-3) assms(4) by (simp add: lcg_wf_def)
  ultimately show ?thesis
    using lcg_take_enumerates [OF i(1)] i(2-4) assms(3) by (fastforce simp: lcg_Has_next_def)
qed

lemma lcg_enumerates_witness:
  "\<exists>s vs s'. lcg_Init 10 3 4 = Ret s \<and> lcg_take 10 s = Some (vs, s') \<and> distinct vs \<and>
     set vs = {0..<10} \<and> \<not> lcg_Has_next s'"
proof -
  obtain s where s: "lcg_Init 10 3 4 = Ret s" by (simp add: lcg_Init_def)
  show ?thesis using lcg_enumerates [OF s] s by simp
qed

end
