(* ===== verification/Targets.thy ===== *)
theory Targets
  imports Lcg Config
begin

section \<open>Choosing the addresses to scan (base.go, udp_scanner.go, tcp_scanner.go)\<close>

text \<open>
  The command line names a single address, a network in CIDR notation or a file. A network is
  enumerated by the generator of \<open>Lcg\<close>; the scanners read the addresses from the channel
  \<open>Ip_chan\<close>, here the list of the addresses in the order in which they are put in.
\<close>

subsection \<open>The argument\<close>

text \<open>\<open>IPMask.Size\<close>: the number of leading ones of a canonical mask, and zero for another one.\<close>

definition mask_byte_ones :: "u8 \<Rightarrow> nat option" where
  "mask_byte_ones v = find (\<lambda>n. v = NOT (drop_bit n 255)) [0..<8]"

fun simple_mask_length :: "u8 list \<Rightarrow> nat option" where
  "simple_mask_length [] = Some 0"
| "simple_mask_length (v # m) =
     (if v = 255 then map_option (\<lambda>n. n + 8) (simple_mask_length m)
      else if list_all (\<lambda>b. b = 0) m then mask_byte_ones v else None)"

definition mask_size :: "u8 list \<Rightarrow> int" where
  "mask_size m = (case simple_mask_length m of None \<Rightarrow> 0 | Some n \<Rightarrow> int n)"

lemma mask_size_cidr_mask:
  assumes "n \<le> 32" shows "mask_size (cidr_mask n 32) = int n"
proof -
  have "list_all (\<lambda>n. mask_size (cidr_mask n 32) = int n) [0..<33]" by code_simp
  then show ?thesis using assms by (simp add: list_all_iff)
qed

text \<open>
  \<open>Get_cidr_filename\<close>, with \<open>stat\<close> telling whether a file of that name exists. The exit of the
  program on any other argument is the left summand.
\<close>

definition Get_cidr_filename :: "(string \<Rightarrow> bool) \<Rightarrow> string \<Rightarrow> ExitCode + (string \<times> ip \<times> int)" where
  "Get_cidr_filename stat arg =
     (let a = parse_ip arg in
      if a \<noteq> [] then Inr ('''', a, 0)
      else case parse_cidr arg of
        None \<Rightarrow> if stat arg then Inr (arg, [], 0) else Inl WRONG_INPUT_ARGS
      | Some (a1, n) \<Rightarrow> Inr ('''', a1, 32 - mask_size (net_mask n)))"

subsection \<open>Enumerating a network\<close>

text \<open>
  \<open>gen_ips\<close> of the UDP scanner; the first phase of \<open>gen_ips\<close> of the TCP scanner is the same loop.
  The select statement looks at \<open>Stop_chan\<close> before every address: \<open>stopped k\<close> tells whether it is
  closed at the \<open>k\<close>-th look. The result is what was sent to the channel and whether the loop came
  to its end.
\<close>

definition pow2_int :: "int \<Rightarrow> int" where
  "pow2_int h = (if h < 0 then 0 else 2 ^ nat h)"

partial_function (option) gen_ips_loop ::
  "(nat \<Rightarrow> bool) \<Rightarrow> u32 \<Rightarrow> nat \<Rightarrow> lcg_state \<Rightarrow> (ip list \<times> bool) option" where
  "gen_ips_loop stopped netip_int k s =
     (if \<not> lcg_Has_next s then Some ([], True)
      else if stopped k then Some ([], False)
      else Option.bind (lcg_Next s) (\<lambda>r.
        Option.bind (gen_ips_loop stopped netip_int (Suc k) (snd r)) (\<lambda>q.
          Some (Uint322ip (netip_int + of_int (fst r)) # fst q, snd q))))"

definition gen_ips :: "(nat \<Rightarrow> bool) \<Rightarrow> ip \<Rightarrow> int \<Rightarrow> int \<Rightarrow> int \<Rightarrow> (ip list \<times> bool) outcome option" where
  "gen_ips stopped netip hostsize r1 r2 =
     (case Ip42uint32 netip of
        Panic e \<Rightarrow> Some (Panic e)
      | Ret netip_int \<Rightarrow>
          (case lcg_Init (pow2_int hostsize) r1 r2 of
             Panic e \<Rightarrow> Some (Panic e)
           | Ret s \<Rightarrow> map_option Ret (gen_ips_loop stopped netip_int 0 s)))"

text \<open>
  \<open>gen_ips_nets\<close>: the networks of the same size one after the other, in the order the shuffle left
  them in. It stops at the first network whose enumeration was stopped.
\<close>

fun gen_ips_nets :: "(nat \<Rightarrow> bool) list \<Rightarrow> int \<Rightarrow> (ip \<times> int \<times> int) list \<Rightarrow> (ip list \<times> bool) outcome option" where
  "gen_ips_nets sts hostsize [] = Some (Ret ([], True))"
| "gen_ips_nets sts hostsize ((netip, r1, r2) # nets) =
     (case gen_ips (case sts of [] \<Rightarrow> (\<lambda>_. False) | st # _ \<Rightarrow> st) netip hostsize r1 r2 of
        None \<Rightarrow> None
      | Some (Panic e) \<Rightarrow> Some (Panic e)
      | Some (Ret (ips, done_)) \<Rightarrow>
          if \<not> done_ then Some (Ret (ips, False))
          else (case gen_ips_nets (tl sts) hostsize nets of
                  None \<Rightarrow> None
                | Some (Panic e) \<Rightarrow> Some (Panic e)
                | Some (Ret (ips', d)) \<Rightarrow> Some (Ret (ips @ ips', d))))"

text \<open>A loop that is never stopped sends exactly what the generator yields.\<close>

lemma lcg_found_Next: "lcg_Next s = Some (v, s1) \<Longrightarrow> lcg_found s1 = lcg_found s + 1 \<and> lcg_max s1 = lcg_max s"
proof -
  assume n: "lcg_Next s = Some (v, s1)"
  have "lcg_found t = lcg_found u \<and> lcg_max t = lcg_max u" if "lcg_skip u = Some t" for u t
  proof (rule lcg_skip.raw_induct [OF _ that, of "\<lambda>u t. lcg_found t = lcg_found u \<and> lcg_max t = lcg_max u"])
    fix f u t
    assume "\<And>u t. f u = Some t \<Longrightarrow> lcg_found t = lcg_found u \<and> lcg_max t = lcg_max u"
      and "(if lcg_max u \<le> lcg_value u then f (lcg_advance u) else Some u) = Some t"
    then show "lcg_found t = lcg_found u \<and> lcg_max t = lcg_max u"
      by (fastforce split: if_splits)
  qed
  with n show ?thesis by (auto simp: lcg_Next_def split: option.splits)
qed

lemma gen_ips_loop_take:
  assumes "lcg_take n s = Some (vs, s')" and "lcg_found s + int n = lcg_max s"
  shows "gen_ips_loop (\<lambda>_. False) b k s = Some (map (\<lambda>v. Uint322ip (b + of_int v)) vs, True)"
  using assms
proof (induction n arbitrary: s vs k)
  case 0
  then show ?case by (subst gen_ips_loop.simps) (simp add: lcg_Has_next_def)
next
  case (Suc n)
  then obtain v s1 vs1 where n: "lcg_Next s = Some (v, s1)" "lcg_take n s1 = Some (vs1, s')"
    and vs: "vs = v # vs1"
    by (auto split: option.splits)
  from lcg_found_Next [OF n(1)] Suc.prems(2) have "lcg_found s1 + int n = lcg_max s1" by simp
  from Suc.IH [OF n(2) this] show ?case
    using Suc.prems(2) n(1) vs by (subst gen_ips_loop.simps) (simp add: lcg_Has_next_def)
qed

text \<open>The values of the generator, added to the base address, are the addresses of the block.\<close>

lemma of_int_mod32: "(of_int (v mod 2 ^ 32) :: u32) = of_int v"
  by (rule word_of_int_eq_iff [THEN iffD2]) (simp add: take_bit_eq_mod)

lemma of_int_inj32: "(of_int v :: u32) = of_int w \<longleftrightarrow> v mod 2 ^ 32 = w mod 2 ^ 32"
  by (simp add: word_of_int_eq_iff take_bit_eq_mod)

definition block :: "u32 \<Rightarrow> nat \<Rightarrow> ip set" where
  "block b h = (\<lambda>i. Uint322ip (b + of_nat i)) ` {..<2 ^ h}"

lemma block_of_values:
  assumes "distinct (map (\<lambda>v. v mod 2 ^ h) vs)" and "set (map (\<lambda>v. v mod 2 ^ h) vs) = {0..<2 ^ h}"
    and "h \<le> 32" and "h = 32 \<or> (\<forall>v \<in> set vs. 0 \<le> v \<and> v < 2 ^ h)"
  shows "distinct (map (\<lambda>v. Uint322ip (b + of_int v)) vs)"
    and "set (map (\<lambda>v. Uint322ip (b + of_int v)) vs) = block b h"
proof -
  have small: "v mod 2 ^ 32 = v mod 2 ^ h" if "v \<in> set vs" for v
  proof (cases "h = 32")
    case False
    then have "0 \<le> v" "v < 2 ^ h" using assms(4) that by auto
    moreover have "(2 :: int) ^ h \<le> 2 ^ 32" using assms(3) by (intro power_increasing) simp_all
    ultimately show ?thesis by simp
  qed simp
  have "inj_on (\<lambda>v. Uint322ip (b + of_int v)) (set vs)"
  proof (rule inj_onI)
    fix v w assume vw: "v \<in> set vs" "w \<in> set vs" "Uint322ip (b + of_int v) = Uint322ip (b + of_int w)"
    then have "v mod 2 ^ 32 = w mod 2 ^ 32" by (simp only: Uint322ip_inj add_left_cancel of_int_inj32)
    then have "v mod 2 ^ h = w mod 2 ^ h" by (simp only: small [OF vw(1)] small [OF vw(2)])
    then show "v = w" using assms(1) vw by (auto simp: distinct_map dest: inj_onD)
  qed
  then show "distinct (map (\<lambda>v. Uint322ip (b + of_int v)) vs)"
    using assms(1) by (simp add: distinct_map)
  have "set (map (\<lambda>v. Uint322ip (b + of_int v)) vs) =
      (\<lambda>v. Uint322ip (b + of_int v)) ` set (map (\<lambda>v. v mod 2 ^ h) vs)"
  proof -
    have "(of_int v :: u32) = of_int (v mod 2 ^ h)" if "v \<in> set vs" for v
      using small [OF that] of_int_mod32 [of v] by simp
    then show ?thesis by (auto simp: image_image intro!: image_cong)
  qed
  also have "\<dots> = (\<lambda>v. Uint322ip (b + of_int v)) ` int ` {..<2 ^ h}"
    unfolding assms(2) by (simp add: image_int_atLeastLessThan lessThan_atLeast0)
  finally show "set (map (\<lambda>v. Uint322ip (b + of_int v)) vs) = block b h"
    by (simp add: block_def image_image)
qed

lemma lcg_take_block:
  assumes "lcg_Init (2 ^ h) r1 r2 = Ret s" and "h \<le> 32"
    and "0 \<le> r1" "r1 < 2 ^ h" "0 \<le> r2" "r2 < 2 ^ h"
  shows "\<exists>vs s'. lcg_take (2 ^ h) s = Some (vs, s') \<and> distinct (map (\<lambda>v. v mod 2 ^ h) vs) \<and>
    set (map (\<lambda>v. v mod 2 ^ h) vs) = {0..<2 ^ h} \<and> (h = 32 \<or> (\<forall>v \<in> set vs. 0 \<le> v \<and> v < 2 ^ h))"
proof -
  have "(2 :: int) ^ h \<le> 2 ^ 32" using assms(2) by (intro power_increasing) simp_all
  note i = lcg_Init_wf [OF assms(1) this assms(3-6)]
  have "ceillog2 (2 ^ h) = h" by simp
  then have wf: "lcg_wf h s" using i(1) by (simp add: nat_power_eq)
  show ?thesis
  proof (cases "h = 32")
    case True
    then show ?thesis
      using lcg_take_full [OF wf] lcg_take_full_residues [OF wf] i assms(4) by auto
  next
    case False
    then have "(2 :: int) ^ h \<le> 2 ^ 31" using assms(2) by (intro power_increasing) simp_all
    then have "lcg_small s" using i wf assms by (auto simp: lcg_small_def lcg_wf_def)
    from lcg_take_enumerates [OF wf this] i assms obtain vs s' where
      t: "lcg_take (nat (2 ^ h)) s = Some (vs, s')" "distinct vs" "set vs = {0..<2 ^ h}" by auto
    have "map (\<lambda>v. v mod 2 ^ h) vs = vs" using t(3) by (intro map_idI) auto
    with t show ?thesis by (auto simp: nat_power_eq)
  qed
qed

lemma Ip42uint32_16: "length a = 4 \<Longrightarrow> Ip42uint32 (v4_prefix @ a) = be_uint32 a"
  by (simp add: Ip42uint32_def to4_def)

lemma gen_ips_block:
  assumes "Ip42uint32 netip = Ret b" and "h \<le> 32"
    and "0 \<le> r1" "r1 < 2 ^ h" "0 \<le> r2" "r2 < 2 ^ h"
  shows "\<exists>ips. gen_ips (\<lambda>_. False) netip (int h) r1 r2 = Some (Ret (ips, True)) \<and>
    distinct ips \<and> set ips = block b h"
proof -
  obtain s where s: "lcg_Init (2 ^ h) r1 r2 = Ret s" by (simp add: lcg_Init_def)
  obtain vs s' where t: "lcg_take (2 ^ h) s = Some (vs, s')"
    and vs: "distinct (map (\<lambda>v. v mod 2 ^ h) vs)" "set (map (\<lambda>v. v mod 2 ^ h) vs) = {0..<2 ^ h}"
      "h = 32 \<or> (\<forall>v \<in> set vs. 0 \<le> v \<and> v < 2 ^ h)"
    using lcg_take_block [OF s assms(2-6)] by blast
  have "lcg_found s + int (2 ^ h) = lcg_max s"
    using s by (auto simp: lcg_Init_def)
  from gen_ips_loop_take [OF t this]
  have "gen_ips (\<lambda>_. False) netip (int h) r1 r2 =
      Some (Ret (map (\<lambda>v. Uint322ip (b + of_int v)) vs, True))"
    using s assms(1) by (simp add: gen_ips_def pow2_int_def)
  with block_of_values [OF vs(1,2) assms(2) vs(3), of b] show ?thesis by blast
qed

text \<open>The block at a network's own address is the network.\<close>

lemma drop_bit_add_low:
  fixes v :: u32
  assumes "v AND mask h = 0" and "i < 2 ^ h" and "h \<le> 32"
  shows "drop_bit h (v + of_nat i) = drop_bit h v"
proof (cases "h = 32")
  case True
  then show ?thesis by (auto intro!: bit_word_eqI simp: bit_simps dest: bit_imp_le_length)
next
  case False
  then have h: "h < 32" using assms(3) by simp
  have i: "unat (of_nat i :: u32) = i"
  proof -
    have "(2 :: nat) ^ h \<le> 2 ^ 32" using h by (intro power_increasing) simp_all
    then show ?thesis using assms(2) by (simp add: unat_of_nat)
  qed
  have "bit (of_nat i :: u32) n \<longleftrightarrow> n < h \<and> bit (of_nat i :: u32) n" for n
  proof -
    have "\<not> bit i n" if "h \<le> n"
    proof -
      have "(2 :: nat) ^ h \<le> 2 ^ n" using that by (intro power_increasing) simp_all
      with assms(2) have "i < 2 ^ n" by (rule less_le_trans)
      then have "i div 2 ^ n = 0" by (rule div_less)
      then show ?thesis by (simp add: bit_iff_odd)
    qed
    then show ?thesis by (auto simp: bit_simps not_le [symmetric])
  qed
  then have lo: "bit (of_nat i :: u32) n \<Longrightarrow> n < h" for n by blast
  have vlo: "\<not> bit v n" if "n < h" for n
  proof -
    have "bit (v AND mask h) n \<longleftrightarrow> bit (0 :: u32) n" by (simp only: assms(1))
    then show ?thesis using that h by (simp add: bit_simps)
  qed
  have "v AND of_nat i = 0"
    by (rule bit_word_eqI) (use lo vlo in \<open>auto simp: bit_simps\<close>)
  then have "v + of_nat i = v OR of_nat i" by (rule disjunctive_add_eq_or)
  moreover have "drop_bit h (of_nat i :: u32) = 0"
  proof (rule bit_word_eqI)
    fix n show "bit (drop_bit h (of_nat i :: u32)) n = bit (0 :: u32) n"
      using lo [of "h + n"] by (simp only: bit_drop_bit_eq comp_apply bit_0_eq bot_apply bot_bool_def) blast
  qed
  ultimately show ?thesis by simp
qed

lemma card_block: "h \<le> 32 \<Longrightarrow> card (block b h) = 2 ^ h"
proof -
  assume h: "h \<le> 32"
  have "inj_on (\<lambda>i. Uint322ip (b + of_nat i)) {..<2 ^ h}"
  proof (rule inj_onI)
    fix i j :: nat
    assume ij: "i \<in> {..<2 ^ h}" "j \<in> {..<2 ^ h}" "Uint322ip (b + of_nat i) = Uint322ip (b + of_nat j)"
    have "(2 :: nat) ^ h \<le> 2 ^ 32" using h by (intro power_increasing) simp_all
    with ij(1,2) have "i < 2 ^ 32" "j < 2 ^ 32" by (auto intro: less_le_trans simp only: lessThan_iff)
    then have "unat (of_nat i :: u32) = i" "unat (of_nat j :: u32) = j"
      by (simp_all add: unat_of_nat)
    moreover have "(of_nat i :: u32) = of_nat j" using ij(3) by simp
    ultimately show "i = j" by metis
  qed
  then show ?thesis by (simp add: block_def card_image)
qed

lemma members_cidr_net:
  assumes "n \<le> 32"
  shows "{a. length a = 4 \<and> net_contains (cidr_net v n) a} =
    Uint322ip ` {w. drop_bit (32 - n) w = drop_bit (32 - n) v}"
proof -
  have "a \<in> Uint322ip ` {w. drop_bit (32 - n) w = drop_bit (32 - n) v}"
    if "length a = 4" "net_contains (cidr_net v n) a" for a
  proof -
    have "\<exists>w. be_uint32 a = Ret w"
      by (rule length_4_cases [OF that(1)]) (simp add: be_uint32_def)
    then obtain w where w: "be_uint32 a = Ret w" ..
    with that(1) have "a = Uint322ip w" by (simp add: Uint322ip_def be_put_be_uint32)
    then show ?thesis using that(2) assms by (auto simp: Uint322ip_def net_contains_cidr_net)
  qed
  moreover have "length a = 4 \<and> net_contains (cidr_net v n) a"
    if "a \<in> Uint322ip ` {w. drop_bit (32 - n) w = drop_bit (32 - n) v}" for a
    using that assms by (auto simp: Uint322ip_def net_contains_cidr_net)
  ultimately show ?thesis by blast
qed

lemma card_same_prefix:
  assumes "h \<le> 32"
  shows "card {w :: u32. drop_bit h w = drop_bit h v} \<le> 2 ^ h"
proof -
  let ?W = "{w :: u32. drop_bit h w = drop_bit h v}"
  have "inj_on (\<lambda>w. unat (take_bit h w)) ?W"
    by (rule inj_onI) (metis (mono_tags, lifting) mem_Collect_eq bits_ident unsigned_word_eqI)
  moreover have "(\<lambda>w. unat (take_bit h w)) ` ?W \<subseteq> {..<2 ^ h}"
    by (auto simp: unsigned_take_bit_eq)
  ultimately have "card ?W \<le> card {..<(2 :: nat) ^ h}" by (intro card_inj_on_le) simp_all
  then show ?thesis by simp
qed

lemma block_network:
  assumes "n \<le> 32" and "v AND mask (32 - n) = 0"
  shows "block v (32 - n) = {a. length a = 4 \<and> net_contains (cidr_net v n) a}"
proof -
  have sub: "block v (32 - n) \<subseteq> {a. length a = 4 \<and> net_contains (cidr_net v n) a}"
    using drop_bit_add_low [OF assms(2)] by (auto simp: members_cidr_net [OF assms(1)] block_def)
  have "card {a. length a = 4 \<and> net_contains (cidr_net v n) a} \<le> card (block v (32 - n))"
    unfolding members_cidr_net [OF assms(1)] using card_same_prefix [of "32 - n" v]
    by (simp add: card_block) (meson card_image_le finite le_trans)
  moreover have "finite {a. length a = 4 \<and> net_contains (cidr_net v n) a}"
    unfolding members_cidr_net [OF assms(1)] by simp
  ultimately show ?thesis using sub by (intro card_seteq) simp_all
qed

subsection \<open>From the argument to the addresses\<close>

text \<open>What the scan of an argument sends to \<open>Ip_chan\<close> when it names an address or a network.\<close>

definition scan_arg ::
  "(string \<Rightarrow> bool) \<Rightarrow> (nat \<Rightarrow> bool) \<Rightarrow> string \<Rightarrow> int \<Rightarrow> int \<Rightarrow> (ip list \<times> bool) outcome option" where
  "scan_arg stat stopped arg r1 r2 =
     (case Get_cidr_filename stat arg of
        Inl e \<Rightarrow> None
      | Inr (fname, netip, hostsize) \<Rightarrow>
          if fname \<noteq> [] then None else gen_ips stopped netip hostsize r1 r2)"

definition cidr_text :: "u32 \<Rightarrow> nat \<Rightarrow> string" where
  "cidr_text v n = dotted (Uint322ip v) @ CHR ''/'' # nat_digits n"

lemma digits_no_slash: "CHR ''/'' \<notin> set (nat_digits n)"
  by (auto dest!: nat_digits_chars simp: is_digit_def)

lemma dotted_no_slash: "length a = 4 \<Longrightarrow> CHR ''/'' \<notin> set (dotted a)"
  by (erule length_4_cases) (simp add: dotted_def digits_no_slash)

lemma find_first: "\<forall>y \<in> set xs. \<not> P y \<Longrightarrow> P x \<Longrightarrow> find P (xs @ x # ys) = Some x"
  by (induction xs) auto

lemma dotted_split:
  assumes "length a = 4"
  obtains t where "dotted a = nat_digits (unat (a ! 0)) @ CHR ''.'' # t"
  using assms by (cases rule: length_4_cases) (auto simp: dotted_def)

lemma find_family:
  assumes "length a = 4"
  shows "find (\<lambda>c. c \<in> {CHR ''.'', CHR '':'', CHR ''%''}) (dotted a @ s) = Some CHR ''.''"
proof -
  obtain t where t: "dotted a = nat_digits (unat (a ! 0)) @ CHR ''.'' # t"
    by (rule dotted_split [OF assms])
  show ?thesis unfolding t append_assoc append_Cons
    by (rule find_first) (use digits_no_dot in \<open>fastforce+\<close>)
qed

lemma parse_ip_cidr_text: "parse_ip (cidr_text v n) = []"
proof -
  obtain b0 b1 b2 b3 where b: "Uint322ip v = [b0, b1, b2, b3]"
    by (rule length_4_cases [of "Uint322ip v"]) (simp_all add: Uint322ip_def)
  let ?d = "\<lambda>b :: u8. nat_digits (unat b)"
  have "split_on CHR ''.'' (cidr_text v n) = [?d b0, ?d b1, ?d b2, ?d b3 @ CHR ''/'' # nat_digits n]"
    unfolding cidr_text_def b dotted_def
    by (simp add: split_on_append_sep digits_no_dot split_on_no_sep)
  moreover have "\<not> is_digit CHR ''/''" by (simp add: is_digit_def)
  then have "parse_octet (?d b3 @ CHR ''/'' # nat_digits n) = None"
    by (simp add: parse_octet_def parse_nat_def)
  ultimately have "parse_ipv4_fields (cidr_text v n) = None"
    by (simp add: parse_ipv4_fields_def)
  moreover have "find (\<lambda>c. c \<in> {CHR ''.'', CHR '':'', CHR ''%''}) (cidr_text v n) = Some CHR ''.''"
    unfolding cidr_text_def by (rule find_family) (simp add: Uint322ip_def)
  ultimately show ?thesis by (simp add: parse_ip_def parse_addr_def)
qed

lemma parse_cidr_cidr_text:
  assumes "n \<le> 32"
  shows "parse_cidr (cidr_text v n) = Some (v4_prefix @ Uint322ip v, cidr_net v n)"
proof -
  have l: "length (Uint322ip v) = 4" by (simp add: Uint322ip_def)
  have ns: "\<forall>c \<in> set (dotted (Uint322ip v)). c \<noteq> CHR ''/''" using dotted_no_slash [OF l] by auto
  have tw: "takeWhile (\<lambda>c. c \<noteq> CHR ''/'') (cidr_text v n) = dotted (Uint322ip v)"
    and dw: "dropWhile (\<lambda>c. c \<noteq> CHR ''/'') (cidr_text v n) = CHR ''/'' # nat_digits n"
    using ns by (simp_all add: cidr_text_def takeWhile_append2 dropWhile_append2 [of _ _ "CHR ''/'' # nat_digits n"])
  have "find (\<lambda>c. c \<in> {CHR ''.'', CHR '':'', CHR ''%''}) (dotted (Uint322ip v)) = Some CHR ''.''"
    using find_family [OF l, of "[]"] by simp
  then have "parse_addr (dotted (Uint322ip v)) = Some (Uint322ip v)"
    by (simp add: parse_addr_def parse_ipv4_fields_dotted [OF l])
  then show ?thesis
    using assms l unfolding parse_cidr_def tw dw
    by (simp add: cidr_text_def as16_def ip_mask_def cidr_net_def Uint322ip_def Let_def)
qed

lemma Get_cidr_filename_cidr_text:
  assumes "n \<le> 32"
  shows "Get_cidr_filename stat (cidr_text v n) = Inr ('''', v4_prefix @ Uint322ip v, int (32 - n))"
  using assms
  by (simp add: Get_cidr_filename_def parse_ip_cidr_text parse_cidr_cidr_text cidr_net_def
      mask_size_cidr_mask of_nat_diff)

lemma scan_arg_cidr_text:
  assumes "n \<le> 32"
  shows "scan_arg stat stopped (cidr_text v n) r1 r2 =
    gen_ips stopped (v4_prefix @ Uint322ip v) (int (32 - n)) r1 r2"
  using assms by (simp add: scan_arg_def Get_cidr_filename_cidr_text)

subsection \<open>Properties\<close>

text \<open>
  C13. A CIDR scan is complete and never repeats: for a network address \<open>v\<close> and a prefix length
  \<open>n\<close> (any from /0 to /32, so up to all \<open>2\<^sup>3\<^sup>2\<close> addresses), the text \<open>a.b.c.d/n\<close> is accepted, the
  enumeration ends, and the addresses sent to \<open>Ip_chan\<close> are all the members of the network, each
  one once.
\<close>

theorem cidr_scan_exactly_once:
  assumes "n \<le> 32" and "v AND mask (32 - n) = 0"
    and "0 \<le> r1" "r1 < 2 ^ (32 - n)" "0 \<le> r2" "r2 < 2 ^ (32 - n)"
  shows "\<exists>ips. scan_arg stat (\<lambda>_. False) (cidr_text v n) r1 r2 = Some (Ret (ips, True)) \<and>
    distinct ips \<and> set ips = {a. length a = 4 \<and> net_contains (cidr_net v n) a}"
proof -
  have "Ip42uint32 (v4_prefix @ Uint322ip v) = Ret v"
    by (simp add: Ip42uint32_16 Uint322ip_def)
  from gen_ips_block [OF this _ assms(3-6)] show ?thesis
    by (simp add: scan_arg_cidr_text [OF assms(1)] block_network [OF assms(1,2)])
qed

lemma cidr_scan_exactly_once_witness:
  "\<exists>ips. scan_arg (\<lambda>_. False) (\<lambda>_. False) (cidr_text 0x0A000000 30) 2 1 = Some (Ret (ips, True)) \<and>
    distinct ips \<and> set ips = {a. length a = 4 \<and> net_contains (cidr_net 0x0A000000 30) a}"
  by (rule cidr_scan_exactly_once) (simp_all add: mask_eq_exp_minus_1)

text \<open>
  C34. The enumeration starts at the address as written, not at the network address: when the text
  has host bits set, the scan sends addresses outside of the network it names (and misses others).
\<close>

theorem cidr_scan_leaves_network:
  assumes "0 < n" and "n \<le> 32" and "v AND mask (32 - n) \<noteq> 0"
    and "0 \<le> r1" "r1 < 2 ^ (32 - n)" "0 \<le> r2" "r2 < 2 ^ (32 - n)"
  shows "\<exists>ips a. scan_arg stat (\<lambda>_. False) (cidr_text v n) r1 r2 = Some (Ret (ips, True)) \<and>
    a \<in> set ips \<and> \<not> net_contains (cidr_net v n) a"
proof -
  define h where "h = 32 - n"
  define low where "low = unat v mod 2 ^ h"
  define q where "q = unat v div 2 ^ h"
  have uv: "unat v = q * 2 ^ h + low" unfolding q_def low_def by (rule div_mult_mod_eq [symmetric])
  have "v AND mask h = take_bit h v" by (simp add: take_bit_eq_mask)
  then have "unat (take_bit h v) \<noteq> 0" using assms(3) by (simp only: h_def [symmetric] unat_eq_0 simp_thms)
  moreover have "unat (take_bit h v) = low"
    unfolding low_def unsigned_take_bit_eq by (rule take_bit_eq_mod)
  ultimately have low: "low \<noteq> 0" by simp
  have low_less: "low < 2 ^ h" by (simp add: low_def)
  define i where "i = 2 ^ h - low"
  have i: "i < 2 ^ h" "low + i = 2 ^ h" using low low_less by (simp_all add: i_def)
  have pow: "(2 :: nat) ^ 32 = 2 ^ n * 2 ^ h" using assms(2) by (simp add: h_def flip: power_add)
  have db: "unat (drop_bit h w) = unat w div 2 ^ h" for w :: u32
    by (simp only: unat_drop_bit_eq) (simp only: drop_bit_eq_div)
  have "unat (v + of_nat i) = (unat v + i) mod 2 ^ 32"
    by (simp add: unat_word_ariths unat_of_nat mod_add_right_eq)
  also have "unat v + i = (q + 1) * 2 ^ h" using uv i(2) by simp
  also have "(q + 1) * 2 ^ h mod 2 ^ 32 = (q + 1) mod 2 ^ n * 2 ^ h"
    unfolding pow by (rule mod_mult_mult2)
  finally have "unat (drop_bit h (v + of_nat i)) = (q + 1) mod 2 ^ n"
    by (simp add: db)
  moreover have "unat (drop_bit h v) = q" by (simp only: db q_def)
  moreover have "(q + 1) mod 2 ^ n \<noteq> q"
  proof
    assume e: "(q + 1) mod 2 ^ n = q"
    then have "q < 2 ^ n" by (metis mod_less_divisor zero_less_numeral zero_less_power)
    then have "q + 1 < 2 ^ n \<or> q + 1 = 2 ^ n" by linarith
    moreover have "1 < (2 :: nat) ^ n" using one_less_power [of "2 :: nat" n] assms(1) by simp
    ultimately show False using e by (metis add_self_mod_2 less_not_refl mod_less mod_self n_not_Suc_n
          Suc_eq_plus1 add_0)
  qed
  ultimately have "drop_bit h v \<noteq> drop_bit h (v + of_nat i)" by metis
  then have "\<not> net_contains (cidr_net v n) (Uint322ip (v + of_nat i))"
    using assms(2) by (simp add: h_def Uint322ip_def net_contains_cidr_net)
  moreover have "Uint322ip (v + of_nat i) \<in> block v h" using i(1) by (auto simp: block_def)
  moreover have "Ip42uint32 (v4_prefix @ Uint322ip v) = Ret v"
    by (simp add: Ip42uint32_16 Uint322ip_def)
  note gen_ips_block [OF this _ assms(4-7)]
  ultimately show ?thesis
    by (auto simp: scan_arg_cidr_text [OF assms(2)] h_def)
qed

lemma cidr_scan_leaves_network_witness:
  "\<exists>ips a. scan_arg (\<lambda>_. False) (\<lambda>_. False) (cidr_text 0x0A000003 30) 2 1 = Some (Ret (ips, True)) \<and>
    a \<in> set ips \<and> \<not> net_contains (cidr_net 0x0A000003 30) a"
  by (rule cidr_scan_leaves_network) (simp_all add: mask_eq_exp_minus_1)

end
