(* ===== verification/BaseScanner.thy ===== *)
theory BaseScanner
  imports Targets Common
begin

section \<open>What the scanners share (scanner/base_scanner.go)\<close>

text \<open>
  The exclusion list, the reading of a target file, the table of open requests with its periodic
  clean-up, and the interface between a scanner's sending loop and its table. A point in time is
  the number of nanoseconds since the epoch.
\<close>

type_synonym time = int

definition time_Unix :: "time \<Rightarrow> int" where
  "time_Unix t = t div 10 ^ 9"

text \<open>The zero value of \<open>time.Time\<close>: the first of January of the year 1.\<close>

definition zero_time :: time where
  "zero_time = - 62135596800 * 10 ^ 9"

subsection \<open>Reading a file line by line\<close>

text \<open>\<open>bufio.Scanner\<close> with its default split function (for lines below its limit of 64 KiB).\<close>

definition drop_cr :: "string \<Rightarrow> string" where
  "drop_cr l = (if l \<noteq> [] \<and> last l = CHR 13 then butlast l else l)"

definition scan_lines :: "string \<Rightarrow> string list" where
  "scan_lines s =
     (let ps = split_on (CHR 10) s
      in map drop_cr (if last ps = [] then butlast ps else ps))"

subsection \<open>The exclusion list\<close>

definition strip_comment :: "string \<Rightarrow> string" where
  "strip_comment line = trim_space (takeWhile (\<lambda>c. c \<noteq> CHR ''#'') line)"

definition exclude_line :: "string \<Rightarrow> ipnet option" where
  "exclude_line line =
     (if line = [] then None
      else let pos_net = strip_comment line in
        if pos_net = [] then None
        else case parse_cidr pos_net of
          Some (_, new_net) \<Rightarrow> Some new_net
        | None \<Rightarrow>
            (let toblock_ip = parse_ip pos_net in
             if toblock_ip = [] then None
             else Some \<lparr>net_ip = toblock_ip, net_mask = cidr_mask 32 32\<rparr>))"

text \<open>The loop; \<open>waiting\<close> is what \<open>Waiting_to_end\<close> holds at each line.\<close>

fun exclude_lines :: "(nat \<Rightarrow> bool) \<Rightarrow> nat \<Rightarrow> string list \<Rightarrow> ipnet list" where
  "exclude_lines waiting k [] = []"
| "exclude_lines waiting k (l # ls) =
     (if waiting k then []
      else (case exclude_line l of None \<Rightarrow> [] | Some n \<Rightarrow> [n]) @ exclude_lines waiting (Suc k) ls)"

definition Exclude_ips :: "(nat \<Rightarrow> bool) \<Rightarrow> string option \<Rightarrow> ipnet list" where
  "Exclude_ips waiting file =
     (case file of None \<Rightarrow> [] | Some txt \<Rightarrow> exclude_lines waiting 0 (scan_lines txt))"

text \<open>The loop over \<open>Blocked_nets\<close> in \<open>init_udp\<close> and \<open>init_tcp\<close>.\<close>

fun is_blocked :: "ipnet list \<Rightarrow> ip \<Rightarrow> bool" where
  "is_blocked [] dst_ip = False"
| "is_blocked (n # ns) dst_ip = (if net_contains n dst_ip then True else is_blocked ns dst_ip)"

lemma is_blocked_iff: "is_blocked ns a \<longleftrightarrow> (\<exists>n \<in> set ns. net_contains n a)"
  by (induction ns) auto

lemma exclude_lines_all:
  "set (exclude_lines (\<lambda>_. False) k ls) = {n. \<exists>l \<in> set ls. exclude_line l = Some n}"
  by (induction ls arbitrary: k) (auto split: option.splits)

text \<open>An entry as the exclusion list has it: an address or a network, with an optional comment.\<close>

definition comment :: "string \<Rightarrow> bool" where
  "comment c \<longleftrightarrow> c = [] \<or> hd c = CHR ''#''"

definition blanks :: "string \<Rightarrow> bool" where
  "blanks s \<longleftrightarrow> list_all is_space s"

lemma not_space_digit: "is_digit c \<Longrightarrow> \<not> is_space c \<and> c \<noteq> CHR ''#''"
  by (auto simp: is_digit_def is_space_def)

lemma takeWhile_stop: "\<forall>x \<in> set xs. P x \<Longrightarrow> ys = [] \<or> \<not> P (hd ys) \<Longrightarrow> takeWhile P (xs @ ys) = xs"
  by (induction xs) (cases ys; auto)+

lemma dropWhile_start: "\<forall>x \<in> set xs. P x \<Longrightarrow> ys = [] \<or> \<not> P (hd ys) \<Longrightarrow> dropWhile P (xs @ ys) = ys"
  by (induction xs) (cases ys; auto)+

lemma strip_comment_entry:
  assumes "blanks a" and "blanks b" and "comment c" and "e \<noteq> []"
    and "\<not> is_space (hd e)" and "\<not> is_space (last e)" and "CHR ''#'' \<notin> set e"
  shows "strip_comment (a @ e @ b @ c) = e"
proof -
  have nb: "CHR ''#'' \<notin> set s" if "blanks s" for s
    using that by (auto simp: blanks_def list_all_iff is_space_def)
  have "takeWhile (\<lambda>x. x \<noteq> CHR ''#'') ((a @ e @ b) @ c) = a @ e @ b"
    by (rule takeWhile_stop) (use assms nb in \<open>auto simp: comment_def\<close>)
  moreover have "dropWhile is_space (a @ e @ b) = e @ b"
    by (rule dropWhile_start) (use assms in \<open>auto simp: blanks_def list_all_iff\<close>)
  moreover have "dropWhile is_space (rev b @ rev e) = rev e"
    by (rule dropWhile_start) (use assms in \<open>auto simp: blanks_def list_all_iff hd_rev\<close>)
  ultimately show ?thesis by (simp add: strip_comment_def trim_space_def)
qed

subsection \<open>The target file\<close>

text \<open>
  The addresses a file contributes, and whether the loop came to its end. A line that is no address
  puts the nil address into the channel.
\<close>

fun read_ips_lines :: "(nat \<Rightarrow> bool) \<Rightarrow> nat \<Rightarrow> string list \<Rightarrow> ip list \<times> bool" where
  "read_ips_lines waiting k [] = ([], True)"
| "read_ips_lines waiting k (l # ls) =
     (if waiting k then ([], False)
      else if l = [] then read_ips_lines waiting (Suc k) ls
      else (let (ips, d) = read_ips_lines waiting (Suc k) ls in (parse_ip l # ips, d)))"

text \<open>The seconds to wait after the last target, from the channel's fill and the packet rate.\<close>

definition wait_time :: "nat \<Rightarrow> int \<Rightarrow> int outcome" where
  "wait_time chan_len pps =
     (if pps = 0 then Panic IntegerDivideByZero else Ret (int chan_len sdiv pps + 10))"

lemma wait_time_enough:
  assumes "0 < pps"
  shows "\<exists>w. wait_time n pps = Ret w \<and> int n \<le> (w - 9) * pps"
proof -
  have "int n sdiv pps = int n div pps"
    using assms by (cases "n = 0") (simp_all add: signed_divide_int_def)
  moreover have "int n \<le> (int n div pps + 1) * pps"
    using assms by (metis add.commute distrib_right less_imp_le mult.commute mult_1
        mult_div_mod_eq pos_mod_bound add_le_cancel_left)
  ultimately show ?thesis using assms by (simp add: wait_time_def add.commute)
qed

subsection \<open>The table of open requests\<close>

text \<open>
  One sweep of \<open>Timeout\<close>: the items older than ten seconds go. \<open>now\<close> is read anew for every key,
  so it is a function of the key.
\<close>

definition expired :: "time \<Rightarrow> time \<Rightarrow> bool" where
  "expired now ts \<longleftrightarrow> 10 < time_Unix now - time_Unix ts"

definition Timeout_sweep :: "('k \<Rightarrow> time) \<Rightarrow> ('v \<Rightarrow> time) \<Rightarrow> ('k \<rightharpoonup> 'v) \<Rightarrow> ('k \<rightharpoonup> 'v)" where
  "Timeout_sweep now ts items =
     (\<lambda>k. case items k of None \<Rightarrow> None | Some v \<Rightarrow> if expired (now k) (ts v) then None else Some v)"

text \<open>\<open>Store_internal\<close> appends what it takes from \<open>Write_chan\<close>.\<close>

definition Store_internal :: "'v list \<Rightarrow> 'v list \<Rightarrow> 'v list" where
  "Store_internal result_data from_chan = foldl (\<lambda>r i. r @ [i]) result_data from_chan"

lemma Store_internal_append: "Store_internal r xs = r @ xs"
proof -
  have "foldl (\<lambda>r i. r @ [i]) r xs = r @ xs" by (induction xs arbitrary: r) simp_all
  then show ?thesis by (simp add: Store_internal_def)
qed

lemma Timeout_sweep_Some:
  "Timeout_sweep now ts items k = Some v \<longleftrightarrow> items k = Some v \<and> \<not> expired (now k) (ts v)"
  by (auto simp: Timeout_sweep_def split: option.splits)

lemma Timeout_sweep_sub: "Timeout_sweep now ts items \<subseteq>\<^sub>m items"
  by (auto simp: map_le_def Timeout_sweep_def split: option.splits if_splits)

lemma not_expired: "now - ts \<le> 10 * 10 ^ 9 \<Longrightarrow> \<not> expired now ts"
proof -
  assume "now - ts \<le> 10 * 10 ^ 9"
  then have "now div 10 ^ 9 \<le> (ts + 10 * 10 ^ 9) div 10 ^ 9" by (intro zdiv_mono1) simp_all
  then show ?thesis by (simp add: expired_def time_Unix_def)
qed

subsection \<open>What an entry of the exclusion list blocks\<close>

lemma nonempty_addresses [simp]: "be_put_uint32 v \<noteq> []" "Uint322ip v \<noteq> []" "v4_prefix \<noteq> []"
  by (simp_all add: be_put_uint32_def Uint322ip_def v4_prefix_def)

lemma net_contains_mapped: "length a = 4 \<Longrightarrow> net_contains n (v4_prefix @ a) = net_contains n a"
  by (auto simp: net_contains_def to4_def v4_prefix_def Let_def split: prod.splits)

lemma cidr_text_ends:
  "cidr_text v n \<noteq> []" "is_digit (hd (cidr_text v n))" "is_digit (last (cidr_text v n))"
  "CHR ''#'' \<notin> set (cidr_text v n)"
proof -
  have "length (Uint322ip v) = 4" by (simp add: Uint322ip_def)
  then obtain b0 b1 b2 b3 where b: "Uint322ip v = [b0, b1, b2, b3]" by (rule length_4_cases)
  have d: "is_digit (hd (nat_digits m))" "is_digit (last (nat_digits m))" for m
    using nat_digits_chars [of "hd (nat_digits m)" m] nat_digits_chars [of "last (nat_digits m)" m]
    by simp_all
  have h: "CHR ''#'' \<notin> set (nat_digits m)" for m
    using not_space_digit nat_digits_chars [of "CHR ''#''" m] by blast
  show "cidr_text v n \<noteq> []" "is_digit (hd (cidr_text v n))" "is_digit (last (cidr_text v n))"
    "CHR ''#'' \<notin> set (cidr_text v n)"
    using d h by (auto simp: cidr_text_def dotted_def b hd_append)
qed

lemma exclude_line_cidr:
  assumes "blanks a" and "blanks b" and "comment c" and "n \<le> 32"
  shows "exclude_line (a @ cidr_text v n @ b @ c) = Some (cidr_net v n)"
proof -
  have "strip_comment (a @ cidr_text v n @ b @ c) = cidr_text v n"
    by (rule strip_comment_entry [OF assms(1-3)])
      (use cidr_text_ends [of v n] not_space_digit in \<open>auto\<close>)
  then show ?thesis using cidr_text_ends(1) assms(4)
    by (simp add: exclude_line_def parse_cidr_cidr_text)
qed

lemma dotted_ends:
  "dotted (Uint322ip v) \<noteq> []" "is_digit (hd (dotted (Uint322ip v)))"
  "is_digit (last (dotted (Uint322ip v)))" "CHR ''#'' \<notin> set (dotted (Uint322ip v))"
proof -
  have "length (Uint322ip v) = 4" by (simp add: Uint322ip_def)
  then obtain b0 b1 b2 b3 where b: "Uint322ip v = [b0, b1, b2, b3]" by (rule length_4_cases)
  have d: "is_digit (hd (nat_digits m))" "is_digit (last (nat_digits m))" for m
    using nat_digits_chars [of "hd (nat_digits m)" m] nat_digits_chars [of "last (nat_digits m)" m]
    by simp_all
  have h: "CHR ''#'' \<notin> set (nat_digits m)" for m
    using not_space_digit nat_digits_chars [of "CHR ''#''" m] by blast
  show "dotted (Uint322ip v) \<noteq> []" "is_digit (hd (dotted (Uint322ip v)))"
    "is_digit (last (dotted (Uint322ip v)))" "CHR ''#'' \<notin> set (dotted (Uint322ip v))"
    using d h by (auto simp: dotted_def b hd_append)
qed

lemma exclude_line_address:
  assumes "blanks a" and "blanks b" and "comment c"
  shows "exclude_line (a @ dotted (Uint322ip v) @ b @ c) =
    Some \<lparr>net_ip = v4_prefix @ Uint322ip v, net_mask = cidr_mask 32 32\<rparr>"
proof -
  have l: "length (Uint322ip v) = 4" by (simp add: Uint322ip_def)
  have "strip_comment (a @ dotted (Uint322ip v) @ b @ c) = dotted (Uint322ip v)"
    by (rule strip_comment_entry [OF assms])
      (use dotted_ends [of v] not_space_digit in \<open>auto\<close>)
  then show ?thesis
    using dotted_ends(1) [of v] dotted_no_slash [OF l] parse_ip_dotted [OF l]
    by (simp add: exclude_line_def parse_cidr_def)
qed

lemma net_contains_address:
  "net_contains \<lparr>net_ip = v4_prefix @ Uint322ip v, net_mask = cidr_mask 32 32\<rparr> (Uint322ip w) \<longleftrightarrow> w = v"
proof -
  have z: "cidr_mask 32 32 = be_put_uint32 (NOT 0)" by (simp add: cidr_mask_32)
  show ?thesis unfolding z
    by (auto simp: net_contains_def network_number_and_mask_def to4_def Let_def and_bytes_be_put
        Uint322ip_def)
qed

text \<open>The two forms an IPv4 target has in \<open>Ip_chan\<close>: 4 bytes, or 16 when it was read from a file.\<close>

definition v4_forms :: "u32 \<Rightarrow> ip set" where
  "v4_forms w = {Uint322ip w, v4_prefix @ Uint322ip w}"

lemma Exclude_ips_blocks:
  assumes "l \<in> set (scan_lines txt)" and "exclude_line l = Some n" and "net_contains n (Uint322ip w)"
    and "d \<in> v4_forms w"
  shows "is_blocked (Exclude_ips (\<lambda>_. False) (Some txt)) d"
proof -
  have "length (Uint322ip w) = 4" by (simp add: Uint322ip_def)
  then have "net_contains n d"
    using assms(3,4) by (auto simp: v4_forms_def net_contains_mapped)
  moreover have "n \<in> set (Exclude_ips (\<lambda>_. False) (Some txt))"
    using assms(1,2) by (auto simp: Exclude_ips_def exclude_lines_all)
  ultimately show ?thesis by (auto simp: is_blocked_iff)
qed

subsection \<open>The interface between the sending loop and the table\<close>

text \<open>
  Both scanners take a target, drop it when it is blocked, and otherwise give it the next key,
  enter it in the table and send one packet. \<open>dispatch\<close> is that loop over a sequence of inputs (the
  target with what the environment supplies for it).
\<close>

fun dispatch :: "ipnet list \<Rightarrow> ('i \<Rightarrow> ip) \<Rightarrow> ('i \<Rightarrow> 's \<Rightarrow> 's) \<Rightarrow> 'i list \<Rightarrow> 's \<Rightarrow> 's" where
  "dispatch nets dst send [] s = s"
| "dispatch nets dst send (i # is) s =
     dispatch nets dst send is (if is_blocked nets (dst i) then s else send i s)"

lemma dispatch_fold:
  "dispatch nets dst send is s = fold send (filter (\<lambda>i. \<not> is_blocked nets (dst i)) is) s"
  by (induction "is" arbitrary: s) auto

locale request_table =
  fixes send :: "'i \<Rightarrow> 's \<Rightarrow> 's"
    and dst :: "'i \<Rightarrow> ip"
    and ok :: "'s \<Rightarrow> bool"
    and key :: "'s \<Rightarrow> 'k"
    and items :: "'s \<Rightarrow> ('k \<rightharpoonup> 'v)"
    and entry :: "'s \<Rightarrow> 'i \<Rightarrow> 'v"
    and sent :: "'s \<Rightarrow> ip list"
    and window :: nat
  assumes ok_send: "ok s \<Longrightarrow> ok (send i s)"
    and items_send: "ok s \<Longrightarrow> items (send i s) = (items s)(key s \<mapsto> entry s i)"
    and sent_send: "sent (send i s) = sent s @ [dst i]"
    and key_fresh: "ok s \<Longrightarrow> is \<noteq> [] \<Longrightarrow> length is < window \<Longrightarrow> key (fold send is s) \<noteq> key s"
begin

lemma ok_fold: "ok s \<Longrightarrow> ok (fold send is s)"
  by (induction "is" arbitrary: s) (simp_all add: ok_send)

lemma sent_fold: "sent (fold send is s) = sent s @ map dst is"
  by (induction "is" arbitrary: s) (simp_all add: sent_send)

lemma sent_dispatch:
  "sent (dispatch nets dst send is s) =
     sent s @ filter (\<lambda>a. \<not> is_blocked nets a) (map dst is)"
  by (simp add: dispatch_fold sent_fold filter_map o_def)

lemma excluded_not_sent:
  assumes "l \<in> set (scan_lines txt)" and "exclude_line l = Some n" and "net_contains n (Uint322ip w)"
    and "d \<in> v4_forms w" and "d \<in> set (sent (dispatch (Exclude_ips (\<lambda>_. False) (Some txt)) dst send is s))"
  shows "d \<in> set (sent s)"
  using assms(5) Exclude_ips_blocks [OF assms(1-4)] by (simp add: sent_dispatch)

lemma items_later:
  assumes "ok s" and "k \<notin> key ` (\<lambda>n. fold send (take n is) s) ` {..<length is}"
  shows "items (fold send is s) k = items s k"
  using assms
proof (induction "is" arbitrary: s)
  case Nil
  show ?case by simp
next
  case (Cons i "is")
  have v: "items (send i s) = (items s)(key s \<mapsto> entry s i)" by (rule items_send [OF Cons.prems(1)])
  have "k \<noteq> key s" using Cons.prems(2) by force
  moreover have "k \<notin> key ` (\<lambda>n. fold send (take n is) (send i s)) ` {..<length is}"
    using Cons.prems(2) by (force simp: image_iff)
  ultimately show ?case using Cons.IH [OF ok_send [OF Cons.prems(1)]] v by simp
qed

text \<open>
  Within a window of requests no entry is overwritten: the entry under the key that a request was
  given is still the one that was made for that request.
\<close>

lemma own_entry:
  assumes "ok s" and "n < length is" and "length is \<le> window"
  shows "items (fold send is s) (key (fold send (take n is) s)) = Some (entry (fold send (take n is) s) (is ! n))"
proof -
  let ?s = "fold send (take n is) s" and ?rest = "drop (Suc n) is"
  have "is = take n is @ (is ! n) # ?rest" using assms(2) by (simp add: id_take_nth_drop)
  then have split: "fold send is s = fold send ?rest (send (is ! n) ?s)"
    by (metis fold_append fold_simps(2) comp_apply)
  have ok: "ok ?s" using assms(1) by (rule ok_fold)
  have v: "items (send (is ! n) ?s) = (items ?s)(key ?s \<mapsto> entry ?s (is ! n))" by (rule items_send [OF ok])
  have "key ?s \<notin> key ` (\<lambda>m. fold send (take m ?rest) (send (is ! n) ?s)) ` {..<length ?rest}"
  proof clarify
    fix m assume m: "m < length ?rest" and e: "key ?s = key (fold send (take m ?rest) (send (is ! n) ?s))"
    have "key (fold send (is ! n # take m ?rest) ?s) \<noteq> key ?s"
      by (rule key_fresh [OF ok]) (use m assms(2,3) in simp_all)
    with e show False by simp
  qed
  from items_later [OF ok_send [OF ok] this] v show ?thesis by (simp add: split)
qed

end

subsection \<open>Rendering a result\<close>

text \<open>
  What the code asks of \<open>gopacket\<close>: decoding and encoding a DNS message, and the texts of a
  record, a record type and a port. These are parameters.
\<close>

record gopacket =
  gp_decode :: "u8 list \<Rightarrow> dns_msg option"
  gp_encode :: "dns_msg \<Rightarrow> u8 list"
  gp_rr_str :: "dns_rr \<Rightarrow> string"
  gp_type_str :: "u16 \<Rightarrow> string"
  gp_port_str :: "u16 \<Rightarrow> string"

text \<open>A message shorter than the header of 12 bytes is an error of the decoder.\<close>

definition decode_header :: "gopacket \<Rightarrow> bool" where
  "decode_header gp \<longleftrightarrow> (\<forall>b m. gp_decode gp b = Some m \<longrightarrow> 12 \<le> length b)"

text \<open>
  The format \<open>2006-01-02 15:04:05.000000\<close> of package \<open>time\<close> on a time in UTC: the civil date by
  eras of 400 years (146097 days), years that start in March, and microseconds cut off.
\<close>

definition civil_date :: "int \<Rightarrow> int \<times> int \<times> int" where
  "civil_date days =
     (let z = days + 719468;
          era = z div 146097;
          doe = z mod 146097;
          yoe = (doe - doe div 1460 + doe div 36524 - doe div 146096) div 365;
          doy = doe - (365 * yoe + yoe div 4 - yoe div 100);
          mp = (5 * doy + 2) div 153;
          d = doy - (153 * mp + 2) div 5 + 1;
          m = (if mp < 10 then mp + 3 else mp - 9)
      in (yoe + era * 400 + (if m \<le> 2 then 1 else 0), m, d))"

definition pad :: "nat \<Rightarrow> int \<Rightarrow> string" where
  "pad w i = (let t = nat_digits (nat i) in replicate (w - length t) CHR ''0'' @ t)"

definition format_time :: "time \<Rightarrow> string" where
  "format_time t =
     (let secs = time_Unix t;
          (y, m, d) = civil_date (secs div 86400);
          s = secs mod 86400;
          us = t mod 10 ^ 9 div 1000
      in pad 4 y @ ''-'' @ pad 2 m @ ''-'' @ pad 2 d @ '' '' @
         pad 2 (s div 3600) @ '':'' @ pad 2 (s mod 3600 div 60) @ '':'' @ pad 2 (s mod 60) @
         ''.'' @ pad 6 us)"

lemma format_time_epoch: "format_time 0 = ''1970-01-01 00:00:00.000000''"
  by code_simp

lemma civil_date_leap_day: "civil_date 19782 = (2024, 2, 29)" "civil_date 19783 = (2024, 3, 1)"
  by code_simp+

lemma format_time_zero: "format_time zero_time = ''0001-01-01 00:00:00.000000''"
  by code_simp

end
