(* ===== verification/UdpScanner.thy ===== *)
theory UdpScanner
  imports BaseScanner
begin

section \<open>The UDP scanner (scanner/udp/udp_scanner.go, common/udp_common)\<close>

text \<open>
  A query is identified by its source port and its DNS id. The pair comes from a counter that all
  sending routines share; the open queries are in a table, and a response takes its entry out of
  the table, fills it and puts it on \<open>Write_chan\<close>. Items are pointers in the code, but each has
  one holder at a time, so they are values here.
\<close>

subsection \<open>State\<close>

record synced_init =
  li_id :: u32
  li_port :: u16
  li_dnsid :: u16

record udp_item =
  ui_Id :: u32
  ui_Ts_req :: time
  ui_Ts_resp :: time
  ui_Ip :: ip
  ui_Answerip :: ip
  ui_Port :: u16
  ui_Dnsid :: u16
  ui_Dns_recs :: "dns_rr list"
  ui_Dns_payload_size :: int
  ui_Dns_flags :: u16
  ui_Ttl :: int

type_synonym udp_packet = "ipv4_layer \<times> udp_layer \<times> u8 list"

record udp_state =
  us_loop :: synced_init
  us_items :: "u16 \<times> u16 \<rightharpoonup> udp_item"
  us_write :: "udp_item list"
  us_sent :: "udp_packet list"

definition udp_init :: "Cfg_db \<Rightarrow> udp_state" where
  "udp_init cfg = \<lparr>us_loop = \<lparr>li_id = 0, li_port = Port_min cfg, li_dnsid = 0\<rparr>,
     us_items = Map.empty, us_write = [], us_sent = []\<rparr>"

subsection \<open>The shared counter\<close>

definition update_sync_init :: "Cfg_db \<Rightarrow> synced_init \<Rightarrow> synced_init" where
  "update_sync_init cfg l =
     (let l1 = l\<lparr>li_id := li_id l + 1\<rparr> in
      if (0xFFFF :: u32) < ucast (li_dnsid l1) + 1 then
        (let l2 = l1\<lparr>li_dnsid := 0\<rparr> in
         if (ucast (Port_max cfg) :: u32) < ucast (li_port l2) + 1
         then l2\<lparr>li_port := Port_min cfg\<rparr>
         else l2\<lparr>li_port := li_port l2 + 1\<rparr>)
      else l1\<lparr>li_dnsid := li_dnsid l1 + 1\<rparr>)"

text \<open>The position of a counter in its cycle.\<close>

definition udp_window :: "Cfg_db \<Rightarrow> nat" where
  "udp_window cfg = (unat (Port_max cfg) - unat (Port_min cfg) + 1) * 65536"

definition udp_rank :: "Cfg_db \<Rightarrow> synced_init \<Rightarrow> nat" where
  "udp_rank cfg l = (unat (li_port l) - unat (Port_min cfg)) * 65536 + unat (li_dnsid l)"

definition udp_loop_ok :: "Cfg_db \<Rightarrow> synced_init \<Rightarrow> bool" where
  "udp_loop_ok cfg l \<longleftrightarrow> Port_min cfg \<le> li_port l \<and> li_port l \<le> Port_max cfg"

lemma u16_less: "unat (w :: u16) < 65536"
  using unsigned_less [of w, where ?'a = nat] by simp

lemma unat_ucast_u16 [go_words]: "unat (ucast (w :: u16) :: u32) = unat w"
  using u16_less [of w] by (simp add: unsigned_ucast_eq take_bit_nat_eq_self)

lemma ucast_u16_plus_1 [go_words]: "unat (ucast (w :: u16) + 1 :: u32) = unat w + 1"
  using u16_less [of w] by (simp add: unat_word_ariths unat_ucast_u16)

lemma dnsid_full: "(0xFFFF :: u32) < ucast (w :: u16) + 1 \<longleftrightarrow> unat w = 65535"
  using u16_less [of w] by (auto simp: word_less_nat_alt go_words)

lemma port_full: "(ucast (p :: u16) :: u32) < ucast (w :: u16) + 1 \<longleftrightarrow> unat p \<le> unat w"
  by (auto simp: word_less_nat_alt go_words)

lemma unat_suc_u16: "unat (w :: u16) \<noteq> 65535 \<Longrightarrow> unat (w + 1) = unat w + 1"
  using u16_less [of w] by (simp add: unat_word_ariths)

lemma update_sync_init_cases:
  "update_sync_init cfg l =
     (if unat (li_dnsid l) = 65535 then
        \<lparr>li_id = li_id l + 1, li_port = (if unat (Port_max cfg) \<le> unat (li_port l) then Port_min cfg
            else li_port l + 1), li_dnsid = 0\<rparr>
      else \<lparr>li_id = li_id l + 1, li_port = li_port l, li_dnsid = li_dnsid l + 1\<rparr>)"
  by (simp add: update_sync_init_def Let_def dnsid_full port_full)

lemma update_sync_init_id [simp]: "li_id (update_sync_init cfg l) = li_id l + 1"
  by (simp add: update_sync_init_cases)

lemma update_sync_init_ok:
  assumes "udp_loop_ok cfg l" shows "udp_loop_ok cfg (update_sync_init cfg l)"
proof -
  have "unat (li_port l + 1) = unat (li_port l) + 1" if "\<not> unat (Port_max cfg) \<le> unat (li_port l)"
    using that u16_less [of "Port_max cfg"] by (intro unat_suc_u16) simp
  then show ?thesis
    using assms by (auto simp: update_sync_init_cases udp_loop_ok_def word_le_nat_alt)
qed

text \<open>One call moves the position by one, around the whole range of ports and ids.\<close>

lemma udp_rank_step:
  assumes "udp_loop_ok cfg l"
  shows "udp_rank cfg (update_sync_init cfg l) = (udp_rank cfg l + 1) mod udp_window cfg"
proof -
  let ?lo = "unat (Port_min cfg)" and ?hi = "unat (Port_max cfg)" and ?p = "unat (li_port l)"
  have r: "?lo \<le> ?p" "?p \<le> ?hi" using assms by (auto simp: udp_loop_ok_def word_le_nat_alt)
  have w: "udp_window cfg = (?hi - ?lo) * 65536 + 65536" by (simp add: udp_window_def)
  show ?thesis
  proof (cases "unat (li_dnsid l) = 65535")
    case False
    then have d: "unat (li_dnsid l + 1) = unat (li_dnsid l) + 1" "unat (li_dnsid l) + 1 < 65536"
      using u16_less [of "li_dnsid l"] by (simp_all add: unat_suc_u16)
    have "(?p - ?lo) * 65536 \<le> (?hi - ?lo) * 65536" using r by (intro mult_right_mono) simp_all
    then have "udp_rank cfg l + 1 < udp_window cfg" using d(2) by (simp add: udp_rank_def w)
    then show ?thesis using False d(1) by (simp add: update_sync_init_cases udp_rank_def)
  next
    case True
    show ?thesis
    proof (cases "?hi \<le> ?p")
      case True
      then have "?p = ?hi" using r by simp
      then show ?thesis using \<open>unat (li_dnsid l) = 65535\<close>
        by (simp add: update_sync_init_cases udp_rank_def w add.commute [of 65536])
    next
      case False
      then have p: "unat (li_port l + 1) = ?p + 1"
        using u16_less [of "Port_max cfg"] by (intro unat_suc_u16) simp
      have "(?p + 1 - ?lo) * 65536 \<le> (?hi - ?lo) * 65536" using False by (intro mult_right_mono) simp_all
      then have "udp_rank cfg l + 1 < udp_window cfg"
        using True r by (simp add: udp_rank_def w algebra_simps)
      moreover have "udp_rank cfg (update_sync_init cfg l) = udp_rank cfg l + 1"
        using True False p r by (simp add: update_sync_init_cases udp_rank_def Suc_diff_le)
      ultimately show ?thesis by simp
    qed
  qed
qed

lemma udp_iter_ok: "udp_loop_ok cfg l \<Longrightarrow> udp_loop_ok cfg ((update_sync_init cfg ^^ n) l)"
  by (induction n) (simp_all add: update_sync_init_ok)

lemma udp_rank_less:
  assumes "udp_loop_ok cfg l" shows "udp_rank cfg l < udp_window cfg"
proof -
  have "unat (Port_min cfg) \<le> unat (li_port l)" "unat (li_port l) \<le> unat (Port_max cfg)"
    using assms by (auto simp: udp_loop_ok_def word_le_nat_alt)
  then have "(unat (li_port l) - unat (Port_min cfg)) * 65536 \<le>
      (unat (Port_max cfg) - unat (Port_min cfg)) * 65536"
    by (intro mult_right_mono) simp_all
  then show ?thesis using u16_less [of "li_dnsid l"] by (simp add: udp_rank_def udp_window_def)
qed

lemma udp_rank_iter:
  assumes "udp_loop_ok cfg l"
  shows "udp_rank cfg ((update_sync_init cfg ^^ n) l) = (udp_rank cfg l + n) mod udp_window cfg"
proof (induction n)
  case 0
  show ?case using udp_rank_less [OF assms] by simp
next
  case (Suc n)
  then show ?case
    using udp_rank_step [OF udp_iter_ok [OF assms, of n]] by (simp add: mod_Suc_eq)
qed

definition udp_key :: "synced_init \<Rightarrow> u16 \<times> u16" where
  "udp_key l = (li_port l, li_dnsid l)"

text \<open>So a key comes back after \<open>udp_window\<close> calls and not before.\<close>

lemma udp_key_fresh:
  assumes "udp_loop_ok cfg l" and "0 < n" and "n < udp_window cfg"
  shows "udp_key ((update_sync_init cfg ^^ n) l) \<noteq> udp_key l"
proof
  assume "udp_key ((update_sync_init cfg ^^ n) l) = udp_key l"
  then have "udp_rank cfg ((update_sync_init cfg ^^ n) l) = udp_rank cfg l"
    by (simp add: udp_key_def udp_rank_def)
  then have e: "(udp_rank cfg l + n) mod udp_window cfg = udp_rank cfg l"
    using udp_rank_iter [OF assms(1), of n] by simp
  have "udp_rank cfg l < udp_window cfg" by (rule udp_rank_less [OF assms(1)])
  then have "(udp_rank cfg l + n) mod udp_window cfg =
      (if udp_rank cfg l + n < udp_window cfg then udp_rank cfg l + n
       else udp_rank cfg l + n - udp_window cfg)"
    using assms(3) by (simp add: mod_if)
  with e assms(2,3) show False by (auto split: if_splits)
qed

subsection \<open>Building and sending a query (udp_sender.go)\<close>

definition udp_DNS_type :: "Cfg_db \<Rightarrow> u16 option" where
  "udp_DNS_type cfg =
     (if Dns_query_type cfg = ''A'' then Some DNSTypeA
      else if Dns_query_type cfg = ''AAAA'' then Some DNSTypeAAAA
      else if Dns_query_type cfg = ''DNSKEY'' then Some DNSTypeDNSKEY
      else if Dns_query_type cfg = ''ANY'' then Some DNSTypeANY
      else if Dns_query_type cfg = ''TXT'' then Some DNSTypeTXT
      else None)"

definition opt_record :: "Cfg_db \<Rightarrow> dns_rr" where
  "opt_record cfg = \<lparr>rr_Type = DNSTypeOPT, rr_Class = 4096,
     rr_TTL = (if Dnssec_enabled cfg then push_bit 15 1 else 0), rr_IP = [], rr_Data = None\<rparr>"

definition udp_query_msg :: "Cfg_db \<Rightarrow> u16 \<Rightarrow> u16 \<Rightarrow> string \<Rightarrow> dns_msg" where
  "udp_query_msg cfg dns_type dnsid query =
     (let dns = \<lparr>dns_ID = dnsid, dns_RD = True, dns_OpCode = 0, dns_ResponseCode = 0,
                 dns_QDCount = 1, dns_ARCount = 0,
                 dns_Questions = [\<lparr>q_Name = query, q_Type = dns_type, q_Class = DNSClassIN\<rparr>],
                 dns_Answers = [], dns_Additionals = []\<rparr>
      in if EDNS0_enabled cfg \<or> Dnssec_enabled cfg
         then dns\<lparr>dns_Additionals := [opt_record cfg], dns_ARCount := 1\<rparr> else dns)"

definition Build_dns ::
  "Cfg_db \<Rightarrow> gopacket \<Rightarrow> u16 \<Rightarrow> u16 \<Rightarrow> ip \<Rightarrow> u16 \<Rightarrow> u16 \<Rightarrow> string \<Rightarrow> udp_packet" where
  "Build_dns cfg gp dns_type rnd dst_ip src_port dnsid query =
     (\<lparr>ip_TTL = 64, ip_SrcIP = parse_ip (Iface_ip cfg), ip_DstIP = dst_ip,
        ip_Protocol = IPProtocolUDP, ip_Id = rnd\<rparr>,
      \<lparr>udp_SrcPort = src_port, udp_DstPort = Dst_port cfg\<rparr>,
      gp_encode gp (udp_query_msg cfg dns_type dnsid query))"

definition new_udp_item :: "u32 \<Rightarrow> time \<Rightarrow> ip \<Rightarrow> u16 \<Rightarrow> u16 \<Rightarrow> udp_item" where
  "new_udp_item i now dst_ip src_port dnsid =
     \<lparr>ui_Id = i, ui_Ts_req = now, ui_Ts_resp = zero_time, ui_Ip = dst_ip, ui_Answerip = [],
      ui_Port = src_port, ui_Dnsid = dnsid, ui_Dns_recs = [], ui_Dns_payload_size = 0,
      ui_Dns_flags = 0, ui_Ttl = 0\<rparr>"

text \<open>What the environment supplies for one send: the target, the clock and the random IP id.\<close>

record udp_input =
  in_dst :: ip
  in_now :: time
  in_rnd :: u16

definition send_dns ::
  "Cfg_db \<Rightarrow> gopacket \<Rightarrow> u16 \<Rightarrow> u32 \<Rightarrow> u16 \<Rightarrow> u16 \<Rightarrow> udp_input \<Rightarrow> udp_state \<Rightarrow> udp_state" where
  "send_dns cfg gp dns_type i src_port dnsid inp s =
     s\<lparr>us_items := (us_items s)((src_port, dnsid) \<mapsto> new_udp_item i (in_now inp) (in_dst inp) src_port dnsid),
       us_sent := us_sent s @ [Build_dns cfg gp dns_type (in_rnd inp) (in_dst inp) src_port dnsid (Dns_query cfg)]\<rparr>"

text \<open>The branch of \<open>init_udp\<close> for a target: the first definition is the part after the blocklist.\<close>

definition udp_send :: "Cfg_db \<Rightarrow> gopacket \<Rightarrow> u16 \<Rightarrow> udp_input \<Rightarrow> udp_state \<Rightarrow> udp_state" where
  "udp_send cfg gp dns_type inp s =
     (let l = update_sync_init cfg (us_loop s)
      in send_dns cfg gp dns_type (li_id l) (li_port l) (li_dnsid l) inp (s\<lparr>us_loop := l\<rparr>))"

definition init_udp :: "Cfg_db \<Rightarrow> gopacket \<Rightarrow> u16 \<Rightarrow> ipnet list \<Rightarrow> udp_input list \<Rightarrow> udp_state \<Rightarrow> udp_state" where
  "init_udp cfg gp dns_type nets = dispatch nets in_dst (udp_send cfg gp dns_type)"

definition sent_to :: "udp_state \<Rightarrow> ip list" where
  "sent_to s = map (\<lambda>(ipl, _, _). ip_DstIP ipl) (us_sent s)"

definition next_key :: "Cfg_db \<Rightarrow> udp_state \<Rightarrow> u16 \<times> u16" where
  "next_key cfg s = udp_key (update_sync_init cfg (us_loop s))"

subsection \<open>Handling a response\<close>

text \<open>A packet as \<open>Handle_pkt\<close> sees it: the UDP layer, its payload, and whether there is an application layer.\<close>

record udp_rx =
  rx_udp :: "udp_layer option"
  rx_app :: bool
  rx_payload :: "u8 list"

definition fill_udp_item ::
  "time \<Rightarrow> ip \<Rightarrow> dns_msg \<Rightarrow> u8 list \<Rightarrow> udp_item \<Rightarrow> udp_item outcome" where
  "fill_udp_item now src dns pld it =
     (let it1 = it\<lparr>ui_Answerip := src, ui_Ts_resp := now\<rparr>;
          it2 = (case dns_Answers dns of
                   [] \<Rightarrow> it1
                 | a # _ \<Rightarrow> it1\<lparr>ui_Dns_recs := ui_Dns_recs it1 @ dns_Answers dns,
                                ui_Ttl := uint (rr_TTL a)\<rparr>)
      in bindO (index pld 2) (\<lambda>b2. bindO (index pld 3) (\<lambda>b3.
           Ret (it2\<lparr>ui_Dns_flags := push_bit 8 (ucast b2) OR ucast b3,
                    ui_Dns_payload_size := int (length pld)\<rparr>))))"

definition udp_Handle_pkt ::
  "Cfg_db \<Rightarrow> gopacket \<Rightarrow> time \<Rightarrow> ipv4_layer \<Rightarrow> udp_rx \<Rightarrow> udp_state \<Rightarrow> udp_state outcome" where
  "udp_Handle_pkt cfg gp now ipl rx s =
     (case rx_udp rx of
        None \<Rightarrow> Ret s
      | Some udp \<Rightarrow>
          if udp_SrcPort udp \<noteq> Dst_port cfg then Ret s
          else if rx_app rx then
            (case gp_decode gp (rx_payload rx) of
               None \<Rightarrow> Ret s
             | Some dns \<Rightarrow>
                 (let k = (udp_DstPort udp, dns_ID dns) in
                  case us_items s k of
                    None \<Rightarrow> Ret s
                  | Some it \<Rightarrow>
                      bindO (fill_udp_item now (ip_SrcIP ipl) dns (rx_payload rx) it) (\<lambda>it'.
                        Ret (s\<lparr>us_items := (us_items s)(k := None),
                               us_write := us_write s @ [it']\<rparr>))))
          else Ret s)"

definition udp_timeout :: "(u16 \<times> u16 \<Rightarrow> time) \<Rightarrow> udp_state \<Rightarrow> udp_state" where
  "udp_timeout now s = s\<lparr>us_items := Timeout_sweep now ui_Ts_req (us_items s)\<rparr>"

subsection \<open>Writing a result\<close>

definition ends_comma :: "nat \<Rightarrow> 'a list \<Rightarrow> string" where
  "ends_comma i xs = (if i \<noteq> length xs - 1 then '','' else [])"

definition arecords :: "gopacket \<Rightarrow> dns_rr list \<Rightarrow> string" where
  "arecords gp recs = concat (map (\<lambda>(i, rr). if rr_Type rr = DNSTypeA
     then gp_rr_str gp rr @ ends_comma i recs else []) (zip [0..<length recs] recs))"

text \<open>\<open>base64.StdEncoding\<close>.\<close>

definition b64_char :: "nat \<Rightarrow> char" where
  "b64_char n = (if n < 26 then char_of (65 + n) else if n < 52 then char_of (71 + n)
     else if n < 62 then char_of (n - 4) else if n = 62 then CHR ''+'' else CHR ''/'')"

fun b64_encode :: "u8 list \<Rightarrow> string" where
  "b64_encode [] = []"
| "b64_encode [a] = [b64_char (unat a div 4), b64_char (unat a mod 4 * 16), CHR ''='', CHR ''='']"
| "b64_encode [a, b] =
     [b64_char (unat a div 4), b64_char (unat a mod 4 * 16 + unat b div 16),
      b64_char (unat b mod 16 * 4), CHR ''='']"
| "b64_encode (a # b # c # r) =
     [b64_char (unat a div 4), b64_char (unat a mod 4 * 16 + unat b div 16),
      b64_char (unat b mod 16 * 4 + unat c div 64), b64_char (unat c mod 64)] @ b64_encode r"

definition dns_recs_str :: "gopacket \<Rightarrow> dns_rr list \<Rightarrow> string" where
  "dns_recs_str gp recs = concat (map (\<lambda>(i, rr). case rr_Data rr of None \<Rightarrow> []
     | Some d \<Rightarrow> gp_type_str gp (rr_Type rr) @ ''-'' @ b64_encode d @ ends_comma i recs)
     (zip [0..<length recs] recs))"

definition udp_scan_item_to_strarr :: "Cfg_db \<Rightarrow> gopacket \<Rightarrow> udp_item \<Rightarrow> string list" where
  "udp_scan_item_to_strarr cfg gp it =
     [itoa (uint (ui_Id it)), ip_string (ui_Ip it), ip_string (ui_Answerip it),
      (if Dns_query_type cfg = ''A'' then arecords gp (ui_Dns_recs it) else []),
      format_time (ui_Ts_req it), format_time (ui_Ts_resp it), gp_port_str gp (ui_Port it),
      itoa (uint (ui_Dnsid it)), itoa (ui_Dns_payload_size it),
      (if Log_dnsrecs cfg then dns_recs_str gp (ui_Dns_recs it) else []),
      itoa (uint (ui_Dns_flags it)), itoa (ui_Ttl it)]"

text \<open>The argument that \<open>Start_scan\<close> uses: the code tests the length of another list.\<close>

definition udp_start_arg :: "string list \<Rightarrow> string list \<Rightarrow> string option outcome" where
  "udp_start_arg os_args args =
     (if length os_args < 2 then Ret None else bindO (index args 0) (\<lambda>a. Ret (Some a)))"

subsection \<open>The scanner provides the interface of \<open>BaseScanner\<close>\<close>

lemma udp_send_simps [simp]:
  "us_loop (udp_send cfg gp t i s) = update_sync_init cfg (us_loop s)"
  "us_items (udp_send cfg gp t i s) = (us_items s)(next_key cfg s \<mapsto>
     new_udp_item (li_id (us_loop s) + 1) (in_now i) (in_dst i) (fst (next_key cfg s)) (snd (next_key cfg s)))"
  "us_write (udp_send cfg gp t i s) = us_write s"
  "us_sent (udp_send cfg gp t i s) = us_sent s @ [Build_dns cfg gp t (in_rnd i) (in_dst i)
     (fst (next_key cfg s)) (snd (next_key cfg s)) (Dns_query cfg)]"
  by (simp_all add: udp_send_def send_dns_def Let_def next_key_def udp_key_def)

lemma us_loop_fold: "us_loop (fold (udp_send cfg gp t) is s) = (update_sync_init cfg ^^ length is) (us_loop s)"
  by (induction "is" arbitrary: s) (simp_all add: funpow_swap1)

definition udp_entry :: "Cfg_db \<Rightarrow> udp_state \<Rightarrow> udp_input \<Rightarrow> udp_item" where
  "udp_entry cfg s i = new_udp_item (li_id (us_loop s) + 1) (in_now i) (in_dst i)
     (fst (next_key cfg s)) (snd (next_key cfg s))"

interpretation udp: request_table "udp_send cfg gp t" in_dst "\<lambda>s. udp_loop_ok cfg (us_loop s)"
  "next_key cfg" us_items "udp_entry cfg" sent_to "udp_window cfg" for cfg gp t
proof unfold_locales
  fix s :: udp_state and i assume "udp_loop_ok cfg (us_loop s)"
  then show "udp_loop_ok cfg (us_loop (udp_send cfg gp t i s))" by (simp add: update_sync_init_ok)
next
  fix s :: udp_state and i
  show "us_items (udp_send cfg gp t i s) = (us_items s)(next_key cfg s \<mapsto> udp_entry cfg s i)"
    by (simp add: udp_entry_def)
next
  fix s :: udp_state and i
  show "sent_to (udp_send cfg gp t i s) = sent_to s @ [in_dst i]"
    by (simp add: sent_to_def Build_dns_def)
next
  fix s :: udp_state and "is" :: "udp_input list"
  assume ok: "udp_loop_ok cfg (us_loop s)" and l: "is \<noteq> []" "length is < udp_window cfg"
  have "next_key cfg (fold (udp_send cfg gp t) is s) =
      udp_key ((update_sync_init cfg ^^ length is) (update_sync_init cfg (us_loop s)))"
    by (simp add: next_key_def us_loop_fold funpow_swap1)
  also have "\<dots> \<noteq> udp_key (update_sync_init cfg (us_loop s))"
    by (rule udp_key_fresh) (use ok l in \<open>simp_all add: update_sync_init_ok\<close>)
  finally show "next_key cfg (fold (udp_send cfg gp t) is s) \<noteq> next_key cfg s"
    by (simp add: next_key_def)
qed

lemma udp_init_simps [simp]:
  "us_loop (udp_init cfg) = \<lparr>li_id = 0, li_port = Port_min cfg, li_dnsid = 0\<rparr>"
  "us_items (udp_init cfg) = Map.empty" "us_write (udp_init cfg) = []" "us_sent (udp_init cfg) = []"
  "sent_to (udp_init cfg) = []"
  by (simp_all add: udp_init_def sent_to_def)

lemma udp_init_ok: "Port_min cfg \<le> Port_max cfg \<Longrightarrow> udp_loop_ok cfg (us_loop (udp_init cfg))"
  by (simp add: udp_loop_ok_def)

lemma us_sent_length: "length (us_sent (fold (udp_send cfg gp t) is s)) = length (us_sent s) + length is"
  by (induction "is" arbitrary: s) simp_all

lemma us_sent_nth:
  assumes "n < length is"
  shows "us_sent (fold (udp_send cfg gp t) is s) ! (length (us_sent s) + n) =
    (let k = next_key cfg (fold (udp_send cfg gp t) (take n is) s)
     in Build_dns cfg gp t (in_rnd (is ! n)) (in_dst (is ! n)) (fst k) (snd k) (Dns_query cfg))"
  using assms
proof (induction "is" arbitrary: n rule: rev_induct)
  case Nil
  then show ?case by simp
next
  case (snoc i "is")
  show ?case
  proof (cases "n = length is")
    case True
    then show ?thesis by (simp add: Let_def nth_append us_sent_length)
  next
    case False
    then have "n < length is" using snoc.prems by simp
    with snoc.IH [OF this] show ?thesis by (simp add: Let_def nth_append us_sent_length)
  qed
qed

lemma li_id_iter: "li_id ((update_sync_init cfg ^^ n) l) = li_id l + of_nat n"
  by (induction n) simp_all

text \<open>A filled item: the flags are the third and fourth byte of the message, the TTL that of the first answer.\<close>

definition filled_item :: "time \<Rightarrow> ip \<Rightarrow> dns_msg \<Rightarrow> u8 list \<Rightarrow> udp_item \<Rightarrow> udp_item" where
  "filled_item now src dns pld it =
     \<lparr>ui_Id = ui_Id it, ui_Ts_req = ui_Ts_req it, ui_Ts_resp = now, ui_Ip = ui_Ip it, ui_Answerip = src,
      ui_Port = ui_Port it, ui_Dnsid = ui_Dnsid it, ui_Dns_recs = ui_Dns_recs it @ dns_Answers dns,
      ui_Dns_payload_size = int (length pld),
      ui_Dns_flags = push_bit 8 (ucast (pld ! 2)) OR ucast (pld ! 3),
      ui_Ttl = (case dns_Answers dns of [] \<Rightarrow> ui_Ttl it | a # _ \<Rightarrow> uint (rr_TTL a))\<rparr>"

lemma fill_udp_item_Ret:
  assumes "4 \<le> length pld"
  shows "fill_udp_item now src dns pld it = Ret (filled_item now src dns pld it)"
  using assms by (auto simp: fill_udp_item_def filled_item_def Let_def index_def split: list.splits)

text \<open>
  What the code relies on in \<open>gopacket\<close>: the decoder rejects a message without a full header, and
  it reads back the id of a query that the encoder wrote.
\<close>

definition query_codec :: "Cfg_db \<Rightarrow> gopacket \<Rightarrow> u16 \<Rightarrow> bool" where
  "query_codec cfg gp t \<longleftrightarrow> decode_header gp \<and>
     (\<forall>i. map_option dns_ID (gp_decode gp (gp_encode gp (udp_query_msg cfg t i (Dns_query cfg)))) = Some i)"

subsection \<open>Properties of sending and of a response\<close>

text \<open>
  A line of the exclusion file that names a network, or a single IPv4 address, with blanks around it
  and a comment behind it; the members of a line are the addresses that it names.
\<close>

datatype excl_entry = Network u32 nat | Single u32

definition entry_text :: "excl_entry \<Rightarrow> string" where
  "entry_text e = (case e of Network v n \<Rightarrow> cidr_text v n | Single v \<Rightarrow> dotted (Uint322ip v))"

definition entry_members :: "excl_entry \<Rightarrow> u32 set" where
  "entry_members e = (case e of Network v n \<Rightarrow> {w. net_contains (cidr_net v n) (Uint322ip w)} | Single v \<Rightarrow> {v})"

definition entry_ok :: "excl_entry \<Rightarrow> bool" where
  "entry_ok e = (case e of Network v n \<Rightarrow> n \<le> 32 | Single v \<Rightarrow> True)"

lemma exclude_line_entry:
  assumes "blanks a" "blanks b" "comment c" and "entry_ok e"
  shows "\<exists>n. exclude_line (a @ entry_text e @ b @ c) = Some n \<and>
    (\<forall>w \<in> entry_members e. net_contains n (Uint322ip w))"
  using exclude_line_cidr [OF assms(1-3)] exclude_line_address [OF assms(1-3)] net_contains_address assms(4)
  by (cases e) (simp_all add: entry_text_def entry_members_def entry_ok_def)

text \<open>
  C21. The UDP scan sends to every target that the exclusion list does not block, in order, and to no
  other: in particular no packet goes to a member of a network, or to the single IPv4 address, that a
  line of the exclusion file names (with blanks around it and a comment behind it), in either byte
  form of the address. Single IPv6 addresses are not among the entries: for them the code makes a
  network that contains nothing.
\<close>

theorem udp_respects_exclusions:
  assumes "a @ entry_text e @ b @ c \<in> set (scan_lines txt)" and "blanks a" "blanks b" "comment c"
    and "entry_ok e"
  shows "sent_to (init_udp cfg gp t (Exclude_ips (\<lambda>_. False) (Some txt)) inputs (udp_init cfg)) =
      filter (\<lambda>d. \<not> is_blocked (Exclude_ips (\<lambda>_. False) (Some txt)) d) (map in_dst inputs) \<and>
    (\<forall>w d. w \<in> entry_members e \<and> d \<in> v4_forms w \<longrightarrow>
      d \<notin> set (sent_to (init_udp cfg gp t (Exclude_ips (\<lambda>_. False) (Some txt)) inputs (udp_init cfg))))"
proof (intro conjI allI impI)
  show "sent_to (init_udp cfg gp t (Exclude_ips (\<lambda>_. False) (Some txt)) inputs (udp_init cfg)) =
      filter (\<lambda>d. \<not> is_blocked (Exclude_ips (\<lambda>_. False) (Some txt)) d) (map in_dst inputs)"
    by (simp only: init_udp_def udp.sent_dispatch udp_init_simps append_Nil)
next
  fix w d assume wd: "w \<in> entry_members e \<and> d \<in> v4_forms w"
  obtain n where n: "exclude_line (a @ entry_text e @ b @ c) = Some n"
    "\<forall>w \<in> entry_members e. net_contains n (Uint322ip w)"
    using exclude_line_entry [OF assms(2-5)] by blast
  show "d \<notin> set (sent_to (init_udp cfg gp t (Exclude_ips (\<lambda>_. False) (Some txt)) inputs (udp_init cfg)))"
    using udp.excluded_not_sent [OF assms(1) n(1), of w d cfg gp t inputs "udp_init cfg"] n(2) wd
    by (auto simp: init_udp_def)
qed

definition ex_excl :: string where
  "ex_excl = ''  10.0.0.0/8 # private'' @ [CHR 10] @ ''192.0.2.7''"

lemma udp_respects_exclusions_witness:
  "\<forall>cfg gp t inputs. Uint322ip 0x0A010203 \<notin> set (sent_to (init_udp cfg gp t
      (Exclude_ips (\<lambda>_. False) (Some ex_excl)) inputs (udp_init cfg))) \<and>
    Uint322ip 0xC0000207 \<notin> set (sent_to (init_udp cfg gp t
      (Exclude_ips (\<lambda>_. False) (Some ex_excl)) inputs (udp_init cfg)))"
proof (intro allI conjI)
  fix cfg gp t inputs
  have d: "entry_text (Network 0x0A000000 8) = ''10.0.0.0/8''" "entry_text (Single 0xC0000207) = ''192.0.2.7''"
    by code_simp+
  have l: "''  '' @ entry_text (Network 0x0A000000 8) @ '' '' @ ''# private'' \<in> set (scan_lines ex_excl)"
    "[] @ entry_text (Single 0xC0000207) @ [] @ [] \<in> set (scan_lines ex_excl)"
    unfolding d by code_simp+
  have c: "blanks ''  ''" "blanks '' ''" "comment ''# private''" "blanks []" "comment []"
    by (simp_all add: blanks_def is_space_def comment_def)
  have "\<forall>w d. w \<in> entry_members (Network 0x0A000000 8) \<and> d \<in> v4_forms w \<longrightarrow>
      d \<notin> set (sent_to (init_udp cfg gp t (Exclude_ips (\<lambda>_. False) (Some ex_excl)) inputs (udp_init cfg)))"
    by (rule udp_respects_exclusions [OF l(1) c(1-3), THEN conjunct2]) (simp add: entry_ok_def)
  moreover have "net_contains (cidr_net 0x0A000000 8) (Uint322ip 0x0A010203)" by code_simp
  ultimately show "Uint322ip 0x0A010203 \<notin> set (sent_to (init_udp cfg gp t
     (Exclude_ips (\<lambda>_. False) (Some ex_excl)) inputs (udp_init cfg)))"
    unfolding v4_forms_def entry_members_def by auto
  have "\<forall>w d. w \<in> entry_members (Single 0xC0000207) \<and> d \<in> v4_forms w \<longrightarrow>
      d \<notin> set (sent_to (init_udp cfg gp t (Exclude_ips (\<lambda>_. False) (Some ex_excl)) inputs (udp_init cfg)))"
    by (rule udp_respects_exclusions [OF l(2) c(4,4,5), THEN conjunct2]) (simp add: entry_ok_def)
  then show "Uint322ip 0xC0000207 \<notin> set (sent_to (init_udp cfg gp t
     (Exclude_ips (\<lambda>_. False) (Some ex_excl)) inputs (udp_init cfg)))"
    unfolding v4_forms_def entry_members_def by auto
qed

text \<open>
  C22. A response is credited to the query it answers: as long as at most 65536 queries per port of
  the configured range were sent, a DNS response that comes to the port and with the id of the
  \<open>n\<close>-th query yields exactly one result, and the entry is gone from the table. The result has the
  number, the target, the time, the port and the id of that query, and is filled in from the
  response: its sender, the time it came, its answers, its size, the TTL of its first answer (0 when
  there is none) and the two bytes of its flags.
\<close>

theorem udp_response_attributed:
  assumes "Port_min cfg \<le> Port_max cfg" and "query_codec cfg gp t"
    and "length inputs \<le> udp_window cfg" and "s = init_udp cfg gp t nets inputs (udp_init cfg)"
    and "n < length (us_sent s)" and "us_sent s ! n = (qip, qudp, qpld)"
    and "gp_decode gp qpld = Some q"
    and "rx_udp rx = Some rudp" and "rx_app rx" and "udp_SrcPort rudp = Dst_port cfg"
    and "gp_decode gp (rx_payload rx) = Some dns"
    and "udp_DstPort rudp = udp_SrcPort qudp" and "dns_ID dns = dns_ID q"
  shows "udp_Handle_pkt cfg gp now rip rx s = Ret (s\<lparr>
      us_items := (us_items s)((udp_DstPort rudp, dns_ID dns) := None),
      us_write := us_write s @
        [\<lparr>ui_Id = of_nat (Suc n),
          ui_Ts_req = in_now (filter (\<lambda>i. \<not> is_blocked nets (in_dst i)) inputs ! n), ui_Ts_resp = now,
          ui_Ip = ip_DstIP qip, ui_Answerip = ip_SrcIP rip,
          ui_Port = udp_SrcPort qudp, ui_Dnsid = dns_ID q, ui_Dns_recs = dns_Answers dns,
          ui_Dns_payload_size = int (length (rx_payload rx)),
          ui_Dns_flags = push_bit 8 (ucast (rx_payload rx ! 2)) OR ucast (rx_payload rx ! 3),
          ui_Ttl = (case dns_Answers dns of [] \<Rightarrow> 0 | a # _ \<Rightarrow> uint (rr_TTL a))\<rparr>]\<rparr>)"
proof -
  define ins where "ins = filter (\<lambda>i. \<not> is_blocked nets (in_dst i)) inputs"
  have s: "s = fold (udp_send cfg gp t) ins (udp_init cfg)"
    using assms(4) by (simp add: init_udp_def dispatch_fold ins_def)
  have n: "n < length ins" using assms(5) us_sent_length [of cfg gp t ins "udp_init cfg"] by (simp add: s)
  have w: "length ins \<le> udp_window cfg"
    using assms(3) length_filter_le order_trans unfolding ins_def by blast
  define s0 where "s0 = fold (udp_send cfg gp t) (take n ins) (udp_init cfg)"
  define k where "k = next_key cfg s0"
  have id: "li_id (us_loop s0) = of_nat n" using n by (simp add: s0_def us_loop_fold li_id_iter)
  have it: "us_items s k = Some (udp_entry cfg s0 (ins ! n))"
    using udp.own_entry [OF udp_init_ok [OF assms(1)] n w] by (simp add: s k_def s0_def)
  have "(qip, qudp, qpld) = Build_dns cfg gp t (in_rnd (ins ! n)) (in_dst (ins ! n)) (fst k) (snd k) (Dns_query cfg)"
    using us_sent_nth [OF n, of cfg gp t "udp_init cfg"] assms(6) by (simp add: s k_def s0_def Let_def)
  then have q: "ip_DstIP qip = in_dst (ins ! n)" "udp_SrcPort qudp = fst k"
      "qpld = gp_encode gp (udp_query_msg cfg t (snd k) (Dns_query cfg))"
    by (simp_all add: Build_dns_def)
  have i: "dns_ID q = snd k" using assms(2,7) unfolding query_codec_def q(3)
    by (metis option.inject option.simps(9))
  then have k: "(udp_DstPort rudp, dns_ID dns) = k" using assms(12,13) q(2) by simp
  have "4 \<le> length (rx_payload rx)"
    using assms(2,11) by (fastforce simp: query_codec_def decode_header_def)
  then have "udp_Handle_pkt cfg gp now rip rx s = Ret (s\<lparr>us_items := (us_items s)(k := None),
      us_write := us_write s @ [filled_item now (ip_SrcIP rip) dns (rx_payload rx) (udp_entry cfg s0 (ins ! n))]\<rparr>)"
    using assms(8-11) it k by (simp add: udp_Handle_pkt_def Let_def fill_udp_item_Ret)
  moreover have "filled_item now src dns pld (udp_entry cfg s0 (ins ! n)) =
      \<lparr>ui_Id = of_nat (Suc n), ui_Ts_req = in_now (ins ! n), ui_Ts_resp = now,
        ui_Ip = ip_DstIP qip, ui_Answerip = src,
        ui_Port = udp_SrcPort qudp, ui_Dnsid = dns_ID q, ui_Dns_recs = dns_Answers dns,
        ui_Dns_payload_size = int (length pld),
        ui_Dns_flags = push_bit 8 (ucast (pld ! 2)) OR ucast (pld ! 3),
        ui_Ttl = (case dns_Answers dns of [] \<Rightarrow> 0 | a # _ \<Rightarrow> uint (rr_TTL a))\<rparr>" for src pld
    by (simp add: filled_item_def udp_entry_def new_udp_item_def id q(1,2) i k_def split: list.split)
  ultimately show ?thesis unfolding k ins_def by simp
qed

text \<open>A codec that satisfies the hypotheses: it writes and reads the id and ignores the rest.\<close>

definition ex_msg :: "u16 \<Rightarrow> dns_msg" where
  "ex_msg i = \<lparr>dns_ID = i, dns_RD = True, dns_OpCode = 0, dns_ResponseCode = 0, dns_QDCount = 1,
     dns_ARCount = 0, dns_Questions = [], dns_Answers = [], dns_Additionals = []\<rparr>"

definition ex_gp :: gopacket where
  "ex_gp = \<lparr>gp_decode = (\<lambda>b. if length b < 12 then None
       else (case be_uint16 b of Ret i \<Rightarrow> Some (ex_msg i) | Panic _ \<Rightarrow> None)),
     gp_encode = (\<lambda>m. [ucast (drop_bit 8 (dns_ID m)), ucast (dns_ID m)] @ replicate 10 0),
     gp_rr_str = (\<lambda>_. []), gp_type_str = (\<lambda>_. []), gp_port_str = (\<lambda>p. nat_digits (unat p))\<rparr>"

lemma be_uint16_split: "be_uint16 (ucast (drop_bit 8 i) # ucast i # r) = Ret i"
proof -
  have "(ucast (ucast i :: u8) OR push_bit 8 (ucast (ucast (drop_bit 8 i) :: u8)) :: u16) = i"
  proof (rule bit_word_eqI)
    fix n assume "n < LENGTH(16)"
    then consider "n < 8" | "8 \<le> n" "n < 16" by fastforce
    then show "bit (ucast (ucast i :: u8) OR push_bit 8 (ucast (ucast (drop_bit 8 i) :: u8)) :: u16) n = bit i n"
      by cases (auto simp: bit_simps)
  qed
  then show ?thesis by (simp add: be_uint16_def)
qed

lemma ex_gp_decode_encode: "gp_decode ex_gp (gp_encode ex_gp m) = Some (ex_msg (dns_ID m))"
  by (simp add: ex_gp_def be_uint16_split)

lemma ex_gp_decode_short: "gp_decode ex_gp b = Some m \<Longrightarrow> 12 \<le> length b"
  by (simp add: ex_gp_def split: if_splits)

lemma udp_query_msg_ID [simp]: "dns_ID (udp_query_msg cfg t i q) = i"
  by (simp add: udp_query_msg_def Let_def)

lemma ex_gp_codec: "query_codec cfg ex_gp t"
  using ex_gp_decode_short by (simp add: query_codec_def decode_header_def ex_gp_decode_encode ex_msg_def)

definition ex_cfg :: Cfg_db where
  "ex_cfg = default_cfg\<lparr>Port_min := 1000, Port_max := 1001, Iface_ip := ''10.0.0.1''\<rparr>"

lemma ex_cfg_simps [simp]: "Port_min ex_cfg = 1000" "Port_max ex_cfg = 1001" "Dst_port ex_cfg = 53"
  by (simp_all add: ex_cfg_def default_cfg_def)

definition ex_input :: udp_input where
  "ex_input = \<lparr>in_dst = [9, 9, 9, 9], in_now = 0, in_rnd = 5\<rparr>"

definition ex_rip :: ipv4_layer where
  "ex_rip = \<lparr>ip_TTL = 50, ip_SrcIP = [8, 8, 8, 8], ip_DstIP = [10, 0, 0, 1], ip_Protocol = 17, ip_Id = 3\<rparr>"

definition ex_rx :: udp_rx where
  "ex_rx = \<lparr>rx_udp = Some \<lparr>udp_SrcPort = 53, udp_DstPort = 1000\<rparr>, rx_app = True,
     rx_payload = gp_encode ex_gp (ex_msg 1)\<rparr>"

lemma ex_sent: "us_sent (init_udp ex_cfg ex_gp 1 [] [ex_input] (udp_init ex_cfg)) =
  [Build_dns ex_cfg ex_gp 1 5 [9, 9, 9, 9] 1000 1 (Dns_query ex_cfg)]"
  by (simp add: init_udp_def ex_input_def next_key_def update_sync_init_cases udp_key_def)

lemma udp_response_attributed_witness:
  "\<exists>s'. udp_Handle_pkt ex_cfg ex_gp 7 ex_rip ex_rx
      (init_udp ex_cfg ex_gp 1 [] [ex_input] (udp_init ex_cfg)) = Ret s' \<and>
    map (\<lambda>it. (ui_Id it, ui_Ip it, ui_Answerip it, ui_Ts_resp it, ui_Dns_payload_size it)) (us_write s') =
      [(1, [9, 9, 9, 9], [8, 8, 8, 8], 7, 12)]"
proof -
  obtain qip qudp qpld where q:
    "Build_dns ex_cfg ex_gp 1 5 [9, 9, 9, 9] 1000 1 (Dns_query ex_cfg) = (qip, qudp, qpld)"
    by (metis prod.exhaust)
  then have q': "ip_DstIP qip = [9, 9, 9, 9]" "udp_SrcPort qudp = 1000"
    "gp_decode ex_gp qpld = Some (ex_msg 1)"
    by (auto simp: Build_dns_def ex_gp_decode_encode)
  have r: "rx_udp ex_rx = Some \<lparr>udp_SrcPort = 53, udp_DstPort = 1000\<rparr>" "rx_app ex_rx"
    "gp_decode ex_gp (rx_payload ex_rx) = Some (ex_msg 1)"
    by (simp_all add: ex_rx_def ex_gp_decode_encode) (simp_all add: ex_msg_def)
  have l: "length (rx_payload ex_rx) = 12" "us_write (init_udp ex_cfg ex_gp 1 [] [ex_input] (udp_init ex_cfg)) = []"
    by (simp_all add: ex_rx_def ex_gp_def init_udp_def)
  have h: "Port_min ex_cfg \<le> Port_max ex_cfg" "length [ex_input] \<le> udp_window ex_cfg"
    "0 < length (us_sent (init_udp ex_cfg ex_gp 1 [] [ex_input] (udp_init ex_cfg)))"
    "us_sent (init_udp ex_cfg ex_gp 1 [] [ex_input] (udp_init ex_cfg)) ! 0 = (qip, qudp, qpld)"
    "udp_SrcPort \<lparr>udp_SrcPort = 53, udp_DstPort = 1000\<rparr> = Dst_port ex_cfg"
    "udp_DstPort \<lparr>udp_SrcPort = 53, udp_DstPort = 1000\<rparr> = udp_SrcPort qudp"
    by (simp_all add: udp_window_def ex_sent q q')
  show ?thesis
    using udp_response_attributed [OF h(1) ex_gp_codec h(2) refl h(3,4) q'(3) r(1,2) h(5) r(3) h(6) refl,
        of 7 ex_rip] q'(1)
    by (simp add: l ex_rip_def)
qed

end
