(* ===== verification/UdpSystem.thy ===== *)
theory UdpSystem
  imports UdpScanner
begin

section \<open>The routines of the UDP scanner, interleaved\<close>

text \<open>
  The sending routines run concurrently with each other, with the handling of packets, with the
  clean-up and with the writer. Each of them changes the shared state in steps that hold a lock or
  use a channel; \<open>udp_step\<close> has one rule per step. Between taking the next id and entering the
  item in the table a routine holds both locks at no time, so other routines may act in between:
  the requests in that position are \<open>sy_pending\<close>. Two histories are kept for the statements: the
  targets in the order in which they got their ids, and the items written out.
\<close>

record udp_sys =
  sy_st :: udp_state
  sy_pending :: "(synced_init \<times> udp_input) list"
  sy_alloc :: "ip list"
  sy_rows :: "udp_item list"

definition udp_sys_init :: "Cfg_db \<Rightarrow> udp_sys" where
  "udp_sys_init cfg = \<lparr>sy_st = udp_init cfg, sy_pending = [], sy_alloc = [], sy_rows = []\<rparr>"

definition alloc_step :: "Cfg_db \<Rightarrow> udp_input \<Rightarrow> udp_sys \<Rightarrow> udp_sys" where
  "alloc_step cfg i y =
     (let l = update_sync_init cfg (us_loop (sy_st y))
      in y\<lparr>sy_st := (sy_st y)\<lparr>us_loop := l\<rparr>, sy_pending := sy_pending y @ [(l, i)],
           sy_alloc := sy_alloc y @ [in_dst i]\<rparr>)"

definition send_step ::
  "Cfg_db \<Rightarrow> gopacket \<Rightarrow> u16 \<Rightarrow> synced_init \<Rightarrow> udp_input \<Rightarrow> (synced_init \<times> udp_input) list \<Rightarrow> udp_sys \<Rightarrow> udp_sys" where
  "send_step cfg gp t l i rest y =
     y\<lparr>sy_st := send_dns cfg gp t (li_id l) (li_port l) (li_dnsid l) i (sy_st y), sy_pending := rest\<rparr>"

text \<open>\<open>Write_results\<close> takes an item from \<open>Write_chan\<close> and hands it to \<open>Write_item\<close>.\<close>

definition write_step :: "udp_item \<Rightarrow> udp_item list \<Rightarrow> udp_sys \<Rightarrow> udp_sys" where
  "write_step it rest y = y\<lparr>sy_st := (sy_st y)\<lparr>us_write := rest\<rparr>, sy_rows := sy_rows y @ [it]\<rparr>"

inductive udp_step :: "Cfg_db \<Rightarrow> gopacket \<Rightarrow> u16 \<Rightarrow> ipnet list \<Rightarrow> udp_sys \<Rightarrow> udp_sys \<Rightarrow> bool"
  for cfg gp t nets where
  Alloc: "\<not> is_blocked nets (in_dst i) \<Longrightarrow> udp_step cfg gp t nets y (alloc_step cfg i y)"
| Send: "sy_pending y = ps @ (l, i) # qs \<Longrightarrow> udp_step cfg gp t nets y (send_step cfg gp t l i (ps @ qs) y)"
| Handle: "udp_Handle_pkt cfg gp now ipl rx (sy_st y) = Ret s' \<Longrightarrow>
    udp_step cfg gp t nets y (y\<lparr>sy_st := s'\<rparr>)"
| Timeout: "udp_step cfg gp t nets y (y\<lparr>sy_st := udp_timeout clock (sy_st y)\<rparr>)"
| Write: "us_write (sy_st y) = it # rest \<Longrightarrow> udp_step cfg gp t nets y (write_step it rest y)"

inductive udp_run :: "Cfg_db \<Rightarrow> gopacket \<Rightarrow> u16 \<Rightarrow> ipnet list \<Rightarrow> udp_sys \<Rightarrow> bool"
  for cfg gp t nets where
  Start: "udp_run cfg gp t nets (udp_sys_init cfg)"
| Step: "udp_run cfg gp t nets y \<Longrightarrow> udp_step cfg gp t nets y y' \<Longrightarrow> udp_run cfg gp t nets y'"

inductive_cases udp_stepE: "udp_step cfg gp t nets y y'"

subsection \<open>The invariant\<close>

definition named :: "udp_sys \<Rightarrow> u32 \<Rightarrow> ip \<Rightarrow> bool" where
  "named y i a \<longleftrightarrow> 1 \<le> unat i \<and> unat i \<le> length (sy_alloc y) \<and> a = sy_alloc y ! (unat i - 1)"

definition udp_ids :: "udp_sys \<Rightarrow> u32 list" where
  "udp_ids y = map (li_id \<circ> fst) (sy_pending y) @ map ui_Id (us_write (sy_st y)) @ map ui_Id (sy_rows y)"

definition udp_inv :: "udp_sys \<Rightarrow> bool" where
  "udp_inv y \<longleftrightarrow>
     li_id (us_loop (sy_st y)) = of_nat (length (sy_alloc y)) \<and>
     distinct (udp_ids y) \<and>
     (\<forall>(l, i) \<in> set (sy_pending y). named y (li_id l) (in_dst i)) \<and>
     (\<forall>it \<in> set (us_write (sy_st y)) \<union> set (sy_rows y). named y (ui_Id it) (ui_Ip it)) \<and>
     (\<forall>k it. us_items (sy_st y) k = Some it \<longrightarrow> k = (ui_Port it, ui_Dnsid it) \<and>
        named y (ui_Id it) (ui_Ip it) \<and> ui_Id it \<notin> set (udp_ids y) \<and>
        (\<forall>k' it'. us_items (sy_st y) k' = Some it' \<and> ui_Id it' = ui_Id it \<longrightarrow> k' = k))"

declare split_paired_All [simp del] split_paired_Ex [simp del]

lemma udp_inv_entry:
  assumes "udp_inv y" and "us_items (sy_st y) k = Some it"
  shows "k = (ui_Port it, ui_Dnsid it)" and "named y (ui_Id it) (ui_Ip it)" and "ui_Id it \<notin> set (udp_ids y)"
    and "us_items (sy_st y) k' = Some it' \<Longrightarrow> ui_Id it' = ui_Id it \<Longrightarrow> k' = k"
  using assms unfolding udp_inv_def by blast+

lemma udp_invD:
  assumes "udp_inv y"
  shows "li_id (us_loop (sy_st y)) = of_nat (length (sy_alloc y))" and "distinct (udp_ids y)"
    and "(l, i) \<in> set (sy_pending y) \<Longrightarrow> named y (li_id l) (in_dst i)"
    and "it \<in> set (us_write (sy_st y)) \<Longrightarrow> named y (ui_Id it) (ui_Ip it)"
    and "it \<in> set (sy_rows y) \<Longrightarrow> named y (ui_Id it) (ui_Ip it)"
  using assms unfolding udp_inv_def by blast+

lemma udp_invI:
  assumes "li_id (us_loop (sy_st y)) = of_nat (length (sy_alloc y))" and "distinct (udp_ids y)"
    and "\<And>l i. (l, i) \<in> set (sy_pending y) \<Longrightarrow> named y (li_id l) (in_dst i)"
    and "\<And>it. it \<in> set (us_write (sy_st y)) \<Longrightarrow> named y (ui_Id it) (ui_Ip it)"
    and "\<And>it. it \<in> set (sy_rows y) \<Longrightarrow> named y (ui_Id it) (ui_Ip it)"
    and "\<And>k it. us_items (sy_st y) k = Some it \<Longrightarrow> k = (ui_Port it, ui_Dnsid it) \<and>
       named y (ui_Id it) (ui_Ip it) \<and> ui_Id it \<notin> set (udp_ids y)"
    and "\<And>k it k' it'. us_items (sy_st y) k = Some it \<Longrightarrow> us_items (sy_st y) k' = Some it' \<Longrightarrow>
       ui_Id it' = ui_Id it \<Longrightarrow> k' = k"
  shows "udp_inv y"
  unfolding udp_inv_def using assms by blast

lemma udp_inv_init: "udp_inv (udp_sys_init cfg)"
  by (simp add: udp_inv_def udp_sys_init_def udp_ids_def)

lemma named_ids_le:
  assumes "udp_inv y" and "i \<in> set (udp_ids y)" shows "unat i \<le> length (sy_alloc y)"
  using assms by (auto simp: udp_inv_def udp_ids_def named_def)

lemma named_append:
  "named y i a \<Longrightarrow> sy_alloc y' = sy_alloc y @ xs \<Longrightarrow> named y' i a"
  by (auto simp: named_def nth_append)

lemma alloc_step_fields:
  "us_loop (sy_st (alloc_step cfg i y)) = update_sync_init cfg (us_loop (sy_st y))"
  "us_items (sy_st (alloc_step cfg i y)) = us_items (sy_st y)"
  "us_write (sy_st (alloc_step cfg i y)) = us_write (sy_st y)"
  "sy_pending (alloc_step cfg i y) = sy_pending y @ [(update_sync_init cfg (us_loop (sy_st y)), i)]"
  "sy_alloc (alloc_step cfg i y) = sy_alloc y @ [in_dst i]"
  "sy_rows (alloc_step cfg i y) = sy_rows y"
  by (simp_all add: alloc_step_def Let_def)

lemma udp_inv_alloc:
  assumes inv: "udp_inv y" and n: "length (sy_alloc (alloc_step cfg i y)) < 2 ^ 32"
  shows "udp_inv (alloc_step cfg i y)"
proof -
  let ?y = "alloc_step cfg i y" and ?new = "of_nat (length (sy_alloc y)) + 1 :: u32"
  have len: "Suc (length (sy_alloc y)) < 2 ^ 32" using n by (simp add: alloc_step_fields)
  have "unat (of_nat (Suc (length (sy_alloc y))) :: u32) = Suc (length (sy_alloc y))"
    using len by (simp only: unat_of_nat) simp
  then have new: "unat ?new = Suc (length (sy_alloc y))" by (simp only: of_nat_Suc add.commute)
  have nm: "named ?y j a" if "named y j a" for j a
    using that alloc_step_fields(5) by (rule named_append)
  have id: "li_id (us_loop (sy_st y)) = of_nat (length (sy_alloc y))" using inv by (simp add: udp_inv_def)
  have ids: "set (udp_ids ?y) = insert ?new (set (udp_ids y))"
    by (auto simp: udp_ids_def alloc_step_fields id)
  have fresh: "?new \<notin> set (udp_ids y)" using named_ids_le [OF inv] new by fastforce
  have nnew: "named ?y ?new (in_dst i)" using new by (simp add: named_def alloc_step_fields)
  have old: "ui_Id it \<noteq> ?new" if "us_items (sy_st y) k = Some it" for k it
    using udp_inv_entry(2) [OF inv that] new by (auto simp: named_def)
  show ?thesis
  proof (rule udp_invI)
    show "distinct (udp_ids ?y)"
      using udp_invD(2) [OF inv] fresh by (auto simp: udp_ids_def alloc_step_fields id)
  qed (use nm nnew udp_invD(3-5) [OF inv] udp_inv_entry [OF inv] ids old in
      \<open>auto simp: alloc_step_fields id\<close>)
qed

lemma send_step_fields:
  "us_loop (sy_st (send_step cfg gp t l i r y)) = us_loop (sy_st y)"
  "us_items (sy_st (send_step cfg gp t l i r y)) = (us_items (sy_st y))((li_port l, li_dnsid l) \<mapsto>
     new_udp_item (li_id l) (in_now i) (in_dst i) (li_port l) (li_dnsid l))"
  "us_write (sy_st (send_step cfg gp t l i r y)) = us_write (sy_st y)"
  "sy_pending (send_step cfg gp t l i r y) = r"
  "sy_alloc (send_step cfg gp t l i r y) = sy_alloc y"
  "sy_rows (send_step cfg gp t l i r y) = sy_rows y"
  by (simp_all add: send_step_def send_dns_def)

lemma named_cong: "sy_alloc y' = sy_alloc y \<Longrightarrow> named y' i a = named y i a"
  by (simp add: named_def)

lemma new_udp_item_fields:
  "ui_Id (new_udp_item i now d p q) = i" "ui_Ip (new_udp_item i now d p q) = d"
  "ui_Port (new_udp_item i now d p q) = p" "ui_Dnsid (new_udp_item i now d p q) = q"
  by (simp_all add: new_udp_item_def)

lemma udp_inv_send:
  assumes inv: "udp_inv y" and p: "sy_pending y = ps @ (l, i) # qs"
  shows "udp_inv (send_step cfg gp t l i (ps @ qs) y)"
proof -
  let ?y = "send_step cfg gp t l i (ps @ qs) y"
  have nm: "named ?y j a = named y j a" for j a by (rule named_cong) (rule send_step_fields(5))
  have ids: "set (udp_ids y) = insert (li_id l) (set (udp_ids ?y))"
    by (auto simp: udp_ids_def send_step_fields p)
  have d: "distinct (udp_ids ?y)" and new: "li_id l \<notin> set (udp_ids ?y)"
    using inv by (auto simp: udp_inv_def udp_ids_def send_step_fields p)
  have nl: "named y (li_id l) (in_dst i)" using inv by (auto simp: udp_inv_def p)
  have new_item: "ui_Id (new_udp_item (li_id l) n d a b) = li_id l" for n d a b
    by (rule new_udp_item_fields)
  have other: "ui_Id v \<noteq> li_id l" "ui_Id v \<notin> set (udp_ids ?y)" if "us_items (sy_st y) k = Some v" for k v
    using udp_inv_entry(3) [OF inv that] ids by auto
  show ?thesis
  proof (rule udp_invI)
    fix k v assume "us_items (sy_st ?y) k = Some v"
    then show "k = (ui_Port v, ui_Dnsid v) \<and> named ?y (ui_Id v) (ui_Ip v) \<and> ui_Id v \<notin> set (udp_ids ?y)"
      using udp_inv_entry(1,2) [OF inv] other nl new
      by (auto simp: send_step_fields nm new_udp_item_fields split: if_splits)
  next
    fix k v k' v'
    assume "us_items (sy_st ?y) k = Some v" "us_items (sy_st ?y) k' = Some v'" "ui_Id v' = ui_Id v"
    moreover have "ui_Id u = li_id l" if "us_items (sy_st ?y) j = Some u" "j = (li_port l, li_dnsid l)" for j u
      using that by (auto simp: send_step_fields new_item)
    moreover have "us_items (sy_st y) j = Some u"
      if "us_items (sy_st ?y) j = Some u" "j \<noteq> (li_port l, li_dnsid l)" for j u
      using that by (simp add: send_step_fields)
    ultimately show "k' = k" using udp_inv_entry(4) [OF inv] other(1) by metis
  qed (use d udp_invD [OF inv] in \<open>auto simp: send_step_fields nm p\<close>)
qed

lemma udp_Handle_pkt_cases:
  assumes "udp_Handle_pkt cfg gp now ipl rx s = Ret s'"
  obtains "s' = s"
  | k it it' where "us_items s k = Some it" "s' = s\<lparr>us_items := (us_items s)(k := None),
        us_write := us_write s @ [it']\<rparr>"
      "ui_Id it' = ui_Id it" "ui_Ip it' = ui_Ip it" "ui_Answerip it' = ip_SrcIP ipl" "ui_Ts_resp it' = now"
proof -
  have f: "ui_Id it' = ui_Id it \<and> ui_Ip it' = ui_Ip it \<and> ui_Answerip it' = src \<and> ui_Ts_resp it' = now"
    if "fill_udp_item now src dns pld it = Ret it'" for now src dns pld it it'
    using that by (auto simp: fill_udp_item_def Let_def split: list.splits)
  show thesis
  proof (cases "s' = s")
    case True
    then show ?thesis by (rule that(1))
  next
    case False
    with assms obtain udp dns it it' where "rx_udp rx = Some udp" "gp_decode gp (rx_payload rx) = Some dns"
      and it: "us_items s (udp_DstPort udp, dns_ID dns) = Some it"
      and fl: "fill_udp_item now (ip_SrcIP ipl) dns (rx_payload rx) it = Ret it'"
      and s': "s' = s\<lparr>us_items := (us_items s)((udp_DstPort udp, dns_ID dns) := None),
        us_write := us_write s @ [it']\<rparr>"
      unfolding udp_Handle_pkt_def Let_def
      by (auto split: option.split_asm if_split_asm)
    from that(2) [OF it s'] f [OF fl] show ?thesis by blast
  qed
qed

lemma udp_inv_handle:
  assumes inv: "udp_inv y" and h: "udp_Handle_pkt cfg gp now ipl rx (sy_st y) = Ret s'"
  shows "udp_inv (y\<lparr>sy_st := s'\<rparr>)"
  using h
proof (cases rule: udp_Handle_pkt_cases)
  case 1
  then show ?thesis using inv by simp
next
  case (2 k it it')
  let ?y = "y\<lparr>sy_st := s'\<rparr>"
  have nm: "named ?y j a = named y j a" for j a by (rule named_cong) simp
  have i: "named y (ui_Id it) (ui_Ip it)" "ui_Id it \<notin> set (udp_ids y)"
    "\<And>k' v'. us_items (sy_st y) k' = Some v' \<Longrightarrow> ui_Id v' = ui_Id it \<Longrightarrow> k' = k"
    using udp_inv_entry [OF inv 2(1)] by blast+
  have ids: "set (udp_ids ?y) = insert (ui_Id it) (set (udp_ids y))"
    by (auto simp: udp_ids_def 2)
  have fl: "us_write s' = us_write (sy_st y) @ [it']" "us_loop s' = us_loop (sy_st y)"
    "ui_Id it' = ui_Id it" "ui_Ip it' = ui_Ip it" by (simp_all add: 2)
  have sub: "us_items (sy_st y) j = Some v \<and> j \<noteq> k" if "us_items (sy_st ?y) j = Some v" for j v
    using that by (auto simp: 2 split: if_splits)
  show ?thesis
  proof (rule udp_invI)
    show "distinct (udp_ids ?y)"
      using udp_invD(2) [OF inv] i(2) by (auto simp: udp_ids_def 2)
  next
    fix j v assume "us_items (sy_st ?y) j = Some v"
    note u = sub [OF this]
    then have "ui_Id v \<noteq> ui_Id it" using i(3) by blast
    then show "j = (ui_Port v, ui_Dnsid v) \<and> named ?y (ui_Id v) (ui_Ip v) \<and> ui_Id v \<notin> set (udp_ids ?y)"
      using udp_inv_entry(1-3) [OF inv, of j v] u unfolding nm ids by blast
  next
    fix j v j' v'
    assume "us_items (sy_st ?y) j = Some v" "us_items (sy_st ?y) j' = Some v'" "ui_Id v' = ui_Id v"
    then show "j' = j" using udp_inv_entry(4) [OF inv] sub by blast
  qed (use i(1) udp_invD [OF inv] fl in \<open>auto simp: nm\<close>)
qed

lemma udp_inv_timeout:
  assumes inv: "udp_inv y" shows "udp_inv (y\<lparr>sy_st := udp_timeout now (sy_st y)\<rparr>)"
proof -
  let ?y = "y\<lparr>sy_st := udp_timeout now (sy_st y)\<rparr>"
  have nm: "named ?y j a = named y j a" for j a by (rule named_cong) simp
  have ids: "udp_ids ?y = udp_ids y" by (simp add: udp_ids_def udp_timeout_def)
  have sub: "us_items (sy_st y) k = Some v" if "us_items (sy_st ?y) k = Some v" for k v
    using that by (simp add: udp_timeout_def Timeout_sweep_Some)
  have "k = (ui_Port v, ui_Dnsid v) \<and> named y (ui_Id v) (ui_Ip v) \<and> ui_Id v \<notin> set (udp_ids y) \<and>
      (\<forall>k' v'. us_items (sy_st ?y) k' = Some v' \<and> ui_Id v' = ui_Id v \<longrightarrow> k' = k)"
    if "us_items (sy_st ?y) k = Some v" for k v
    using udp_inv_entry [OF inv sub [OF that]] sub by blast
  moreover have "us_write (sy_st ?y) = us_write (sy_st y)" "us_loop (sy_st ?y) = us_loop (sy_st y)"
    by (simp_all add: udp_timeout_def)
  ultimately show ?thesis
    using inv unfolding udp_inv_def ids nm by simp
qed

lemma write_step_fields:
  "us_loop (sy_st (write_step it r y)) = us_loop (sy_st y)"
  "us_items (sy_st (write_step it r y)) = us_items (sy_st y)"
  "us_write (sy_st (write_step it r y)) = r"
  "sy_pending (write_step it r y) = sy_pending y"
  "sy_alloc (write_step it r y) = sy_alloc y"
  "sy_rows (write_step it r y) = sy_rows y @ [it]"
  by (simp_all add: write_step_def)

lemma udp_inv_write:
  assumes inv: "udp_inv y" and w: "us_write (sy_st y) = it # rest"
  shows "udp_inv (write_step it rest y)"
proof -
  let ?y = "write_step it rest y"
  have nm: "named ?y j a = named y j a" for j a by (rule named_cong) (simp add: write_step_def)
  have "mset (udp_ids ?y) = mset (udp_ids y)" by (simp add: udp_ids_def write_step_fields w)
  then have "distinct (udp_ids ?y) = distinct (udp_ids y)" "set (udp_ids ?y) = set (udp_ids y)"
    by (metis mset_eq_imp_distinct_iff, metis mset_eq_setD)
  note ids = this
  show ?thesis
  proof (rule udp_invI)
    fix k v assume "us_items (sy_st ?y) k = Some v"
    then show "k = (ui_Port v, ui_Dnsid v) \<and> named ?y (ui_Id v) (ui_Ip v) \<and> ui_Id v \<notin> set (udp_ids ?y)"
      using udp_inv_entry(1-3) [OF inv, of k v] unfolding nm ids(2) by (simp add: write_step_fields)
  next
    fix k v k' v'
    assume "us_items (sy_st ?y) k = Some v" "us_items (sy_st ?y) k' = Some v'" "ui_Id v' = ui_Id v"
    then show "k' = k" using udp_inv_entry(4) [OF inv] by (simp add: write_step_fields)
  qed (use udp_invD [OF inv] ids w in \<open>auto simp: nm write_step_fields\<close>)
qed

lemma udp_step_alloc_mono: "udp_step cfg gp t nets y y' \<Longrightarrow> length (sy_alloc y) \<le> length (sy_alloc y')"
  by (erule udp_stepE) (simp_all add: alloc_step_fields send_step_fields write_step_def)

lemma udp_run_inv: "udp_run cfg gp t nets y \<Longrightarrow> length (sy_alloc y) < 2 ^ 32 \<Longrightarrow> udp_inv y"
proof (induction rule: udp_run.induct)
  case Start
  show ?case by (rule udp_inv_init)
next
  case (Step y y')
  then have inv: "udp_inv y" using udp_step_alloc_mono [OF Step.hyps(2)] by simp
  show ?case
    using Step.hyps(2) Step.prems
    by (elim udp_stepE) (simp_all add: inv udp_inv_alloc udp_inv_send udp_inv_handle udp_inv_timeout udp_inv_write)
qed

lemma udp_run_not_blocked: "udp_run cfg gp t nets y \<Longrightarrow> a \<in> set (sy_alloc y) \<Longrightarrow> \<not> is_blocked nets a"
proof (induction rule: udp_run.induct)
  case Start
  then show ?case by (simp add: udp_sys_init_def)
next
  case (Step y y')
  show ?case
    using Step.hyps(2) Step.IH Step.prems
    by (elim udp_stepE) (auto simp: alloc_step_fields send_step_fields write_step_fields)
qed

subsection \<open>The property\<close>

text \<open>
  C7. In every interleaving of the routines, and whatever packets arrive, the result file has at most
  one row per query and credits it to the target of that query: as long as fewer than \<open>2\<^sup>3\<^sup>2\<close> ids
  were given out, the ids of the rows are distinct, row \<open>i\<close> names the \<open>i\<close>-th target that got an
  id, and that target is not on the exclusion list.
\<close>

theorem udp_rows_once_and_named:
  assumes "udp_run cfg gp t nets y" and "length (sy_alloc y) < 2 ^ 32"
  shows "distinct (map ui_Id (sy_rows y)) \<and>
    (\<forall>it \<in> set (sy_rows y). 1 \<le> unat (ui_Id it) \<and> unat (ui_Id it) \<le> length (sy_alloc y) \<and>
       ui_Ip it = sy_alloc y ! (unat (ui_Id it) - 1) \<and> \<not> is_blocked nets (ui_Ip it))"
proof -
  note inv = udp_run_inv [OF assms]
  have "distinct (map ui_Id (sy_rows y))" using udp_invD(2) [OF inv] by (simp add: udp_ids_def)
  moreover have "1 \<le> unat (ui_Id it) \<and> unat (ui_Id it) \<le> length (sy_alloc y) \<and>
      ui_Ip it = sy_alloc y ! (unat (ui_Id it) - 1) \<and> \<not> is_blocked nets (ui_Ip it)"
    if "it \<in> set (sy_rows y)" for it
  proof -
    have n: "named y (ui_Id it) (ui_Ip it)" by (rule udp_invD(5) [OF inv that])
    then have "ui_Ip it \<in> set (sy_alloc y)" by (auto simp: named_def)
    with n udp_run_not_blocked [OF assms(1)] show ?thesis by (simp add: named_def)
  qed
  ultimately show ?thesis by blast
qed

definition ex_loop1 :: synced_init where
  "ex_loop1 = \<lparr>li_id = 1, li_port = 1000, li_dnsid = 1\<rparr>"

lemma udp_rows_once_and_named_witness:
  "\<exists>y it. udp_run ex_cfg ex_gp 1 [] y \<and> sy_rows y = [it] \<and> ui_Ip it = sy_alloc y ! (unat (ui_Id it) - 1)"
proof -
  let ?y0 = "udp_sys_init ex_cfg"
  define y1 where "y1 = alloc_step ex_cfg ex_input ?y0"
  have l: "update_sync_init ex_cfg (us_loop (sy_st ?y0)) = ex_loop1"
    by (simp add: udp_sys_init_def ex_loop1_def update_sync_init_cases)
  have p1: "sy_pending y1 = [] @ (ex_loop1, ex_input) # []"
    unfolding y1_def alloc_step_fields l by (simp add: udp_sys_init_def)
  define y2 where "y2 = send_step ex_cfg ex_gp 1 ex_loop1 ex_input ([] @ []) y1"
  have r0: "udp_run ex_cfg ex_gp 1 [] ?y0" by (rule udp_run.Start)
  have r1: "udp_run ex_cfg ex_gp 1 [] y1"
    unfolding y1_def by (rule udp_run.Step [OF r0], rule udp_step.Alloc) simp
  have r2: "udp_run ex_cfg ex_gp 1 [] y2"
    unfolding y2_def by (rule udp_run.Step [OF r1], rule udp_step.Send) (rule p1)
  obtain it0 where it0: "us_items (sy_st y2) (1000, 1) = Some it0"
    by (simp add: y2_def send_step_fields ex_loop1_def)
  have rx: "rx_udp ex_rx = Some \<lparr>udp_SrcPort = 53, udp_DstPort = 1000\<rparr>" "rx_app ex_rx"
    "gp_decode ex_gp (rx_payload ex_rx) = Some (ex_msg 1)" "4 \<le> length (rx_payload ex_rx)"
    by (simp_all add: ex_rx_def ex_gp_decode_encode) (simp_all add: ex_msg_def ex_gp_def)
  obtain it1 where it1: "fill_udp_item 7 (ip_SrcIP ex_rip) (ex_msg 1) (rx_payload ex_rx) it0 = Ret it1"
    using fill_udp_item_Ret [OF rx(4)] by meson
  let ?s3 = "(sy_st y2)\<lparr>us_items := (us_items (sy_st y2))((1000, 1) := None), us_write := us_write (sy_st y2) @ [it1]\<rparr>"
  have "udp_Handle_pkt ex_cfg ex_gp 7 ex_rip ex_rx (sy_st y2) = Ret ?s3"
    using rx it0 it1 by (simp add: udp_Handle_pkt_def ex_msg_def)
  then have r3: "udp_run ex_cfg ex_gp 1 [] (y2\<lparr>sy_st := ?s3\<rparr>)"
    by (rule udp_run.Step [OF r2 udp_step.Handle])
  have w: "us_write (sy_st (y2\<lparr>sy_st := ?s3\<rparr>)) = it1 # []"
    by (simp add: y2_def send_step_fields y1_def alloc_step_fields udp_sys_init_def)
  let ?y4 = "write_step it1 [] (y2\<lparr>sy_st := ?s3\<rparr>)"
  have r4: "udp_run ex_cfg ex_gp 1 [] ?y4" by (rule udp_run.Step [OF r3 udp_step.Write [OF w]])
  have f: "sy_rows ?y4 = [it1]" "length (sy_alloc ?y4) < 2 ^ 32"
    by (simp_all add: write_step_fields y2_def send_step_fields y1_def alloc_step_fields udp_sys_init_def)
  from udp_rows_once_and_named [OF r4 f(2)] r4 f(1) show ?thesis by auto
qed

end
