(* ===== verification/TcpScanner.thy ===== *)
theory TcpScanner
  imports BaseScanner
begin

section \<open>The TCP scanner (scanner/tcp/tcp_scanner.go)\<close>

text \<open>
  A connection is a linked list of items: the SYN sent, the SYN-ACK received, the response received.
  The items are shared through pointers, so the model has a heap: an address names an item, and
  \<open>ti_Next\<close> is the pointer to the next one. The table of open connections holds the addresses of
  the first items. \<open>last\<close> and the writer follow the pointers; they are partial functions, and that
  they return is proved.
\<close>

subsection \<open>State\<close>

record tcp_item =
  ti_id :: u32
  ti_ts :: time
  ti_ip :: ip
  ti_port :: u16
  ti_seq :: u32
  ti_ack :: u32
  ti_flags :: TCP_flags
  ti_dns_recs :: "ip list"
  ti_Next :: "nat option"

type_synonym heap = "nat \<rightharpoonup> tcp_item"
type_synonym tcp_packet = "ipv4_layer \<times> tcp_layer \<times> u8 list"

record tcp_state =
  ts_heap :: heap
  ts_free :: nat
  ts_items :: "u16 \<times> u32 \<rightharpoonup> nat"
  ts_id :: u32
  ts_write :: "nat list"
  ts_sent :: "tcp_packet list"
  ts_rows :: "tcp_item list"
  ts_payload_size :: u16

definition tcp_init :: "u16 \<Rightarrow> tcp_state" where
  "tcp_init psize = \<lparr>ts_heap = Map.empty, ts_free = 0, ts_items = Map.empty, ts_id = 0,
     ts_write = [], ts_sent = [], ts_rows = [], ts_payload_size = psize\<rparr>"

partial_function (option) last_item :: "heap \<Rightarrow> nat \<Rightarrow> nat option" where
  "last_item h a = (case h a of None \<Rightarrow> None
     | Some it \<Rightarrow> (case ti_Next it of None \<Rightarrow> Some a | Some b \<Rightarrow> last_item h b))"

subsection \<open>From the id of a target to port and sequence number\<close>

definition tcp_seq :: "u32 \<Rightarrow> u32" where
  "tcp_seq i = (i AND 0x1FFFFF) * 2048"

definition tcp_port :: "u32 \<Rightarrow> u16" where
  "tcp_port i = ucast (drop_bit 21 i + 61440)"

definition tcp_key :: "u32 \<Rightarrow> u16 \<times> u32" where
  "tcp_key i = (tcp_port i, tcp_seq i)"

lemma tcp_port_range: "61440 \<le> tcp_port i"
proof -
  have "unat i < 2 ^ 32" using unsigned_less [of i, where ?'a = nat] by simp
  then have "unat i div 2 ^ 21 < 2 ^ 11" by (intro less_mult_imp_div_less) simp
  moreover have "unat (drop_bit 21 i) = unat i div 2 ^ 21"
    by (simp only: unat_drop_bit_eq) (simp only: drop_bit_eq_div)
  ultimately have d: "unat (drop_bit 21 i) < 2048" by simp
  then have "unat (drop_bit 21 i + 61440) = unat (drop_bit 21 i) + 61440"
    by (simp add: unat_word_ariths)
  then have "unat (ucast (drop_bit 21 i + 61440) :: u16) = unat (drop_bit 21 i) + 61440"
    using d by (simp add: unsigned_ucast_eq take_bit_nat_eq_self)
  then show ?thesis by (simp add: tcp_port_def word_le_nat_alt)
qed

text \<open>The id can be read off again, so no two of the \<open>2\<^sup>3\<^sup>2\<close> ids share a key.\<close>

definition tcp_id_of :: "u16 \<times> u32 \<Rightarrow> u32" where
  "tcp_id_of k = push_bit 21 (ucast (fst k - 61440)) OR drop_bit 11 (snd k)"

lemma tcp_seq_shift: "tcp_seq i = push_bit 11 (take_bit 21 i)"
proof -
  have "(0x1FFFFF :: u32) = mask 21" by (simp add: mask_eq_exp_minus_1)
  then show ?thesis by (simp add: tcp_seq_def take_bit_eq_mask push_bit_eq_mult)
qed

lemma tcp_port_minus: "tcp_port i - 61440 = ucast (drop_bit 21 i)"
  by (simp add: tcp_port_def ucast16_add)

lemma tcp_id_of_key: "tcp_id_of (tcp_key i) = i"
proof (rule bit_word_eqI)
  fix n assume n: "n < LENGTH(32)"
  have "(ucast (ucast (drop_bit 21 i) :: u16) :: u32) = drop_bit 21 i"
    by (rule bit_word_eqI) (auto simp: bit_simps dest: bit_imp_le_length)
  then show "bit (tcp_id_of (tcp_key i)) n = bit i n"
    using n by (auto simp: tcp_id_of_def tcp_key_def tcp_port_minus tcp_seq_shift bit_simps)
qed

lemma tcp_key_inj: "tcp_key i = tcp_key j \<longleftrightarrow> i = j"
  by (metis tcp_id_of_key)

subsection \<open>Building and sending\<close>

definition tcp_query_msg :: "Cfg_db \<Rightarrow> u16 \<Rightarrow> dns_msg" where
  "tcp_query_msg cfg rnd = \<lparr>dns_ID = rnd, dns_RD = True, dns_OpCode = 0, dns_ResponseCode = 0,
     dns_QDCount = 1, dns_ARCount = 0,
     dns_Questions = [\<lparr>q_Name = Dns_query cfg, q_Type = DNSTypeA, q_Class = DNSClassIN\<rparr>],
     dns_Answers = [], dns_Additionals = []\<rparr>"

definition Build_ack_with_dns ::
  "Cfg_db \<Rightarrow> gopacket \<Rightarrow> u16 \<Rightarrow> ip \<Rightarrow> u16 \<Rightarrow> u32 \<Rightarrow> u32 \<Rightarrow> tcp_packet" where
  "Build_ack_with_dns cfg gp rnd dst_ip src_port seq_num ack_num =
     (\<lparr>ip_TTL = 64, ip_SrcIP = parse_ip (Iface_ip cfg), ip_DstIP = dst_ip,
        ip_Protocol = IPProtocolTCP, ip_Id = 1\<rparr>,
      \<lparr>tcp_SrcPort = src_port, tcp_DstPort = Dst_port cfg, tcp_Seq = ack_num, tcp_Ack = seq_num + 1,
        tcp_flags = \<lparr>FIN = False, SYN = False, RST = False, PSH = True, ACK = True\<rparr>,
        tcp_Window = 8192\<rparr>,
      prepend_size (gp_encode gp (tcp_query_msg cfg rnd)))"

definition syn_packet :: "Cfg_db \<Rightarrow> ip \<Rightarrow> u16 \<Rightarrow> u32 \<Rightarrow> tcp_packet" where
  "syn_packet cfg dst_ip port seq_num =
     (\<lparr>ip_TTL = 64, ip_SrcIP = parse_ip (Iface_ip cfg), ip_DstIP = dst_ip,
        ip_Protocol = IPProtocolTCP, ip_Id = 1\<rparr>,
      \<lparr>tcp_SrcPort = port, tcp_DstPort = 53, tcp_Seq = seq_num, tcp_Ack = 0,
        tcp_flags = \<lparr>FIN = False, SYN = True, RST = False, PSH = False, ACK = False\<rparr>,
        tcp_Window = 0\<rparr>,
      [])"

record tcp_input =
  tin_dst :: ip
  tin_now :: time

definition new_syn_item :: "u32 \<Rightarrow> tcp_input \<Rightarrow> tcp_item" where
  "new_syn_item i inp = \<lparr>ti_id = i, ti_ts = tin_now inp, ti_ip = tin_dst inp, ti_port = tcp_port i,
     ti_seq = tcp_seq i, ti_ack = 0,
     ti_flags = \<lparr>FIN = False, SYN = True, RST = False, PSH = False, ACK = False\<rparr>,
     ti_dns_recs = [], ti_Next = None\<rparr>"

definition send_syn :: "Cfg_db \<Rightarrow> u32 \<Rightarrow> tcp_input \<Rightarrow> tcp_state \<Rightarrow> tcp_state" where
  "send_syn cfg i inp s =
     s\<lparr>ts_heap := (ts_heap s)(ts_free s \<mapsto> new_syn_item i inp), ts_free := Suc (ts_free s),
       ts_items := (ts_items s)((tcp_port i, tcp_seq i) \<mapsto> ts_free s),
       ts_sent := ts_sent s @ [syn_packet cfg (tin_dst inp) (tcp_port i) (tcp_seq i)]\<rparr>"

definition get_next_id :: "tcp_state \<Rightarrow> u32 \<times> tcp_state" where
  "get_next_id s = (ts_id s, s\<lparr>ts_id := ts_id s + 1\<rparr>)"

definition tcp_send :: "Cfg_db \<Rightarrow> tcp_input \<Rightarrow> tcp_state \<Rightarrow> tcp_state" where
  "tcp_send cfg inp s = (let (i, s1) = get_next_id s in send_syn cfg i inp s1)"

definition init_tcp :: "Cfg_db \<Rightarrow> ipnet list \<Rightarrow> tcp_input list \<Rightarrow> tcp_state \<Rightarrow> tcp_state" where
  "init_tcp cfg nets = dispatch nets tin_dst (tcp_send cfg)"

subsection \<open>Handling a packet\<close>

record tcp_rx =
  tr_tcp :: "tcp_layer option"
  tr_app :: bool
  tr_payload :: "u8 list"

definition received_item :: "time \<Rightarrow> ip \<Rightarrow> tcp_layer \<Rightarrow> tcp_item \<Rightarrow> ip list \<Rightarrow> tcp_item" where
  "received_item now src tcp prev recs = \<lparr>ti_id = ti_id prev, ti_ts = now, ti_ip = src,
     ti_port = tcp_DstPort tcp, ti_seq = tcp_Seq tcp, ti_ack = tcp_Ack tcp, ti_flags = tcp_flags tcp,
     ti_dns_recs = recs, ti_Next = None\<rparr>"

text \<open>\<open>last_data_item.Next = &data\<close>\<close>

definition link_item :: "nat \<Rightarrow> tcp_item \<Rightarrow> tcp_state \<Rightarrow> tcp_state" where
  "link_item l it s = (case ts_heap s l of None \<Rightarrow> s
     | Some li \<Rightarrow> s\<lparr>ts_heap := (ts_heap s)(l \<mapsto> li\<lparr>ti_Next := Some (ts_free s)\<rparr>, ts_free s \<mapsto> it),
                   ts_free := Suc (ts_free s)\<rparr>)"

definition tcp_emit :: "tcp_packet \<Rightarrow> tcp_state \<Rightarrow> tcp_state" where
  "tcp_emit p s = s\<lparr>ts_sent := ts_sent s @ [p]\<rparr>"

text \<open>The addresses of the answers; an answer that has none makes the code give up.\<close>

fun answer_ips :: "dns_rr list \<Rightarrow> ip list option" where
  "answer_ips [] = Some []"
| "answer_ips (r # rs) = (if rr_IP r \<noteq> [] then map_option ((#) (rr_IP r)) (answer_ips rs) else None)"

text \<open>
  The root item under a key with the last item of its list; the outer \<open>None\<close> stands for a walk that
  does not return.
\<close>

definition find_chain :: "tcp_state \<Rightarrow> u16 \<times> u32 \<Rightarrow> (nat \<times> tcp_item \<times> nat \<times> tcp_item) option option" where
  "find_chain s k = (case ts_items s k of None \<Rightarrow> Some None
     | Some a \<Rightarrow> (case last_item (ts_heap s) a of None \<Rightarrow> None
        | Some l \<Rightarrow> (case (ts_heap s a, ts_heap s l) of
             (Some ra, Some li) \<Rightarrow> Some (Some (a, ra, l, li))
           | _ \<Rightarrow> None)))"

definition handle_syn_ack ::
  "Cfg_db \<Rightarrow> gopacket \<Rightarrow> time \<Rightarrow> u16 \<Rightarrow> ip \<Rightarrow> tcp_layer \<Rightarrow> tcp_state \<Rightarrow> tcp_state option" where
  "handle_syn_ack cfg gp now rnd src tcp s =
     (case find_chain s (tcp_DstPort tcp, tcp_Ack tcp - 1) of
        None \<Rightarrow> None
      | Some None \<Rightarrow> Some s
      | Some (Some (a, ra, l, li)) \<Rightarrow>
          if l \<noteq> a then Some s
          else Some (tcp_emit (Build_ack_with_dns cfg gp rnd (ti_ip ra) (tcp_DstPort tcp) (tcp_Seq tcp) (tcp_Ack tcp))
                 (link_item l (received_item now src tcp li []) s)))"

definition handle_fin_ack :: "Cfg_db \<Rightarrow> ip \<Rightarrow> tcp_layer \<Rightarrow> tcp_state \<Rightarrow> tcp_state option" where
  "handle_fin_ack cfg src tcp s =
     (case find_chain s (tcp_DstPort tcp, tcp_Ack tcp - 2 - ucast (ts_payload_size s)) of
        None \<Rightarrow> None
      | Some None \<Rightarrow> Some s
      | Some (Some (a, ra, l, li)) \<Rightarrow>
          if \<not> Is_PSH_ACK (ti_flags li)
          then Some (tcp_emit (build_ack_pos_fin cfg src (tcp_DstPort tcp) (tcp_Seq tcp) (tcp_Ack tcp) True) s)
          else let s1 = tcp_emit (build_ack_pos_fin cfg (ti_ip ra) (tcp_DstPort tcp) (tcp_Seq tcp) (tcp_Ack tcp) False) s
               in Some (s1\<lparr>ts_write := ts_write s1 @ [a]\<rparr>))"

definition handle_response ::
  "Cfg_db \<Rightarrow> gopacket \<Rightarrow> time \<Rightarrow> ip \<Rightarrow> tcp_layer \<Rightarrow> u8 list \<Rightarrow> tcp_state \<Rightarrow> tcp_state option" where
  "handle_response cfg gp now src tcp payload s =
     (if length payload \<le> 2 then Some s
      else if size_check_drops payload then Some s
      else case gp_decode gp (drop 2 payload) of
        None \<Rightarrow> Some s
      | Some dns \<Rightarrow>
          (case find_chain s (tcp_DstPort tcp, tcp_Ack tcp - 1 - ucast (ts_payload_size s)) of
             None \<Rightarrow> None
           | Some None \<Rightarrow> Some s
           | Some (Some (a, ra, l, li)) \<Rightarrow>
               if Is_PSH_ACK (ti_flags li) then Some s
               else if \<not> Is_SYN_ACK (ti_flags li) then Some s
               else case answer_ips (dns_Answers dns) of
                 None \<Rightarrow> Some s
               | Some ips \<Rightarrow>
                   let s1 = tcp_emit (build_ack_pos_fin cfg (ti_ip ra) (tcp_DstPort tcp) (tcp_Seq tcp) (tcp_Ack tcp) True)
                              (link_item l (received_item now src tcp li ips) s)
                   in if Is_FIN_PSH_ACK (tcp_flags tcp) then Some (s1\<lparr>ts_write := ts_write s1 @ [a]\<rparr>)
                      else Some s1))"

definition tcp_Handle_pkt ::
  "Cfg_db \<Rightarrow> gopacket \<Rightarrow> time \<Rightarrow> u16 \<Rightarrow> ipv4_layer \<Rightarrow> tcp_rx \<Rightarrow> tcp_state \<Rightarrow> tcp_state option" where
  "tcp_Handle_pkt cfg gp now rnd ipl rx s =
     (case tr_tcp rx of
        None \<Rightarrow> Some s
      | Some tcp \<Rightarrow>
          if \<not> tr_app rx then
            (if Is_SYN_ACK (tcp_flags tcp) then handle_syn_ack cfg gp now rnd (ip_SrcIP ipl) tcp s
             else if Is_FIN_ACK (tcp_flags tcp) then handle_fin_ack cfg (ip_SrcIP ipl) tcp s
             else Some s)
          else if Is_PSH_ACK (tcp_flags tcp) \<or> Is_FIN_PSH_ACK (tcp_flags tcp)
          then handle_response cfg gp now (ip_SrcIP ipl) tcp (tr_payload rx) s
          else Some s)"

subsection \<open>Writing and clean-up\<close>

partial_function (option) walk :: "heap \<Rightarrow> nat option \<Rightarrow> tcp_item list option" where
  "walk h p = (case p of None \<Rightarrow> Some []
     | Some a \<Rightarrow> Option.bind (h a) (\<lambda>it. Option.bind (walk h (ti_Next it)) (\<lambda>r. Some (it # r))))"

text \<open>The address taken from \<open>Write_chan\<close>: its list is written, then its entry is removed.\<close>

definition tcp_Write_item :: "nat \<Rightarrow> tcp_state \<Rightarrow> tcp_state option" where
  "tcp_Write_item a s =
     (case (ts_heap s a, walk (ts_heap s) (Some a)) of
        (Some ra, Some items) \<Rightarrow>
          Some (s\<lparr>ts_rows := ts_rows s @ items,
                  ts_items := (ts_items s)((ti_port ra, ti_seq ra) := None)\<rparr>)
      | _ \<Rightarrow> None)"

definition item_ts :: "heap \<Rightarrow> nat \<Rightarrow> time" where
  "item_ts h a = (case h a of None \<Rightarrow> zero_time | Some it \<Rightarrow> ti_ts it)"

definition tcp_timeout :: "(u16 \<times> u32 \<Rightarrow> time) \<Rightarrow> tcp_state \<Rightarrow> tcp_state" where
  "tcp_timeout now s = s\<lparr>ts_items := Timeout_sweep now (item_ts (ts_heap s)) (ts_items s)\<rparr>"

definition flag_letters :: "TCP_flags \<Rightarrow> string" where
  "flag_letters f = (if SYN f then ''S'' else []) @ (if RST f then ''R'' else []) @
     (if FIN f then ''F'' else []) @ (if PSH f then ''P'' else []) @ (if ACK f then ''A'' else [])"

definition tcp_scan_item_to_strarr :: "gopacket \<Rightarrow> tcp_item \<Rightarrow> string list" where
  "tcp_scan_item_to_strarr gp it =
     [itoa (uint (ti_id it)), format_time (ti_ts it), ip_string (ti_ip it), gp_port_str gp (ti_port it),
      itoa (uint (ti_seq it)), itoa (uint (ti_ack it)), flag_letters (ti_flags it),
      join_with '','' (map ip_string (ti_dns_recs it))]"

definition tcp_start_arg :: "string list \<Rightarrow> string option outcome" where
  "tcp_start_arg args =
     (if length args < 1 then Ret None else bindO (index args 0) (\<lambda>a. Ret (Some a)))"

lemma tcp_start_arg_no_panic: "tcp_start_arg args = Ret (case args of [] \<Rightarrow> None | a # _ \<Rightarrow> Some a)"
  by (cases args) (simp_all add: tcp_start_arg_def)

subsection \<open>Linked lists in the heap\<close>

fun path :: "heap \<Rightarrow> nat option \<Rightarrow> nat list \<Rightarrow> bool" where
  "path h p [] \<longleftrightarrow> p = None"
| "path h p (a # as) \<longleftrightarrow> p = Some a \<and> (\<exists>it. h a = Some it \<and> path h (ti_Next it) as)"

definition cells :: "heap \<Rightarrow> nat list \<Rightarrow> tcp_item list" where
  "cells h as = map (\<lambda>a. the (h a)) as"

lemma path_frame: "path h p as \<Longrightarrow> \<forall>a \<in> set as. h' a = h a \<Longrightarrow> path h' p as"
  by (induction as arbitrary: p) auto

lemma cells_frame: "\<forall>a \<in> set as. h' a = h a \<Longrightarrow> cells h' as = cells h as"
  by (simp add: cells_def)

lemma path_dom: "path h p as \<Longrightarrow> a \<in> set as \<Longrightarrow> \<exists>it. h a = Some it"
  by (induction as arbitrary: p) auto

lemma last_item_path: "path h (Some a) (a # as) \<Longrightarrow> last_item h a = Some (last (a # as))"
proof (induction as arbitrary: a)
  case Nil
  then show ?case by (subst last_item.simps) auto
next
  case (Cons b as)
  then obtain it where it: "h a = Some it" "ti_Next it = Some b" "path h (Some b) (b # as)" by auto
  from it(1,2) have "last_item h a = last_item h b" by (subst last_item.simps) simp
  with Cons.IH [OF it(3)] show ?case by simp
qed

lemma walk_path: "path h p as \<Longrightarrow> walk h p = Some (cells h as)"
proof (induction as arbitrary: p)
  case Nil
  then show ?case by (subst walk.simps) (simp add: cells_def)
next
  case (Cons a as)
  then show ?case by (subst walk.simps) (auto simp: cells_def)
qed

text \<open>Appending a fresh item behind the last one.\<close>

lemma path_append:
  assumes "path h p as" and "as \<noteq> []" and "distinct as" and "n \<notin> set as" and "h (last as) = Some li"
    and "ti_Next it = None"
  shows "path (h(last as \<mapsto> li\<lparr>ti_Next := Some n\<rparr>, n \<mapsto> it)) p (as @ [n])"
  using assms(1-5)
proof (induction as arbitrary: p)
  case Nil
  then show ?case by simp
next
  case (Cons a as)
  show ?case
  proof (cases "as = []")
    case True
    then show ?thesis using Cons.prems assms(6) by auto
  next
    case False
    from Cons.prems(1) obtain x where x: "p = Some a" "h a = Some x" "path h (ti_Next x) as" by auto
    have "path (h(last as \<mapsto> li\<lparr>ti_Next := Some n\<rparr>, n \<mapsto> it)) (ti_Next x) (as @ [n])"
      by (rule Cons.IH [OF x(3) False]) (use Cons.prems False in auto)
    moreover have "a \<noteq> last as" using Cons.prems(3) False by auto
    then have "(h(last as \<mapsto> li\<lparr>ti_Next := Some n\<rparr>, n \<mapsto> it)) a = Some x"
      using x(2) Cons.prems(4) by auto
    ultimately show ?thesis
      unfolding x(1) append_Cons path.simps(2) last_ConsR [OF False] by blast
  qed
qed

lemma cells_append:
  assumes "as \<noteq> []" and "distinct as" and "n \<notin> set as" and "h (last as) = Some li"
  shows "cells (h(last as \<mapsto> li\<lparr>ti_Next := x\<rparr>, n \<mapsto> it)) (as @ [n]) =
    cells h (butlast as) @ [li\<lparr>ti_Next := x\<rparr>, it]"
proof -
  obtain bs l where as: "as = bs @ [l]" using assms(1) by (metis append_butlast_last_id)
  then have "l \<notin> set bs" "n \<notin> set bs" "n \<noteq> l" using assms(2,3) by auto
  then have "map (\<lambda>a. the ((h(l \<mapsto> li\<lparr>ti_Next := x\<rparr>, n \<mapsto> it)) a)) bs = map (\<lambda>a. the (h a)) bs"
    by (intro map_cong) auto
  then show ?thesis using \<open>n \<noteq> l\<close> by (simp add: cells_def as)
qed

subsection \<open>The invariant of the connections\<close>

text \<open>
  The items of a connection, without their pointers: a SYN; a SYN and a SYN-ACK; or a SYN, a
  SYN-ACK and a response.
\<close>

inductive conn_shape :: "u32 \<Rightarrow> tcp_item list \<Rightarrow> bool" for i where
  Syn: "Is_SYN (ti_flags a) \<Longrightarrow> ti_id a = i \<Longrightarrow> conn_shape i [a]"
| SynAck: "Is_SYN (ti_flags a) \<Longrightarrow> ti_id a = i \<Longrightarrow> Is_SYN_ACK (ti_flags b) \<Longrightarrow> ti_id b = i \<Longrightarrow> conn_shape i [a, b]"
| Response: "Is_SYN (ti_flags a) \<Longrightarrow> ti_id a = i \<Longrightarrow> Is_SYN_ACK (ti_flags b) \<Longrightarrow> ti_id b = i \<Longrightarrow>
    Is_PSH_ACK (ti_flags c) \<or> Is_FIN_PSH_ACK (ti_flags c) \<Longrightarrow> ti_id c = i \<Longrightarrow> conn_shape i [a, b, c]"

inductive_cases conn_shape_1: "conn_shape i [a]"
inductive_cases conn_shape_2: "conn_shape i [a, b]"
inductive_cases conn_shape_3: "conn_shape i [a, b, c]"

lemma conn_shape_length: "conn_shape i xs \<Longrightarrow> xs \<noteq> [] \<and> length xs \<le> 3"
  by (induction rule: conn_shape.induct) simp_all

definition conn :: "tcp_state \<Rightarrow> nat \<Rightarrow> u32 \<Rightarrow> nat list \<Rightarrow> bool" where
  "conn s a i as \<longleftrightarrow> path (ts_heap s) (Some a) as \<and> as \<noteq> [] \<and> distinct as \<and>
     (\<forall>x \<in> set as. x < ts_free s) \<and> conn_shape i (cells (ts_heap s) as) \<and>
     (ti_port (hd (cells (ts_heap s) as)), ti_seq (hd (cells (ts_heap s) as))) = tcp_key i"

definition roots :: "tcp_state \<Rightarrow> nat set" where
  "roots s = ran (ts_items s) \<union> set (ts_write s)"

definition tcp_inv :: "tcp_state \<Rightarrow> bool" where
  "tcp_inv s \<longleftrightarrow> (\<forall>a \<in> roots s. \<exists>i as. conn s a i as) \<and>
     (\<forall>a b i j as bs. a \<in> roots s \<and> b \<in> roots s \<and> a \<noteq> b \<and> conn s a i as \<and> conn s b j bs \<longrightarrow>
        set as \<inter> set bs = {}) \<and>
     (\<forall>k a i as. ts_items s k = Some a \<and> conn s a i as \<longrightarrow> k = tcp_key i)"

lemma path_hd: "path h (Some a) as \<Longrightarrow> as \<noteq> [] \<and> hd as = a"
  by (cases as) auto

lemma path_det: "path h p as \<Longrightarrow> path h p bs \<Longrightarrow> as = bs"
proof (induction as arbitrary: p bs)
  case Nil
  then show ?case by (cases bs) auto
next
  case (Cons a as)
  then show ?case by (cases bs) auto
qed

lemma conn_head:
  assumes "conn s a i as"
  obtains ra where "ts_heap s a = Some ra" "hd (cells (ts_heap s) as) = ra" "ti_id ra = i"
    "ti_port ra = tcp_port i" "ti_seq ra = tcp_seq i" "a \<in> set as"
proof -
  obtain r where as: "as = a # r" using assms by (cases as) (auto simp: conn_def)
  then obtain ra where ra: "ts_heap s a = Some ra" using assms by (auto simp: conn_def)
  have "conn_shape i (ra # cells (ts_heap s) r)" using assms ra by (simp add: conn_def as cells_def)
  then have "ti_id ra = i" by (cases rule: conn_shape.cases) auto
  then show thesis using that assms ra by (simp add: conn_def as cells_def tcp_key_def)
qed

lemma conn_det:
  assumes "conn s a i as" and "conn s a j bs" shows "i = j" and "as = bs"
proof -
  show "as = bs" using assms path_det by (simp add: conn_def) blast
  show "i = j" using assms(1) by (rule conn_head) (use assms(2) in \<open>auto elim: conn_head\<close>)
qed

lemma conn_frame:
  assumes "conn s a i as" and "\<forall>x \<in> set as. ts_heap s' x = ts_heap s x" and "ts_free s \<le> ts_free s'"
  shows "conn s' a i as"
proof -
  have "path (ts_heap s') (Some a) as" using assms(1,2) path_frame by (auto simp: conn_def)
  moreover have "cells (ts_heap s') as = cells (ts_heap s) as" using assms(2) by (rule cells_frame)
  ultimately show ?thesis using assms(1,3) by (fastforce simp: conn_def)
qed

lemma tcp_invI:
  assumes "\<And>a. a \<in> roots s \<Longrightarrow> \<exists>i as. conn s a i as"
    and "\<And>a b i j as bs. a \<in> roots s \<Longrightarrow> b \<in> roots s \<Longrightarrow> a \<noteq> b \<Longrightarrow> conn s a i as \<Longrightarrow> conn s b j bs \<Longrightarrow>
      set as \<inter> set bs = {}"
    and "\<And>k a i as. ts_items s k = Some a \<Longrightarrow> conn s a i as \<Longrightarrow> k = tcp_key i"
  shows "tcp_inv s"
  unfolding tcp_inv_def using assms by blast

lemma tcp_invD:
  assumes "tcp_inv s"
  shows "a \<in> roots s \<Longrightarrow> \<exists>i as. conn s a i as"
    and "a \<in> roots s \<Longrightarrow> b \<in> roots s \<Longrightarrow> a \<noteq> b \<Longrightarrow> conn s a i as \<Longrightarrow> conn s b j bs \<Longrightarrow> set as \<inter> set bs = {}"
    and "ts_items s k = Some a \<Longrightarrow> conn s a i as \<Longrightarrow> k = tcp_key i"
  using assms unfolding tcp_inv_def by blast+

lemma roots_items: "ts_items s k = Some a \<Longrightarrow> a \<in> roots s"
  by (simp add: roots_def ranI)

lemma tcp_inv_init: "tcp_inv (tcp_init n)"
  by (rule tcp_invI) (auto simp: roots_def tcp_init_def)

text \<open>A state with the same heap and no new roots keeps the invariant.\<close>

lemma tcp_inv_mono:
  assumes inv: "tcp_inv s" and "ts_heap s' = ts_heap s" and "ts_free s' = ts_free s"
    and r: "roots s' \<subseteq> roots s" and "ts_items s' \<subseteq>\<^sub>m ts_items s"
  shows "tcp_inv s'"
proof -
  have c: "conn s' a i as \<longleftrightarrow> conn s a i as" for a i as by (simp add: conn_def assms(2,3))
  have "ts_items s k = Some a" if "ts_items s' k = Some a" for k a
    using that assms(5) by (metis domI map_le_def)
  note sub = this
  show ?thesis
  proof (rule tcp_invI; unfold c)
    fix a assume "a \<in> roots s'"
    then show "\<exists>i as. conn s a i as" using r tcp_invD(1) [OF inv] by blast
  next
    fix a b i j as bs
    assume "a \<in> roots s'" "b \<in> roots s'" "a \<noteq> b" "conn s a i as" "conn s b j bs"
    then show "set as \<inter> set bs = {}" using r tcp_invD(2) [OF inv] by blast
  next
    fix k a i as assume "ts_items s' k = Some a" "conn s a i as"
    then show "k = tcp_key i" using sub tcp_invD(3) [OF inv] by blast
  qed
qed

lemma tcp_send_fields:
  "ts_heap (tcp_send cfg inp s) = (ts_heap s)(ts_free s \<mapsto> new_syn_item (ts_id s) inp)"
  "ts_free (tcp_send cfg inp s) = Suc (ts_free s)"
  "ts_items (tcp_send cfg inp s) = (ts_items s)(tcp_key (ts_id s) \<mapsto> ts_free s)"
  "ts_id (tcp_send cfg inp s) = ts_id s + 1"
  "ts_write (tcp_send cfg inp s) = ts_write s"
  "ts_sent (tcp_send cfg inp s) = ts_sent s @ [syn_packet cfg (tin_dst inp) (tcp_port (ts_id s)) (tcp_seq (ts_id s))]"
  "ts_rows (tcp_send cfg inp s) = ts_rows s"
  "ts_payload_size (tcp_send cfg inp s) = ts_payload_size s"
  by (simp_all add: tcp_send_def get_next_id_def send_syn_def tcp_key_def)

text \<open>
  An operation on one connection: the others are as before and share no item with it, and its key is
  the one of its id.
\<close>

lemma tcp_inv_one:
  assumes inv: "tcp_inv s" and rt: "roots t \<subseteq> insert a (roots s)" and new: "conn t a i as"
    and old: "\<And>b j bs. b \<in> roots s \<Longrightarrow> b \<noteq> a \<Longrightarrow> conn s b j bs \<Longrightarrow> conn t b j bs \<and> set as \<inter> set bs = {}"
    and key: "\<And>k. ts_items t k = Some a \<Longrightarrow> k = tcp_key i"
    and keys: "\<And>k b. ts_items t k = Some b \<Longrightarrow> b \<noteq> a \<Longrightarrow> ts_items s k = Some b"
  shows "tcp_inv t"
proof -
  have ex: "b = a \<and> j = i \<and> bs = as \<or> b \<in> roots s \<and> b \<noteq> a \<and> conn s b j bs"
    if b: "b \<in> roots t" "conn t b j bs" for b j bs
  proof (cases "b = a")
    case True
    then show ?thesis using b(2) new conn_det by blast
  next
    case False
    then have r: "b \<in> roots s" using b(1) rt by auto
    then obtain j' bs' where "conn s b j' bs'" using tcp_invD(1) [OF inv] by blast
    then show ?thesis using False r old b(2) conn_det by metis
  qed
  show ?thesis
  proof (rule tcp_invI)
    fix b assume "b \<in> roots t"
    then show "\<exists>j bs. conn t b j bs" using rt new old tcp_invD(1) [OF inv] by blast
  next
    fix b d j k bs ds
    assume h: "b \<in> roots t" "d \<in> roots t" "b \<noteq> d" "conn t b j bs" "conn t d k ds"
    show "set bs \<inter> set ds = {}"
      using ex [OF h(1,4)] ex [OF h(2,5)] h(3) old tcp_invD(2) [OF inv] by (elim disjE conjE) blast+
  next
    fix k b j bs assume h: "ts_items t k = Some b" "conn t b j bs"
    from ex [OF roots_items [OF h(1)] h(2)] show "k = tcp_key j"
      using key keys h(1) tcp_invD(3) [OF inv] by (elim disjE conjE) blast+
  qed
qed

lemma tcp_inv_send:
  assumes inv: "tcp_inv s" shows "tcp_inv (tcp_send cfg inp s)"
proof -
  let ?s = "tcp_send cfg inp s" and ?n = "ts_free s"
  have lt: "\<forall>x \<in> set bs. x < ?n" if "conn s b j bs" for b j bs using that by (simp add: conn_def)
  have nr: "?n \<notin> roots s" using tcp_invD(1) [OF inv] conn_head lt by (metis less_irrefl)
  show ?thesis
  proof (rule tcp_inv_one [OF inv, where a = ?n and i = "ts_id s" and as = "[?n]"])
    show "roots ?s \<subseteq> insert ?n (roots s)"
      by (auto simp: roots_def tcp_send_fields ran_def split: if_splits)
    show "conn ?s ?n (ts_id s) [?n]"
      by (simp add: conn_def tcp_send_fields cells_def new_syn_item_def tcp_key_def conn_shape.Syn Is_SYN_def flags_Equals_def)
  next
    fix b j bs assume c: "conn s b j bs"
    have "conn ?s b j bs" by (rule conn_frame [OF c]) (use lt [OF c] in \<open>auto simp: tcp_send_fields\<close>)
    with lt [OF c] show "conn ?s b j bs \<and> set [?n] \<inter> set bs = {}" by auto
  next
    fix k assume "ts_items ?s k = Some ?n"
    moreover have "\<not> ts_items s k = Some ?n" using nr roots_items by blast
    ultimately show "k = tcp_key (ts_id s)" by (simp add: tcp_send_fields split: if_splits)
  qed (simp add: tcp_send_fields split: if_splits)
qed

text \<open>Appending an item to the list of a connection.\<close>

lemma link_item_fields:
  assumes "ts_heap s l = Some li"
  shows "ts_heap (link_item l it s) = (ts_heap s)(l \<mapsto> li\<lparr>ti_Next := Some (ts_free s)\<rparr>, ts_free s \<mapsto> it)"
    "ts_free (link_item l it s) = Suc (ts_free s)" "ts_items (link_item l it s) = ts_items s"
    "ts_write (link_item l it s) = ts_write s" "ts_id (link_item l it s) = ts_id s"
    "ts_sent (link_item l it s) = ts_sent s" "ts_rows (link_item l it s) = ts_rows s"
    "ts_payload_size (link_item l it s) = ts_payload_size s"
  using assms by (simp_all add: link_item_def)

lemma link_item_other:
  "ts_items (link_item l it s) = ts_items s" "ts_write (link_item l it s) = ts_write s"
  "ts_rows (link_item l it s) = ts_rows s" "ts_sent (link_item l it s) = ts_sent s" "ts_id (link_item l it s) = ts_id s"
  "ts_payload_size (link_item l it s) = ts_payload_size s"
  by (simp_all add: link_item_def split: option.split)

lemma conn_last:
  assumes "conn s a i as"
  obtains li where "ts_heap s (last as) = Some li" "last as \<in> set as" "last (cells (ts_heap s) as) = li"
proof -
  have "as \<noteq> []" using assms by (simp add: conn_def)
  then have "last as \<in> set as" by simp
  moreover then obtain li where "ts_heap s (last as) = Some li"
    using assms path_dom by (fastforce simp: conn_def)
  ultimately show thesis using that \<open>as \<noteq> []\<close> by (simp add: cells_def last_map)
qed

lemma conn_link:
  assumes c: "conn s a i as" and li: "ts_heap s (last as) = Some li" and it: "ti_Next it = None"
    and shape: "conn_shape i (cells (ts_heap s) (butlast as) @ [li\<lparr>ti_Next := Some (ts_free s)\<rparr>, it])"
  shows "conn (link_item (last as) it s) a i (as @ [ts_free s])"
proof -
  have fresh: "ts_free s \<notin> set as" using c by (auto simp: conn_def)
  have ne: "as \<noteq> []" "distinct as" using c by (simp_all add: conn_def)
  have p: "path (ts_heap (link_item (last as) it s)) (Some a) (as @ [ts_free s])"
    unfolding link_item_fields(1) [OF li]
    by (rule path_append) (use c li it fresh in \<open>simp_all add: conn_def\<close>)
  have cl: "cells (ts_heap (link_item (last as) it s)) (as @ [ts_free s]) =
      cells (ts_heap s) (butlast as) @ [li\<lparr>ti_Next := Some (ts_free s)\<rparr>, it]"
    unfolding link_item_fields(1) [OF li] by (rule cells_append [where h = "ts_heap s", OF ne fresh li])
  have hd: "(ti_port (hd (cells (ts_heap s) as)), ti_seq (hd (cells (ts_heap s) as))) = tcp_key i"
    using c by (simp add: conn_def)
  have "cells (ts_heap s) as = cells (ts_heap s) (butlast as) @ [li]"
    using ne(1) li by (cases as rule: rev_cases) (simp_all add: cells_def)
  then have hd': "(ti_port (hd (cells (ts_heap s) (butlast as) @ [li\<lparr>ti_Next := Some (ts_free s)\<rparr>, it])),
      ti_seq (hd (cells (ts_heap s) (butlast as) @ [li\<lparr>ti_Next := Some (ts_free s)\<rparr>, it]))) = tcp_key i"
    using hd by (cases "cells (ts_heap s) (butlast as)") simp_all
  have lt: "\<forall>x \<in> set (as @ [ts_free s]). x < ts_free (link_item (last as) it s)"
    using c by (auto simp: conn_def link_item_fields(2) [OF li])
  show ?thesis
    unfolding conn_def cl using p lt ne fresh shape hd' by simp
qed

lemma tcp_inv_link:
  assumes inv: "tcp_inv s" and a: "a \<in> roots s" and c: "conn s a i as"
    and li: "ts_heap s (last as) = Some li" and it: "ti_Next it = None"
    and shape: "conn_shape i (cells (ts_heap s) (butlast as) @ [li\<lparr>ti_Next := Some (ts_free s)\<rparr>, it])"
  shows "tcp_inv (link_item (last as) it s)"
proof (rule tcp_inv_one [OF inv _ conn_link [OF c li it shape]])
  let ?s = "link_item (last as) it s"
  show "roots ?s \<subseteq> insert a (roots s)" by (auto simp: roots_def link_item_fields [OF li])
  fix b j bs assume b: "b \<in> roots s" "b \<noteq> a" "conn s b j bs"
  have disj: "set as \<inter> set bs = {}" using tcp_invD(2) [OF inv a b(1) _ c b(3)] b(2) by simp
  moreover have "last as \<in> set as" using c by (simp add: conn_def)
  moreover have "ts_free s \<notin> set bs" using b(3) by (auto simp: conn_def)
  ultimately have "\<forall>x \<in> set bs. ts_heap ?s x = ts_heap s x" "set (as @ [ts_free s]) \<inter> set bs = {}"
    by (auto simp: link_item_fields [OF li])
  then show "conn ?s b j bs \<and> set (as @ [ts_free s]) \<inter> set bs = {}"
    using conn_frame [OF b(3), of ?s] by (simp add: link_item_fields [OF li])
next
  fix k assume "ts_items (link_item (last as) it s) k = Some a"
  then show "k = tcp_key i" using tcp_invD(3) [OF inv _ c] by (simp add: link_item_fields [OF li])
qed (simp add: link_item_fields [OF li])

subsection \<open>Every packet is handled, and the invariant is kept\<close>

lemma find_chain_inv:
  assumes inv: "tcp_inv s"
  obtains "find_chain s k = Some None" "ts_items s k = None"
  | a ra li i as where "ts_items s k = Some a" "conn s a i as" "k = tcp_key i"
      "ts_heap s a = Some ra" "ts_heap s (last as) = Some li" "last (cells (ts_heap s) as) = li"
      "find_chain s k = Some (Some (a, ra, last as, li))"
proof (cases "ts_items s k")
  case None
  then show thesis using that(1) by (simp add: find_chain_def)
next
  case (Some a)
  then obtain i as where c: "conn s a i as" using tcp_invD(1) [OF inv roots_items] by blast
  obtain r where as: "as = a # r" using c by (cases as) (auto simp: conn_def)
  have l: "last_item (ts_heap s) a = Some (last as)"
    using c last_item_path by (simp add: conn_def as)
  from c obtain ra where ra: "ts_heap s a = Some ra" by (rule conn_head)
  from c obtain li where li: "ts_heap s (last as) = Some li" "last (cells (ts_heap s) as) = li"
    by (rule conn_last)
  show thesis
    by (rule that(2) [OF Some c tcp_invD(3) [OF inv Some c] ra li])
      (simp add: find_chain_def Some l ra li)
qed

lemma tcp_inv_emit: "tcp_inv s \<Longrightarrow> tcp_inv (tcp_emit p s)"
  by (rule tcp_inv_mono [of s]) (simp_all add: tcp_emit_def roots_def)

lemma tcp_inv_enqueue:
  assumes "tcp_inv s" and "a \<in> ran (ts_items s)"
  shows "tcp_inv (s\<lparr>ts_write := ts_write s @ [a]\<rparr>)"
  by (rule tcp_inv_mono [OF assms(1)]) (use assms(2) in \<open>auto simp: roots_def\<close>)

lemma tcp_inv_finish:
  assumes "tcp_inv s" and "ts_items s k = Some a"
  shows "tcp_inv ((tcp_emit p s)\<lparr>ts_write := ts_write (tcp_emit p s) @ [a]\<rparr>)"
  by (rule tcp_inv_enqueue [OF tcp_inv_emit [OF assms(1)]]) (use assms(2) in \<open>simp add: tcp_emit_def ranI\<close>)

text \<open>What the last item tells of the list.\<close>

lemma conn_last_syn:
  assumes "conn s a i as" and "last as = a"
  obtains ra where "as = [a]" "ts_heap s a = Some ra" "Is_SYN (ti_flags ra)" "ti_id ra = i"
proof -
  obtain r where as: "as = a # r" using assms(1) by (cases as) (auto simp: conn_def)
  have "r = []" using assms(1,2) by (auto simp: conn_def as split: if_splits)
  from assms(1) obtain ra where ra: "ts_heap s a = Some ra" "ti_id ra = i" by (rule conn_head)
  have "conn_shape i [ra]" using assms(1) ra by (simp add: conn_def as \<open>r = []\<close> cells_def)
  then show thesis using that ra by (auto simp: as \<open>r = []\<close> elim: conn_shape_1)
qed

lemma conn_last_syn_ack:
  assumes "conn s a i as" and "last (cells (ts_heap s) as) = li" and "Is_SYN_ACK (ti_flags li)"
  obtains ra where "cells (ts_heap s) as = [ra, li]" "Is_SYN (ti_flags ra)" "ti_id ra = i" "ti_id li = i"
proof -
  have "conn_shape i (cells (ts_heap s) as)" using assms(1) by (simp add: conn_def)
  then show thesis
  proof cases
    case (Syn x)
    then show ?thesis using assms(2,3) flag_preds_exclusive(1) by fastforce
  next
    case (SynAck x y)
    then show ?thesis using assms(2) that by simp
  next
    case (Response x y z)
    then show ?thesis using assms(2,3) flag_preds_exclusive(5,7) by fastforce
  qed
qed

lemma received_item_fields [simp]:
  "ti_Next (received_item now src tcp prev recs) = None"
  "ti_flags (received_item now src tcp prev recs) = tcp_flags tcp"
  "ti_id (received_item now src tcp prev recs) = ti_id prev"
  "ti_ip (received_item now src tcp prev recs) = src"
  "ti_dns_recs (received_item now src tcp prev recs) = recs"
  by (simp_all add: received_item_def)

lemma link_syn_ack_inv:
  assumes inv: "tcp_inv s" and k: "ts_items s k = Some a" and c: "conn s a i as"
    and la: "last as = a" and ra: "ts_heap s (last as) = Some ra"
    and f: "Is_SYN_ACK (tcp_flags tcp)"
  shows "tcp_inv (link_item (last as) (received_item now src tcp ra []) s)"
    and "conn (link_item (last as) (received_item now src tcp ra []) s) a i (as @ [ts_free s])"
proof -
  obtain ra' where r: "as = [a]" "ts_heap s a = Some ra'" "Is_SYN (ti_flags ra')" "ti_id ra' = i"
    using c la by (rule conn_last_syn)
  then have "conn_shape i (cells (ts_heap s) (butlast as) @
      [ra\<lparr>ti_Next := Some (ts_free s)\<rparr>, received_item now src tcp ra []])"
    using ra f by (simp add: cells_def conn_shape.SynAck)
  note * = this
  show "tcp_inv (link_item (last as) (received_item now src tcp ra []) s)"
    by (rule tcp_inv_link [OF inv roots_items [OF k] c ra _ *]) simp
  show "conn (link_item (last as) (received_item now src tcp ra []) s) a i (as @ [ts_free s])"
    by (rule conn_link [OF c ra _ *]) simp
qed

lemma link_response_inv:
  assumes inv: "tcp_inv s" and k: "ts_items s k = Some a" and c: "conn s a i as"
    and li: "ts_heap s (last as) = Some li" "last (cells (ts_heap s) as) = li"
    and sa: "Is_SYN_ACK (ti_flags li)" and f: "Is_PSH_ACK (tcp_flags tcp) \<or> Is_FIN_PSH_ACK (tcp_flags tcp)"
  shows "tcp_inv (link_item (last as) (received_item now src tcp li ips) s)"
    and "conn (link_item (last as) (received_item now src tcp li ips) s) a i (as @ [ts_free s])"
proof -
  obtain ra where r: "cells (ts_heap s) as = [ra, li]" "Is_SYN (ti_flags ra)" "ti_id ra = i" "ti_id li = i"
    using c li(2) sa by (rule conn_last_syn_ack)
  then have "cells (ts_heap s) (butlast as) = [ra]"
    by (simp add: cells_def map_butlast)
  then have "conn_shape i (cells (ts_heap s) (butlast as) @
      [li\<lparr>ti_Next := Some (ts_free s)\<rparr>, received_item now src tcp li ips])"
    using r sa f by (simp add: conn_shape.Response)
  note * = this
  show "tcp_inv (link_item (last as) (received_item now src tcp li ips) s)"
    by (rule tcp_inv_link [OF inv roots_items [OF k] c li(1) _ *]) simp
  show "conn (link_item (last as) (received_item now src tcp li ips) s) a i (as @ [ts_free s])"
    by (rule conn_link [OF c li(1) _ *]) simp
qed

lemma handle_syn_ack_inv:
  assumes inv: "tcp_inv s" and f: "Is_SYN_ACK (tcp_flags tcp)"
  shows "\<exists>s'. handle_syn_ack cfg gp now rnd src tcp s = Some s' \<and> tcp_inv s'"
proof (rule find_chain_inv [OF inv, of "(tcp_DstPort tcp, tcp_Ack tcp - 1)"])
  assume "find_chain s (tcp_DstPort tcp, tcp_Ack tcp - 1) = Some None"
  then show ?thesis using inv by (simp add: handle_syn_ack_def)
next
  fix a ra li i as
  assume h: "ts_items s (tcp_DstPort tcp, tcp_Ack tcp - 1) = Some a" "conn s a i as"
    "ts_heap s (last as) = Some li" "find_chain s (tcp_DstPort tcp, tcp_Ack tcp - 1) = Some (Some (a, ra, last as, li))"
  show ?thesis
  proof (cases "last as = a")
    case True
    then show ?thesis
      using h(4) tcp_inv_emit [OF link_syn_ack_inv(1) [OF inv h(1,2) True h(3) f]]
      by (auto simp: handle_syn_ack_def)
  next
    case False
    then show ?thesis using h(4) inv by (simp add: handle_syn_ack_def)
  qed
qed

lemma handle_fin_ack_inv:
  assumes inv: "tcp_inv s"
  shows "\<exists>s'. handle_fin_ack cfg src tcp s = Some s' \<and> tcp_inv s'"
proof (rule find_chain_inv [OF inv, of "(tcp_DstPort tcp, tcp_Ack tcp - 2 - ucast (ts_payload_size s))"])
  assume "find_chain s (tcp_DstPort tcp, tcp_Ack tcp - 2 - ucast (ts_payload_size s)) = Some None"
  then show ?thesis using inv by (simp add: handle_fin_ack_def)
next
  fix a ra li i as
  assume h: "ts_items s (tcp_DstPort tcp, tcp_Ack tcp - 2 - ucast (ts_payload_size s)) = Some a"
    "find_chain s (tcp_DstPort tcp, tcp_Ack tcp - 2 - ucast (ts_payload_size s)) = Some (Some (a, ra, last as, li))"
  then show ?thesis
    using tcp_inv_finish [OF inv h(1)] tcp_inv_emit [OF inv] by (simp add: handle_fin_ack_def Let_def)
qed

lemma handle_response_inv:
  assumes inv: "tcp_inv s" and f: "Is_PSH_ACK (tcp_flags tcp) \<or> Is_FIN_PSH_ACK (tcp_flags tcp)"
  shows "\<exists>s'. handle_response cfg gp now src tcp pld s = Some s' \<and> tcp_inv s'"
proof (rule find_chain_inv [OF inv, of "(tcp_DstPort tcp, tcp_Ack tcp - 1 - ucast (ts_payload_size s))"])
  assume "find_chain s (tcp_DstPort tcp, tcp_Ack tcp - 1 - ucast (ts_payload_size s)) = Some None"
  then show ?thesis using inv by (auto simp: handle_response_def split: option.split)
next
  fix a ra li i as
  assume h: "ts_items s (tcp_DstPort tcp, tcp_Ack tcp - 1 - ucast (ts_payload_size s)) = Some a" "conn s a i as"
    "ts_heap s (last as) = Some li" "last (cells (ts_heap s) as) = li"
    "find_chain s (tcp_DstPort tcp, tcp_Ack tcp - 1 - ucast (ts_payload_size s)) = Some (Some (a, ra, last as, li))"
  have "tcp_inv (link_item (last as) (received_item now src tcp li ips) s)"
    and "ts_items (link_item (last as) (received_item now src tcp li ips) s)
      (tcp_DstPort tcp, tcp_Ack tcp - 1 - ucast (ts_payload_size s)) = Some a"
    if "Is_SYN_ACK (ti_flags li)" for ips
    using link_response_inv(1) [OF inv h(1-4) that f] link_item_fields(3) [OF h(3)] h(1) by simp_all
  note fin = tcp_inv_finish [OF this] and emit = tcp_inv_emit [OF this(1)]
  show ?thesis
    using h(5) inv fin emit by (simp add: handle_response_def Let_def split: option.split)
qed

lemma tcp_Handle_pkt_inv:
  assumes "tcp_inv s"
  shows "\<exists>s'. tcp_Handle_pkt cfg gp now rnd ipl rx s = Some s' \<and> tcp_inv s'"
  using handle_syn_ack_inv [OF assms] handle_fin_ack_inv [OF assms] handle_response_inv [OF assms] assms
  by (auto simp: tcp_Handle_pkt_def split: option.split)

lemma tcp_Write_item_inv:
  assumes inv: "tcp_inv s" and w: "ts_write s = a # rest"
  shows "\<exists>s' i items. tcp_Write_item a (s\<lparr>ts_write := rest\<rparr>) = Some s' \<and> tcp_inv s' \<and>
    ts_rows s' = ts_rows s @ items \<and> conn_shape i items"
proof -
  have "a \<in> roots s" by (simp add: roots_def w)
  then obtain i as where c: "conn s a i as" using tcp_invD(1) [OF inv] by blast
  then obtain ra where ra: "ts_heap s a = Some ra" by (rule conn_head)
  have wk: "walk (ts_heap s) (Some a) = Some (cells (ts_heap s) as)"
    using c by (intro walk_path) (simp add: conn_def)
  let ?s = "s\<lparr>ts_write := rest, ts_rows := ts_rows s @ cells (ts_heap s) as,
     ts_items := (ts_items s)((ti_port ra, ti_seq ra) := None)\<rparr>"
  have "ran ((ts_items s)(k := None)) \<subseteq> ran (ts_items s)" for k by (auto simp: ran_def)
  then have "roots ?s \<subseteq> roots s" by (auto simp: roots_def w)
  then have "tcp_inv ?s" by (intro tcp_inv_mono [OF inv]) (auto simp: map_le_def)
  then show ?thesis using c ra wk by (auto simp: tcp_Write_item_def conn_def)
qed

lemma tcp_timeout_inv: "tcp_inv s \<Longrightarrow> tcp_inv (tcp_timeout now s)"
proof -
  assume inv: "tcp_inv s"
  have "ts_items (tcp_timeout now s) \<subseteq>\<^sub>m ts_items s"
    by (simp add: tcp_timeout_def Timeout_sweep_sub)
  moreover from this have "ran (ts_items (tcp_timeout now s)) \<subseteq> ran (ts_items s)"
    by (auto simp: ran_def map_le_def dom_def) metis
  ultimately show ?thesis
    by (intro tcp_inv_mono [OF inv]) (auto simp: tcp_timeout_def roots_def)
qed

subsection \<open>The scanner provides the interface of \<open>BaseScanner\<close>\<close>

definition tcp_open_items :: "tcp_state \<Rightarrow> u16 \<times> u32 \<Rightarrow> tcp_item option" where
  "tcp_open_items s k = Option.bind (ts_items s k) (ts_heap s)"

definition tcp_sent_to :: "tcp_state \<Rightarrow> ip list" where
  "tcp_sent_to s = map (\<lambda>(ipl, _, _). ip_DstIP ipl) (ts_sent s)"

definition tcp_next_key :: "tcp_state \<Rightarrow> u16 \<times> u32" where
  "tcp_next_key s = tcp_key (ts_id s)"

definition tcp_ok :: "tcp_state \<Rightarrow> bool" where
  "tcp_ok s \<longleftrightarrow> (\<forall>a \<in> ran (ts_items s). a < ts_free s)"

lemma ts_id_fold: "ts_id (fold (tcp_send cfg) is s) = ts_id s + of_nat (length is)"
  by (induction "is" arbitrary: s) (simp_all add: tcp_send_fields)

lemma u32_add_neq:
  assumes "0 < n" and "n < 2 ^ 32" shows "(w :: u32) + of_nat n \<noteq> w"
proof -
  have "unat (of_nat n :: u32) = n" using assms(2) by (simp add: unat_of_nat)
  then show ?thesis using assms(1) by (metis add_cancel_right_right less_not_refl2 unat_0)
qed

interpretation tcp: request_table "tcp_send cfg" tin_dst tcp_ok tcp_next_key tcp_open_items
  "\<lambda>s. new_syn_item (ts_id s)" tcp_sent_to "2 ^ 32" for cfg
proof unfold_locales
  fix s :: tcp_state and i assume "tcp_ok s"
  then show "tcp_ok (tcp_send cfg i s)"
    by (auto simp: tcp_ok_def tcp_send_fields ran_def less_Suc_eq split: if_splits)
next
  fix s :: tcp_state and i assume ok: "tcp_ok s"
  have "tcp_open_items (tcp_send cfg i s) k =
      ((tcp_open_items s)(tcp_next_key s \<mapsto> new_syn_item (ts_id s) i)) k" for k
  proof (cases "ts_items s k")
    case None
    then show ?thesis by (simp add: tcp_open_items_def tcp_send_fields tcp_next_key_def)
  next
    case (Some a)
    then have "a < ts_free s" using ok by (simp add: tcp_ok_def ranI)
    then show ?thesis using Some by (simp add: tcp_open_items_def tcp_send_fields tcp_next_key_def)
  qed
  then show "tcp_open_items (tcp_send cfg i s) = (tcp_open_items s)(tcp_next_key s \<mapsto> new_syn_item (ts_id s) i)"
    by (rule ext)
next
  fix s :: tcp_state and i
  show "tcp_sent_to (tcp_send cfg i s) = tcp_sent_to s @ [tin_dst i]"
    by (simp add: tcp_sent_to_def tcp_send_fields syn_packet_def)
next
  fix s :: tcp_state and "is" :: "tcp_input list"
  assume "is \<noteq> []" "length is < 2 ^ 32"
  then show "tcp_next_key (fold (tcp_send cfg) is s) \<noteq> tcp_next_key s"
    using u32_add_neq [of "length is" "ts_id s"] by (simp add: tcp_next_key_def ts_id_fold tcp_key_inj)
qed

subsection \<open>The system\<close>

text \<open>
  One rule per routine: a sender takes a target, a packet arrives, the clean-up runs, the writer
  takes an address from \<open>Write_chan\<close>. A handler is one step; in the code it walks and extends a
  list outside of the lock, so two packets of one connection handled at the same time can race.
\<close>

inductive tcp_step :: "Cfg_db \<Rightarrow> gopacket \<Rightarrow> ipnet list \<Rightarrow> tcp_state \<Rightarrow> tcp_state \<Rightarrow> bool"
  for cfg gp nets where
  TSend: "\<not> is_blocked nets (tin_dst i) \<Longrightarrow> tcp_step cfg gp nets s (tcp_send cfg i s)"
| THandle: "tcp_Handle_pkt cfg gp now rnd ipl rx s = Some s' \<Longrightarrow> tcp_step cfg gp nets s s'"
| TTimeout: "tcp_step cfg gp nets s (tcp_timeout clock s)"
| TWrite: "ts_write s = a # rest \<Longrightarrow> tcp_Write_item a (s\<lparr>ts_write := rest\<rparr>) = Some s' \<Longrightarrow>
    tcp_step cfg gp nets s s'"

inductive tcp_run :: "Cfg_db \<Rightarrow> gopacket \<Rightarrow> ipnet list \<Rightarrow> u16 \<Rightarrow> tcp_state \<Rightarrow> bool"
  for cfg gp nets psize where
  TStart: "tcp_run cfg gp nets psize (tcp_init psize)"
| TStep: "tcp_run cfg gp nets psize s \<Longrightarrow> tcp_step cfg gp nets s s' \<Longrightarrow> tcp_run cfg gp nets psize s'"

inductive_cases tcp_stepE: "tcp_step cfg gp nets s s'"

lemma tcp_run_inv: "tcp_run cfg gp nets psize s \<Longrightarrow> tcp_inv s"
proof (induction rule: tcp_run.induct)
  case TStart
  show ?case by (rule tcp_inv_init)
next
  case (TStep s s')
  show ?case
    using TStep.hyps(2)
  proof (rule tcp_stepE)
    fix now rnd ipl rx assume "tcp_Handle_pkt cfg gp now rnd ipl rx s = Some s'"
    then show ?thesis using tcp_Handle_pkt_inv [OF TStep.IH] by (metis option.inject)
  next
    fix a rest assume "ts_write s = a # rest" "tcp_Write_item a (s\<lparr>ts_write := rest\<rparr>) = Some s'"
    then show ?thesis using tcp_Write_item_inv [OF TStep.IH] by (metis option.inject)
  qed (simp_all add: TStep.IH tcp_inv_send tcp_timeout_inv)
qed

subsection \<open>Properties\<close>

text \<open>
  C17. The TCP scanner never gets stuck: in every reachable state every packet is handled (the walk
  along the linked items ends), every queued connection can be written, and what is written for
  it is a SYN, optionally followed by a SYN-ACK and then a response, all with the id of the target.
\<close>

theorem tcp_never_stuck:
  assumes "tcp_run cfg gp nets psize s"
  shows "(\<exists>s'. tcp_Handle_pkt cfg gp now rnd ipl rx s = Some s') \<and>
    (\<forall>a rest. ts_write s = a # rest \<longrightarrow> (\<exists>s' i items. tcp_Write_item a (s\<lparr>ts_write := rest\<rparr>) = Some s' \<and>
       ts_rows s' = ts_rows s @ items \<and> conn_shape i items \<and> length items \<le> 3))"
proof -
  note inv = tcp_run_inv [OF assms]
  have "\<exists>s'. tcp_Handle_pkt cfg gp now rnd ipl rx s = Some s'"
    using tcp_Handle_pkt_inv [OF inv] by blast
  moreover have "\<exists>s' i items. tcp_Write_item a (s\<lparr>ts_write := rest\<rparr>) = Some s' \<and>
       ts_rows s' = ts_rows s @ items \<and> conn_shape i items \<and> length items \<le> 3"
    if "ts_write s = a # rest" for a rest
    using tcp_Write_item_inv [OF inv that] conn_shape_length by meson
  ultimately show ?thesis by blast
qed

lemma tcp_never_stuck_witness:
  "\<forall>cfg gp now rnd ipl rx i. \<exists>s'. tcp_Handle_pkt cfg gp now rnd ipl rx (tcp_send cfg i (tcp_init 40)) = Some s'"
proof (intro allI)
  fix cfg gp now rnd ipl rx i
  have "tcp_run cfg gp [] 40 (tcp_send cfg i (tcp_init 40))"
    by (rule tcp_run.TStep [OF tcp_run.TStart tcp_step.TSend]) simp
  from tcp_never_stuck [OF this]
  show "\<exists>s'. tcp_Handle_pkt cfg gp now rnd ipl rx (tcp_send cfg i (tcp_init 40)) = Some s'" by blast
qed

text \<open>
  Over a whole cycle of \<open>2\<^sup>3\<^sup>2\<close> targets, none of the entries is overwritten by a later SYN; the entry
  under port and sequence number of the \<open>n\<close>-th SYN names the \<open>n\<close>-th target.
\<close>

lemma tcp_entry_of_syn:
  assumes "length inputs \<le> 2 ^ 32" and "n < length inputs"
    and "ts_sent (fold (tcp_send cfg) inputs (tcp_init psize)) ! n = (sip, stcp, spld)"
  shows "ip_DstIP sip = tin_dst (inputs ! n) \<and> 61440 \<le> tcp_SrcPort stcp \<and>
    (\<exists>it. tcp_open_items (fold (tcp_send cfg) inputs (tcp_init psize)) (tcp_SrcPort stcp, tcp_Seq stcp) = Some it \<and>
       ti_ip it = tin_dst (inputs ! n) \<and> ti_id it = of_nat n)"
proof -
  let ?f = "\<lambda>is. fold (tcp_send cfg) is (tcp_init psize)"
  have sent: "ts_sent (?f is) = map (\<lambda>j. syn_packet cfg (tin_dst (is ! j)) (tcp_port (of_nat j)) (tcp_seq (of_nat j))) [0..<length is]" for "is"
  proof (induction "is" rule: rev_induct)
    case Nil
    show ?case by (simp add: tcp_init_def)
  next
    case (snoc i "is")
    have "ts_id (?f is) = of_nat (length is)" by (simp add: ts_id_fold tcp_init_def)
    with snoc show ?case by (simp add: tcp_send_fields nth_append)
  qed
  have p: "(sip, stcp, spld) = syn_packet cfg (tin_dst (inputs ! n)) (tcp_port (of_nat n)) (tcp_seq (of_nat n))"
    using assms(2,3) sent [of inputs] by simp
  have ok: "tcp_ok (tcp_init psize)" by (simp add: tcp_ok_def tcp_init_def)
  obtain it where it: "tcp_open_items (?f inputs) (tcp_next_key (?f (take n inputs))) = Some it"
    "ti_ip it = tin_dst (inputs ! n)"
    using tcp.own_entry [OF ok assms(2,1), of cfg] by (simp add: new_syn_item_def)
  have k: "tcp_next_key (?f (take n inputs)) = (tcp_SrcPort stcp, tcp_Seq stcp)"
    using p assms(2) by (simp add: tcp_next_key_def ts_id_fold tcp_init_def syn_packet_def tcp_key_def)
  have inv: "tcp_inv (?f inputs)"
  proof -
    have "tcp_inv s \<Longrightarrow> tcp_inv (fold (tcp_send cfg) is s)" for s "is"
      by (induction "is" arbitrary: s) (simp_all add: tcp_inv_send)
    then show ?thesis using tcp_inv_init by blast
  qed
  obtain a where a: "ts_items (?f inputs) (tcp_SrcPort stcp, tcp_Seq stcp) = Some a" "ts_heap (?f inputs) a = Some it"
    using it(1) k by (auto simp: tcp_open_items_def bind_eq_Some_conv)
  obtain i as where c: "conn (?f inputs) a i as" using tcp_invD(1) [OF inv roots_items [OF a(1)]] by blast
  have "(tcp_SrcPort stcp, tcp_Seq stcp) = tcp_key i" by (rule tcp_invD(3) [OF inv a(1) c])
  moreover have "(tcp_SrcPort stcp, tcp_Seq stcp) = tcp_key (of_nat n)"
    using p by (simp add: syn_packet_def tcp_key_def)
  ultimately have "i = of_nat n" by (metis tcp_key_inj)
  moreover from c obtain ra where "ts_heap (?f inputs) a = Some ra" "ti_id ra = i" by (rule conn_head)
  ultimately have id: "ti_id it = of_nat n" using a(2) by simp
  have "61440 \<le> tcp_port (of_nat n)" by (rule tcp_port_range)
  then show ?thesis using p it k id by (auto simp: syn_packet_def)
qed

subsection \<open>What a packet changes\<close>

text \<open>The SYNs sent so far, and the items of the connection under a key.\<close>

definition tcp_syns :: "tcp_state \<Rightarrow> tcp_packet list" where
  "tcp_syns s = filter (\<lambda>(_, tcp, _). Is_SYN (tcp_flags tcp)) (ts_sent s)"

definition packet_key :: "tcp_packet \<Rightarrow> u16 \<times> u32" where
  "packet_key pkt = (tcp_SrcPort (fst (snd pkt)), tcp_Seq (fst (snd pkt)))"

definition tcp_chain :: "tcp_state \<Rightarrow> u16 \<times> u32 \<Rightarrow> tcp_item list option" where
  "tcp_chain s k = (case ts_items s k of None \<Rightarrow> None | Some a \<Rightarrow> walk (ts_heap s) (Some a))"

text \<open>A SYN-ACK acknowledges the SYN of a connection, every other packet that counts its query.\<close>

definition acknowledges :: "u16 \<Rightarrow> tcp_layer \<Rightarrow> u16 \<times> u32 \<Rightarrow> bool" where
  "acknowledges psize tcp k \<longleftrightarrow> tcp_DstPort tcp = fst k \<and>
     tcp_Ack tcp = snd k + 1 + (if Is_SYN_ACK (tcp_flags tcp) then 0 else ucast psize)"

lemma tcp_chain_conn: "ts_items s k = Some a \<Longrightarrow> conn s a i as \<Longrightarrow> tcp_chain s k = Some (cells (ts_heap s) as)"
  by (simp add: tcp_chain_def conn_def walk_path)

lemma tcp_chain_link:
  assumes inv: "tcp_inv s" and k: "ts_items s k = Some a" and c: "conn s a i as"
    and li: "ts_heap s (last as) = Some li" and it: "ti_Next it = None"
    and s': "ts_heap s' = ts_heap (link_item (last as) it s)" "ts_items s' = ts_items s"
  shows "tcp_chain s' k = Some (butlast (cells (ts_heap s) as) @ [li\<lparr>ti_Next := Some (ts_free s)\<rparr>, it])"
    and "j \<noteq> k \<Longrightarrow> tcp_chain s' j = tcp_chain s j"
proof -
  have as: "as \<noteq> []" "distinct as" "ts_free s \<notin> set as" using c by (auto simp: conn_def)
  have h: "ts_heap s' = (ts_heap s)(last as \<mapsto> li\<lparr>ti_Next := Some (ts_free s)\<rparr>, ts_free s \<mapsto> it)"
    by (simp add: s'(1) link_item_fields [OF li])
  have "path (ts_heap s') (Some a) (as @ [ts_free s])"
    unfolding h by (rule path_append) (use c li it as in \<open>simp_all add: conn_def\<close>)
  then show "tcp_chain s' k = Some (butlast (cells (ts_heap s) as) @ [li\<lparr>ti_Next := Some (ts_free s)\<rparr>, it])"
    using cells_append [where h = "ts_heap s" and x = "Some (ts_free s)" and it = it, OF as li]
    by (simp add: tcp_chain_def s'(2) k walk_path h cells_def map_butlast)
  show "tcp_chain s' j = tcp_chain s j" if j: "j \<noteq> k"
  proof (cases "ts_items s j")
    case (Some b)
    then obtain i' bs where cb: "conn s b i' bs" using tcp_invD(1) [OF inv roots_items] by blast
    have "b \<noteq> a" using tcp_invD(3) [OF inv Some cb] tcp_invD(3) [OF inv k c] conn_det(1) [OF c] cb j by blast
    then have "set as \<inter> set bs = {}"
      using tcp_invD(2) [OF inv roots_items [OF k] roots_items [OF Some] _ c cb] by blast
    moreover have "ts_free s \<notin> set bs" "last as \<in> set as" using cb as(1) by (auto simp: conn_def)
    ultimately have fr: "\<forall>x \<in> set bs. ts_heap s' x = ts_heap s x" by (auto simp: h)
    then have "path (ts_heap s') (Some b) bs" using cb path_frame by (auto simp: conn_def)
    then have "walk (ts_heap s') (Some b) = Some (cells (ts_heap s') bs)"
      "walk (ts_heap s) (Some b) = Some (cells (ts_heap s) bs)"
      using cb walk_path by (auto simp: conn_def)
    then show ?thesis using Some cells_frame [OF fr] by (simp add: tcp_chain_def s'(2))
  qed (simp add: tcp_chain_def s'(2))
qed

text \<open>A packet leaves the table alone, and it links at most one item, to the connection it acknowledges.\<close>

definition only_links :: "time \<Rightarrow> ipv4_layer \<Rightarrow> tcp_rx \<Rightarrow> tcp_state \<Rightarrow> tcp_state \<Rightarrow> bool" where
  "only_links now ipl rx s s' \<longleftrightarrow> ts_items s' = ts_items s \<and> ts_id s' = ts_id s \<and> tcp_syns s' = tcp_syns s \<and>
     (ts_heap s' = ts_heap s \<or>
      (\<exists>k a i as li tcp recs. ts_items s k = Some a \<and> conn s a i as \<and> ts_heap s (last as) = Some li \<and>
         last (cells (ts_heap s) as) = li \<and>
         tr_tcp rx = Some tcp \<and> acknowledges (ts_payload_size s) tcp k \<and>
         ts_heap s' = ts_heap (link_item (last as) (received_item now (ip_SrcIP ipl) tcp li recs) s)))"

lemma no_syn_emitted [simp]:
  "tcp_syns (tcp_emit (build_ack_pos_fin cfg d p sq ak b) s) = tcp_syns s"
  "tcp_syns (tcp_emit (Build_ack_with_dns cfg gp r d p sq ak) s) = tcp_syns s"
  "tcp_syns (link_item l it s) = tcp_syns s" "tcp_syns (s\<lparr>ts_write := w\<rparr>) = tcp_syns s"
  by (simp_all add: tcp_syns_def tcp_emit_def link_item_other build_ack_pos_fin_def Build_ack_with_dns_def
      Is_SYN_def flags_Equals_def)

lemma emit_fields [simp]:
  "ts_heap (tcp_emit p s) = ts_heap s" "ts_items (tcp_emit p s) = ts_items s" "ts_id (tcp_emit p s) = ts_id s"
  "ts_write (tcp_emit p s) = ts_write s"
  by (simp_all add: tcp_emit_def)

lemma only_links_refl: "ts_items s' = ts_items s \<Longrightarrow> ts_id s' = ts_id s \<Longrightarrow> tcp_syns s' = tcp_syns s \<Longrightarrow>
  ts_heap s' = ts_heap s \<Longrightarrow> only_links now ipl rx s s'"
  by (simp add: only_links_def)

lemma only_linksI:
  assumes "ts_items s k = Some a" "conn s a i as" "ts_heap s (last as) = Some li" "last (cells (ts_heap s) as) = li"
    and "tr_tcp rx = Some tcp" "acknowledges (ts_payload_size s) tcp k"
    and "ts_heap s' = ts_heap (link_item (last as) (received_item now (ip_SrcIP ipl) tcp li recs) s)"
    and "ts_items s' = ts_items s" "ts_id s' = ts_id s" "tcp_syns s' = tcp_syns s"
  shows "only_links now ipl rx s s'"
  unfolding only_links_def using assms by blast

lemma handle_syn_ack_links:
  assumes inv: "tcp_inv s" and rx: "tr_tcp rx = Some tcp" and f: "Is_SYN_ACK (tcp_flags tcp)"
    and h: "handle_syn_ack cfg gp now rnd (ip_SrcIP ipl) tcp s = Some s'"
  shows "only_links now ipl rx s s'"
proof (rule find_chain_inv [OF inv, of "(tcp_DstPort tcp, tcp_Ack tcp - 1)"])
  assume "find_chain s (tcp_DstPort tcp, tcp_Ack tcp - 1) = Some None"
  then show ?thesis using h by (simp add: handle_syn_ack_def only_links_refl)
next
  fix a ra li i as
  assume c: "ts_items s (tcp_DstPort tcp, tcp_Ack tcp - 1) = Some a" "conn s a i as"
    "ts_heap s (last as) = Some li" "last (cells (ts_heap s) as) = li"
    "find_chain s (tcp_DstPort tcp, tcp_Ack tcp - 1) = Some (Some (a, ra, last as, li))"
  have "acknowledges (ts_payload_size s) tcp (tcp_DstPort tcp, tcp_Ack tcp - 1)"
    using f by (simp add: acknowledges_def)
  from only_linksI [OF c(1-4) rx this] show ?thesis
    using h c(5) by (auto simp: handle_syn_ack_def only_links_refl link_item_other link_item_fields [OF c(3)] split: if_splits)
qed

lemma handle_fin_ack_links:
  assumes inv: "tcp_inv s" and h: "handle_fin_ack cfg src tcp s = Some s'"
  shows "only_links now ipl rx s s'"
  using h by (auto simp: handle_fin_ack_def Let_def intro!: only_links_refl split: option.splits if_splits)

lemma handle_response_links:
  assumes inv: "tcp_inv s" and rx: "tr_tcp rx = Some tcp" and f: "\<not> Is_SYN_ACK (tcp_flags tcp)"
    and h: "handle_response cfg gp now (ip_SrcIP ipl) tcp pld s = Some s'"
  shows "only_links now ipl rx s s'"
proof (rule find_chain_inv [OF inv, of "(tcp_DstPort tcp, tcp_Ack tcp - 1 - ucast (ts_payload_size s))"])
  assume "find_chain s (tcp_DstPort tcp, tcp_Ack tcp - 1 - ucast (ts_payload_size s)) = Some None"
  then show ?thesis using h by (auto simp: handle_response_def intro!: only_links_refl split: if_splits option.splits)
next
  fix a ra li i as
  assume c: "ts_items s (tcp_DstPort tcp, tcp_Ack tcp - 1 - ucast (ts_payload_size s)) = Some a" "conn s a i as"
    "ts_heap s (last as) = Some li" "last (cells (ts_heap s) as) = li"
    "find_chain s (tcp_DstPort tcp, tcp_Ack tcp - 1 - ucast (ts_payload_size s)) = Some (Some (a, ra, last as, li))"
  have "acknowledges (ts_payload_size s) tcp (tcp_DstPort tcp, tcp_Ack tcp - 1 - ucast (ts_payload_size s))"
    using f by (simp add: acknowledges_def)
  note link = only_linksI [OF c(1-4) rx this]
  show ?thesis
    using h c(5) by (auto simp: handle_response_def Let_def link_item_other
      intro: only_links_refl split: if_splits option.splits) (rule link; simp add: link_item_other)+
qed

lemma tcp_Handle_pkt_links:
  assumes inv: "tcp_inv s" and h: "tcp_Handle_pkt cfg gp now rnd ipl rx s = Some s'"
  shows "only_links now ipl rx s s'"
proof (cases "tr_tcp rx")
  case None
  with h show ?thesis by (simp add: tcp_Handle_pkt_def only_links_refl)
next
  case (Some tcp)
  have e: "\<not> Is_SYN_ACK (tcp_flags tcp)" if "Is_PSH_ACK (tcp_flags tcp) \<or> Is_FIN_PSH_ACK (tcp_flags tcp)"
    using that flag_preds_exclusive by blast
  show ?thesis
    using h Some handle_syn_ack_links [OF inv Some] handle_fin_ack_links [OF inv] handle_response_links [OF inv Some e]
    by (auto simp: tcp_Handle_pkt_def intro: only_links_refl split: if_splits)
qed

text \<open>
  The head of every list belongs to a SYN: to the last one that was sent with its port and sequence
  number.
\<close>

definition syn_inv :: "tcp_state \<Rightarrow> bool" where
  "syn_inv s \<longleftrightarrow> ts_id s = of_nat (length (tcp_syns s)) \<and>
     (\<forall>n < length (tcp_syns s). packet_key (tcp_syns s ! n) = tcp_key (of_nat n)) \<and>
     (\<forall>k a it. ts_items s k = Some a \<and> ts_heap s a = Some it \<longrightarrow>
        (\<exists>n < length (tcp_syns s). k = tcp_key (of_nat n) \<and> ti_id it = of_nat n \<and>
           ti_ip it = ip_DstIP (fst (tcp_syns s ! n)) \<and>
           (\<forall>m. n < m \<and> m < length (tcp_syns s) \<longrightarrow> tcp_key (of_nat m) \<noteq> k)))"

lemma syn_inv_init: "syn_inv (tcp_init psize)"
  by (simp add: syn_inv_def tcp_init_def tcp_syns_def)

text \<open>A state with the same SYNs, a smaller table, and heads that differ in their pointer at most.\<close>

definition same_heads :: "tcp_state \<Rightarrow> tcp_state \<Rightarrow> bool" where
  "same_heads s s' \<longleftrightarrow> (\<forall>a it'. a \<in> ran (ts_items s) \<and> ts_heap s' a = Some it' \<longrightarrow>
     (\<exists>it. ts_heap s a = Some it \<and> ti_id it = ti_id it' \<and> ti_ip it = ti_ip it'))"

lemma syn_inv_keep:
  assumes inv: "syn_inv s" and e: "ts_id s' = ts_id s" "tcp_syns s' = tcp_syns s"
    and sub: "ts_items s' \<subseteq>\<^sub>m ts_items s" and hd: "same_heads s s'"
  shows "syn_inv s'"
proof -
  have "\<exists>n < length (tcp_syns s). k = tcp_key (of_nat n) \<and> ti_id it = of_nat n \<and>
      ti_ip it = ip_DstIP (fst (tcp_syns s ! n)) \<and>
      (\<forall>m. n < m \<and> m < length (tcp_syns s) \<longrightarrow> tcp_key (of_nat m) \<noteq> k)"
    if "ts_items s' k = Some a" "ts_heap s' a = Some it" for k a it
  proof -
    note h = that
    have k: "ts_items s k = Some a" using h(1) sub by (metis domI map_le_def)
    from this obtain it0 where it0: "ts_heap s a = Some it0" "ti_id it0 = ti_id it" "ti_ip it0 = ti_ip it"
      using hd h(2) unfolding same_heads_def by (metis ranI)
    have "\<exists>n < length (tcp_syns s). k = tcp_key (of_nat n) \<and> ti_id it0 = of_nat n \<and>
      ti_ip it0 = ip_DstIP (fst (tcp_syns s ! n)) \<and>
      (\<forall>m. n < m \<and> m < length (tcp_syns s) \<longrightarrow> tcp_key (of_nat m) \<noteq> k)"
      using inv k it0(1) unfolding syn_inv_def by blast
    then show ?thesis unfolding it0(2,3) .
  qed
  then show ?thesis using inv unfolding syn_inv_def e by blast
qed

lemma same_heads_same: "ts_heap s' = ts_heap s \<Longrightarrow> same_heads s s'"
  by (simp add: same_heads_def)

lemma same_heads_link:
  assumes inv: "tcp_inv s" and li: "ts_heap s l = Some li" and h: "ts_heap s' = ts_heap (link_item l it s)"
  shows "same_heads s s'"
proof -
  have "a \<noteq> ts_free s" if a: "a \<in> ran (ts_items s)" for a
  proof -
    from a have "a \<in> roots s" by (simp add: roots_def)
    then obtain i as where "conn s a i as" using tcp_invD(1) [OF inv] by blast
    then show ?thesis using conn_head by (fastforce simp: conn_def)
  qed
  then show ?thesis by (auto simp: same_heads_def h link_item_fields [OF li] li)
qed

lemma syn_inv_send:
  assumes inv: "tcp_inv s" and si: "syn_inv s"
  shows "syn_inv (tcp_send cfg inp s)"
proof -
  let ?s = "tcp_send cfg inp s" and ?n = "length (tcp_syns s)"
  let ?pkt = "syn_packet cfg (tin_dst inp) (tcp_port (ts_id s)) (tcp_seq (ts_id s))"
  have sy: "tcp_syns ?s = tcp_syns s @ [?pkt]"
    by (simp add: tcp_syns_def tcp_send_fields syn_packet_def Is_SYN_def flags_Equals_def)
  have pk: "packet_key ?pkt = tcp_key (ts_id s)" "ip_DstIP (fst ?pkt) = tin_dst inp"
    by (simp_all add: packet_key_def syn_packet_def tcp_key_def)
  have id: "ts_id s = of_nat ?n" using si by (simp add: syn_inv_def)
  have "\<exists>n < length (tcp_syns ?s). k = tcp_key (of_nat n) \<and> ti_id it = of_nat n \<and>
      ti_ip it = ip_DstIP (fst (tcp_syns ?s ! n)) \<and>
      (\<forall>m. n < m \<and> m < length (tcp_syns ?s) \<longrightarrow> tcp_key (of_nat m) \<noteq> k)"
    if k: "ts_items ?s k = Some a" "ts_heap ?s a = Some it" for k a it
  proof (cases "k = tcp_key (ts_id s)")
    case True
    then have "a = ts_free s" using k(1) by (simp add: tcp_send_fields)
    then have "it = new_syn_item (ts_id s) inp" using k(2) by (simp add: tcp_send_fields)
    then show ?thesis
      by (intro exI [of _ ?n]) (auto simp: True sy id [symmetric] pk(2) nth_append new_syn_item_def)
  next
    case False
    then have i: "ts_items s k = Some a" using k(1) by (simp add: tcp_send_fields)
    obtain j as where "conn s a j as" using tcp_invD(1) [OF inv roots_items [OF i]] by blast
    then have "a \<noteq> ts_free s" using conn_head by (fastforce simp: conn_def)
    then have "ts_heap s a = Some it" using k(2) by (simp add: tcp_send_fields)
    then obtain n where n: "n < ?n" "k = tcp_key (of_nat n)" "ti_id it = of_nat n"
      "ti_ip it = ip_DstIP (fst (tcp_syns s ! n))" "\<forall>m. n < m \<and> m < ?n \<longrightarrow> tcp_key (of_nat m) \<noteq> k"
      using si i unfolding syn_inv_def by blast
    have "\<forall>m. n < m \<and> m < Suc ?n \<longrightarrow> tcp_key (of_nat m) \<noteq> k"
      using n(5) False id by (auto simp: less_Suc_eq)
    with n(1-4) show ?thesis by (intro exI [of _ n]) (simp add: sy nth_append)
  qed
  moreover have "packet_key (tcp_syns ?s ! n) = tcp_key (of_nat n)" if "n < length (tcp_syns ?s)" for n
    using that si pk(1) id by (auto simp: sy nth_append less_Suc_eq syn_inv_def)
  moreover have "ts_id ?s = of_nat (length (tcp_syns ?s))" by (simp add: sy tcp_send_fields id)
  ultimately show ?thesis unfolding syn_inv_def by blast
qed

lemma tcp_run_syn_inv: "tcp_run cfg gp nets psize s \<Longrightarrow> syn_inv s"
proof (induction rule: tcp_run.induct)
  case TStart
  show ?case by (rule syn_inv_init)
next
  case (TStep s s')
  note inv = tcp_run_inv [OF TStep.hyps(1)]
  show ?case
    using TStep.hyps(2)
  proof (rule tcp_stepE)
    fix now rnd ipl rx assume "tcp_Handle_pkt cfg gp now rnd ipl rx s = Some s'"
    then have l: "only_links now ipl rx s s'" by (rule tcp_Handle_pkt_links [OF inv])
    then have "same_heads s s'"
      unfolding only_links_def using same_heads_same same_heads_link [OF inv] by blast
    then show ?thesis
      using l by (intro syn_inv_keep [OF TStep.IH]) (simp_all add: only_links_def)
  next
    fix a rest assume w: "tcp_Write_item a (s\<lparr>ts_write := rest\<rparr>) = Some s'"
    then have "ts_items s' \<subseteq>\<^sub>m ts_items s" "ts_heap s' = ts_heap s" "ts_id s' = ts_id s" "tcp_syns s' = tcp_syns s"
      by (auto simp: tcp_Write_item_def map_le_def tcp_syns_def split: option.splits if_splits)
    then show ?thesis by (intro syn_inv_keep [OF TStep.IH] same_heads_same)
  next
    fix clock assume "s' = tcp_timeout clock s"
    then have "ts_items s' \<subseteq>\<^sub>m ts_items s" "ts_heap s' = ts_heap s" "ts_id s' = ts_id s" "tcp_syns s' = tcp_syns s"
      by (simp_all add: tcp_timeout_def Timeout_sweep_sub tcp_syns_def)
    then show ?thesis by (intro syn_inv_keep [OF TStep.IH] same_heads_same)
  qed (simp_all add: syn_inv_send [OF inv TStep.IH])
qed


text \<open>The list of one open connection, as an exchange builds it up.\<close>

definition exch :: "tcp_state \<Rightarrow> u16 \<times> u32 \<Rightarrow> nat list \<Rightarrow> tcp_item list \<Rightarrow> bool" where
  "exch s k as its \<longleftrightarrow> as \<noteq> [] \<and> ts_items s k = Some (hd as) \<and> path (ts_heap s) (Some (hd as)) as \<and>
     distinct as \<and> cells (ts_heap s) as = its \<and> (\<forall>a \<in> set as. a < ts_free s)"

lemma exch_simps [simp]:
  "exch (tcp_emit p s) k as its = exch s k as its" "exch (s\<lparr>ts_write := w\<rparr>) k as its = exch s k as its"
  by (simp_all add: exch_def tcp_emit_def)

lemma exch_hd_last:
  assumes "exch s k as its"
  shows "ts_heap s (hd as) = Some (hd its)" and "ts_heap s (last as) = Some (last its)"
proof -
  have e: "as \<noteq> []" "path (ts_heap s) (Some (hd as)) as" "its = map (\<lambda>a. the (ts_heap s a)) as"
    using assms by (auto simp: exch_def cells_def)
  then have "\<exists>it. ts_heap s a = Some it" if "a \<in> set as" for a using path_dom that by blast
  from this [OF hd_in_set [OF e(1)]] this [OF last_in_set [OF e(1)]]
  show "ts_heap s (hd as) = Some (hd its)" "ts_heap s (last as) = Some (last its)"
    using e by (auto simp: hd_map last_map)
qed

lemma find_chain_exch: "exch s k as its \<Longrightarrow> find_chain s k = Some (Some (hd as, hd its, last as, last its))"
  using exch_hd_last [of s k as its] last_item_path [of "ts_heap s" "hd as" "tl as"]
  by (simp add: exch_def find_chain_def)

lemma exch_link:
  assumes e: "exch s k as its" and "ti_Next it = None" and l: "l = last as"
  shows "exch (link_item l it s) k (as @ [ts_free s])
      (butlast its @ [(last its)\<lparr>ti_Next := Some (ts_free s)\<rparr>, it])"
proof -
  have as: "as \<noteq> []" "distinct as" "ts_free s \<notin> set as" and its: "its = cells (ts_heap s) as"
    and h: "ts_heap s (last as) = Some (last its)"
    using e exch_hd_last [OF e] by (auto simp: exch_def)
  have p: "path (ts_heap s) (Some (hd as)) as" using e by (simp add: exch_def)
  have "path ((ts_heap s)(last as \<mapsto> (last its)\<lparr>ti_Next := Some (ts_free s)\<rparr>, ts_free s \<mapsto> it)) (Some (hd as)) (as @ [ts_free s])"
    by (rule path_append [OF p as h assms(2)])
  moreover have "cells ((ts_heap s)(last as \<mapsto> (last its)\<lparr>ti_Next := Some (ts_free s)\<rparr>, ts_free s \<mapsto> it)) (as @ [ts_free s]) =
      butlast its @ [(last its)\<lparr>ti_Next := Some (ts_free s)\<rparr>, it]"
    using cells_append [where h = "ts_heap s" and as = as and n = "ts_free s" and li = "last its", OF as h]
    by (simp add: its cells_def map_butlast)
  ultimately show "exch (link_item l it s) k (as @ [ts_free s])
      (butlast its @ [(last its)\<lparr>ti_Next := Some (ts_free s)\<rparr>, it])"
    using e as by (auto simp: exch_def link_item_def l h)
qed

lemma exch_write:
  assumes "exch s k as its" and "(ti_port (hd its), ti_seq (hd its)) = k"
  shows "tcp_Write_item (hd as) s = Some (s\<lparr>ts_rows := ts_rows s @ its, ts_items := (ts_items s)(k := None)\<rparr>)"
  using assms exch_hd_last [OF assms(1)] walk_path [of "ts_heap s" "Some (hd as)" as]
  by (simp add: exch_def tcp_Write_item_def)

text \<open>The three packets of the server, one handler call each.\<close>

lemma syn_ack_step:
  assumes e: "exch s (tcp_key i) [n] [syn]" and "ti_id syn = i"
    and "tr_tcp rx = Some t" "\<not> tr_app rx" "Is_SYN_ACK (tcp_flags t)" "tcp_DstPort t = tcp_port i" "tcp_Ack t = tcp_seq i + 1"
  shows "\<exists>s' m sa. tcp_Handle_pkt cfg gp now rnd ipl rx s = Some s' \<and>
    exch s' (tcp_key i) [n, m] [syn\<lparr>ti_Next := Some m\<rparr>, sa] \<and> ti_id sa = i \<and> ti_flags sa = tcp_flags t \<and>
    ts_write s' = ts_write s \<and> ts_rows s' = ts_rows s \<and> ts_payload_size s' = ts_payload_size s \<and>
    ts_sent s' = ts_sent s @ [Build_ack_with_dns cfg gp rnd (ti_ip syn) (tcp_port i) (tcp_Seq t) (tcp_Ack t)]"
proof -
  define sa where "sa = received_item now (ip_SrcIP ipl) t syn []"
  define s' where "s' = tcp_emit (Build_ack_with_dns cfg gp rnd (ti_ip syn) (tcp_port i) (tcp_Seq t) (tcp_Ack t)) (link_item n sa s)"
  have "exch (link_item n sa s) (tcp_key i) [n, ts_free s] [syn\<lparr>ti_Next := Some (ts_free s)\<rparr>, sa]"
    using exch_link [OF e, of sa n] by (simp add: sa_def)
  then have "exch s' (tcp_key i) [n, ts_free s] [syn\<lparr>ti_Next := Some (ts_free s)\<rparr>, sa]"
    unfolding s'_def exch_simps .
  moreover have "tcp_Handle_pkt cfg gp now rnd ipl rx s = Some s'"
    using assms(3-7) find_chain_exch [OF e]
    by (simp add: tcp_Handle_pkt_def handle_syn_ack_def tcp_key_def [symmetric] s'_def sa_def)
  moreover have "ts_write s' = ts_write s \<and> ts_rows s' = ts_rows s \<and> ts_payload_size s' = ts_payload_size s \<and>
      ts_sent s' = ts_sent s @ [Build_ack_with_dns cfg gp rnd (ti_ip syn) (tcp_port i) (tcp_Seq t) (tcp_Ack t)]"
    by (simp add: s'_def tcp_emit_def link_item_other)
  moreover have "ti_id sa = i \<and> ti_flags sa = tcp_flags t" by (simp add: sa_def assms(2))
  ultimately show ?thesis by blast
qed

lemma response_step:
  assumes e: "exch s (tcp_key i) [n, m] [syn, sa]" and "ti_id sa = i" "Is_SYN_ACK (ti_flags sa)"
    and "tr_tcp rx = Some t" "tr_app rx" "Is_PSH_ACK (tcp_flags t)"
      "tcp_DstPort t = tcp_port i" "tcp_Ack t = tcp_seq i + 1 + ucast (ts_payload_size s)"
      "2 < length (tr_payload rx)" "\<not> size_check_drops (tr_payload rx)"
      "gp_decode gp (drop 2 (tr_payload rx)) = Some dns" "answer_ips (dns_Answers dns) = Some ips"
  shows "\<exists>s' l re. tcp_Handle_pkt cfg gp now rnd ipl rx s = Some s' \<and>
    exch s' (tcp_key i) [n, m, l] [syn, sa\<lparr>ti_Next := Some l\<rparr>, re] \<and> ti_flags re = tcp_flags t \<and>
    ti_id re = i \<and> ti_dns_recs re = ips \<and> ti_ip re = ip_SrcIP ipl \<and>
    ts_write s' = ts_write s \<and> ts_rows s' = ts_rows s \<and> ts_payload_size s' = ts_payload_size s \<and>
    ts_sent s' = ts_sent s @ [build_ack_pos_fin cfg (ti_ip syn) (tcp_port i) (tcp_Seq t) (tcp_Ack t) True]"
proof -
  define re where "re = received_item now (ip_SrcIP ipl) t sa ips"
  define s' where "s' = tcp_emit (build_ack_pos_fin cfg (ti_ip syn) (tcp_port i) (tcp_Seq t) (tcp_Ack t) True) (link_item m re s)"
  have "exch (link_item m re s) (tcp_key i) [n, m, ts_free s] [syn, sa\<lparr>ti_Next := Some (ts_free s)\<rparr>, re]"
    using exch_link [OF e, of re m] by (simp add: re_def)
  then have "exch s' (tcp_key i) [n, m, ts_free s] [syn, sa\<lparr>ti_Next := Some (ts_free s)\<rparr>, re]"
    unfolding s'_def exch_simps .
  moreover have "\<not> Is_FIN_PSH_ACK (tcp_flags t)" "\<not> Is_PSH_ACK (ti_flags sa)"
    using assms(3,6) flag_preds_exclusive by blast+
  then have "tcp_Handle_pkt cfg gp now rnd ipl rx s = Some s'"
    using assms(3-12) find_chain_exch [OF e]
    by (simp add: tcp_Handle_pkt_def handle_response_def tcp_key_def [symmetric] s'_def re_def Let_def)
  moreover have "ts_write s' = ts_write s \<and> ts_rows s' = ts_rows s \<and> ts_payload_size s' = ts_payload_size s \<and>
      ts_sent s' = ts_sent s @ [build_ack_pos_fin cfg (ti_ip syn) (tcp_port i) (tcp_Seq t) (tcp_Ack t) True]"
    by (simp add: s'_def tcp_emit_def link_item_other)
  moreover have "ti_flags re = tcp_flags t \<and> ti_id re = i \<and> ti_dns_recs re = ips \<and> ti_ip re = ip_SrcIP ipl"
    by (simp add: re_def assms(2))
  ultimately show ?thesis by blast
qed

lemma fin_ack_step:
  assumes e: "exch s (tcp_key i) as its" and "Is_PSH_ACK (ti_flags (last its))"
    and "tr_tcp rx = Some t" "\<not> tr_app rx" "Is_FIN_ACK (tcp_flags t)"
      "tcp_DstPort t = tcp_port i" "tcp_Ack t = tcp_seq i + 2 + ucast (ts_payload_size s)"
  shows "\<exists>s'. tcp_Handle_pkt cfg gp now rnd ipl rx s = Some s' \<and> exch s' (tcp_key i) as its \<and>
    ts_write s' = ts_write s @ [hd as] \<and> ts_rows s' = ts_rows s \<and>
    ts_sent s' = ts_sent s @ [build_ack_pos_fin cfg (ti_ip (hd its)) (tcp_port i) (tcp_Seq t) (tcp_Ack t) False]"
proof -
  have "\<not> Is_SYN_ACK (tcp_flags t)" using assms(5) flag_preds_exclusive by blast
  then show ?thesis
    using assms find_chain_exch [OF e]
    by (simp add: tcp_Handle_pkt_def handle_fin_ack_def tcp_key_def [symmetric] Let_def)
      (simp add: tcp_emit_def)
qed

text \<open>
  C3. The whole exchange with a server: after the SYN to a target, a SYN-ACK that acknowledges it,
  a PSH-ACK that acknowledges the query and carries a DNS answer of addresses that passes the size
  check, and a FIN-ACK: the scanner answers with the query, with a FIN-ACK and with an ACK, each with
  the numbers TCP asks for, queues the connection, and the writer writes three rows, the last
  with the answers, and drops the entry.
\<close>

theorem tcp_exchange:
  assumes "i = ts_id s" and "s1 = tcp_send cfg inp s"
    and "tr_tcp rx1 = Some t1" "\<not> tr_app rx1" "Is_SYN_ACK (tcp_flags t1)"
      "tcp_DstPort t1 = tcp_port i" "tcp_Ack t1 = tcp_seq i + 1"
    and "tr_tcp rx2 = Some t2" "tr_app rx2" "Is_PSH_ACK (tcp_flags t2)"
      "tcp_DstPort t2 = tcp_port i" "tcp_Ack t2 = tcp_seq i + 1 + ucast (ts_payload_size s)"
      "2 < length (tr_payload rx2)" "\<not> size_check_drops (tr_payload rx2)"
      "gp_decode gp (drop 2 (tr_payload rx2)) = Some dns" "answer_ips (dns_Answers dns) = Some ips"
    and "tr_tcp rx3 = Some t3" "\<not> tr_app rx3" "Is_FIN_ACK (tcp_flags t3)"
      "tcp_DstPort t3 = tcp_port i" "tcp_Ack t3 = tcp_seq i + 2 + ucast (ts_payload_size s)"
  shows "\<exists>s2 s3 s4 s5 a r1 r2 r3.
    tcp_Handle_pkt cfg gp nowa rnda ipa rx1 s1 = Some s2 \<and>
    tcp_Handle_pkt cfg gp nowb rndb ipb rx2 s2 = Some s3 \<and>
    tcp_Handle_pkt cfg gp nowc rndc ipc rx3 s3 = Some s4 \<and>
    ts_write s4 = ts_write s @ [a] \<and>
    ts_sent s4 = ts_sent s1 @
      [Build_ack_with_dns cfg gp rnda (tin_dst inp) (tcp_port i) (tcp_Seq t1) (tcp_Ack t1),
       build_ack_pos_fin cfg (tin_dst inp) (tcp_port i) (tcp_Seq t2) (tcp_Ack t2) True,
       build_ack_pos_fin cfg (tin_dst inp) (tcp_port i) (tcp_Seq t3) (tcp_Ack t3) False] \<and>
    tcp_Write_item a s4 = Some s5 \<and> ts_rows s5 = ts_rows s @ [r1, r2, r3] \<and>
    ti_ip r1 = tin_dst inp \<and> ti_id r1 = i \<and> ti_id r2 = i \<and> ti_id r3 = i \<and>
    ti_dns_recs r3 = ips \<and> ti_ip r3 = ip_SrcIP ipb \<and> ts_items s5 (tcp_key i) = None"
proof -
  let ?n = "ts_free s" and ?syn = "new_syn_item i inp"
  have syn: "ti_ip ?syn = tin_dst inp" "ti_id ?syn = i" "ti_port ?syn = tcp_port i" "ti_seq ?syn = tcp_seq i"
    by (simp_all add: new_syn_item_def)
  have s1: "ts_write s1 = ts_write s" "ts_rows s1 = ts_rows s" "ts_payload_size s1 = ts_payload_size s"
    using assms(2) by (simp_all add: tcp_send_fields)
  have "exch s1 (tcp_key i) [?n] [?syn]"
    using assms(1,2) by (simp add: exch_def tcp_send_fields cells_def new_syn_item_def)
  from syn_ack_step [OF this syn(2) assms(3-7), of cfg gp nowa rnda ipa] obtain s2 m sa
    where h1: "tcp_Handle_pkt cfg gp nowa rnda ipa rx1 s1 = Some s2"
      and e2: "exch s2 (tcp_key i) [?n, m] [?syn\<lparr>ti_Next := Some m\<rparr>, sa]"
      and sa: "ti_id sa = i" "ti_flags sa = tcp_flags t1"
      and s2: "ts_write s2 = ts_write s" "ts_rows s2 = ts_rows s" "ts_payload_size s2 = ts_payload_size s"
        "ts_sent s2 = ts_sent s1 @ [Build_ack_with_dns cfg gp rnda (tin_dst inp) (tcp_port i) (tcp_Seq t1) (tcp_Ack t1)]"
    unfolding s1 syn by blast
  have "Is_SYN_ACK (ti_flags sa)" using assms(5) sa by simp
  from response_step [OF e2 sa(1) this assms(8-10), of gp dns ips cfg nowb rndb ipb] assms(11-16) obtain s3 l re
    where h2: "tcp_Handle_pkt cfg gp nowb rndb ipb rx2 s2 = Some s3"
      and e3: "exch s3 (tcp_key i) [?n, m, l] [?syn\<lparr>ti_Next := Some m\<rparr>, sa\<lparr>ti_Next := Some l\<rparr>, re]"
      and re: "ti_flags re = tcp_flags t2" "ti_id re = i" "ti_dns_recs re = ips" "ti_ip re = ip_SrcIP ipb"
      and s3: "ts_write s3 = ts_write s" "ts_rows s3 = ts_rows s" "ts_payload_size s3 = ts_payload_size s"
        "ts_sent s3 = ts_sent s2 @ [build_ack_pos_fin cfg (tin_dst inp) (tcp_port i) (tcp_Seq t2) (tcp_Ack t2) True]"
    unfolding s2(1-3) by (auto simp: syn)
  from fin_ack_step [OF e3 _ assms(17-20), of cfg gp nowc rndc ipc] assms(10,21) obtain s4
    where h3: "tcp_Handle_pkt cfg gp nowc rndc ipc rx3 s3 = Some s4" "ts_write s4 = ts_write s @ [?n]"
        "ts_rows s4 = ts_rows s"
        "ts_sent s4 = ts_sent s3 @ [build_ack_pos_fin cfg (tin_dst inp) (tcp_port i) (tcp_Seq t3) (tcp_Ack t3) False]"
      and e4: "exch s4 (tcp_key i) [?n, m, l] [?syn\<lparr>ti_Next := Some m\<rparr>, sa\<lparr>ti_Next := Some l\<rparr>, re]"
    by (auto simp: re s3 syn)
  show ?thesis
    using h1 h2 h3 exch_write [OF e4] s2(4) s3(4) syn sa re by (simp add: tcp_key_def)
qed

definition tcp_ex_gp :: gopacket where
  "tcp_ex_gp = \<lparr>gp_decode = (\<lambda>b. if length b < 12 then None
       else Some \<lparr>dns_ID = 0, dns_RD = True, dns_OpCode = 0, dns_ResponseCode = 0, dns_QDCount = 1,
         dns_ARCount = 0, dns_Questions = [],
         dns_Answers = [\<lparr>rr_Type = DNSTypeA, rr_Class = DNSClassIN, rr_TTL = 60, rr_IP = [1, 2, 3, 4], rr_Data = None\<rparr>],
         dns_Additionals = []\<rparr>),
     gp_encode = (\<lambda>m. replicate 12 0), gp_rr_str = (\<lambda>_. []), gp_type_str = (\<lambda>_. []),
     gp_port_str = (\<lambda>p. nat_digits (unat p))\<rparr>"


definition ex_t :: "TCP_flags \<Rightarrow> u32 \<Rightarrow> tcp_layer" where
  "ex_t f ack = \<lparr>tcp_SrcPort = 53, tcp_DstPort = tcp_port 0, tcp_Seq = 500, tcp_Ack = ack, tcp_flags = f, tcp_Window = 0\<rparr>"

definition ex_flags :: "bool \<Rightarrow> bool \<Rightarrow> bool \<Rightarrow> TCP_flags" where
  "ex_flags f s p = \<lparr>FIN = f, SYN = s, RST = False, PSH = p, ACK = True\<rparr>"

lemma ex_flags_preds: "Is_SYN_ACK (ex_flags False True False)" "Is_PSH_ACK (ex_flags False False True)"
  "Is_FIN_ACK (ex_flags True False False)"
  by (simp_all add: ex_flags_def flag_preds)

definition ex_rx1 :: tcp_rx where
  "ex_rx1 = \<lparr>tr_tcp = Some (ex_t (ex_flags False True False) (tcp_seq 0 + 1)), tr_app = False, tr_payload = []\<rparr>"
definition ex_rx2 :: tcp_rx where
  "ex_rx2 = \<lparr>tr_tcp = Some (ex_t (ex_flags False False True) (tcp_seq 0 + 1 + 14)), tr_app = True,
     tr_payload = prepend_size (replicate 12 0)\<rparr>"
definition ex_rx3 :: tcp_rx where
  "ex_rx3 = \<lparr>tr_tcp = Some (ex_t (ex_flags True False False) (tcp_seq 0 + 2 + 14)), tr_app = False, tr_payload = []\<rparr>"

definition ex_src :: ipv4_layer where
  "ex_src = \<lparr>ip_TTL = 50, ip_SrcIP = [8, 8, 8, 8], ip_DstIP = [10, 0, 0, 1], ip_Protocol = 6, ip_Id = 3\<rparr>"

lemma tcp_exchange_witness:
  "\<exists>s2 s3 s4 s5 a r1 r2 r3.
    tcp_Handle_pkt default_cfg tcp_ex_gp 1 5 ex_src ex_rx1 (tcp_send default_cfg \<lparr>tin_dst = [9, 9, 9, 9], tin_now = 0\<rparr> (tcp_init 14)) = Some s2 \<and>
    tcp_Handle_pkt default_cfg tcp_ex_gp 2 6 ex_src ex_rx2 s2 = Some s3 \<and>
    tcp_Handle_pkt default_cfg tcp_ex_gp 3 7 ex_src ex_rx3 s3 = Some s4 \<and>
    tcp_Write_item a s4 = Some s5 \<and> ts_rows s5 = [r1, r2, r3] \<and> ti_ip r1 = [9, 9, 9, 9] \<and>
    ti_dns_recs r3 = [[1, 2, 3, 4]] \<and> ti_ip r3 = [8, 8, 8, 8]"
proof -
  let ?inp = "\<lparr>tin_dst = [9, 9, 9, 9], tin_now = 0\<rparr> :: tcp_input"
  obtain dns where d: "gp_decode tcp_ex_gp (drop 2 (tr_payload ex_rx2)) = Some dns"
    and a: "answer_ips (dns_Answers dns) = Some [[1, 2, 3, 4]]"
    by (simp add: tcp_ex_gp_def ex_rx2_def prepend_size_def)
  have p: "2 < length (tr_payload ex_rx2)" "\<not> size_check_drops (tr_payload ex_rx2)"
    by (simp_all add: ex_rx2_def prepend_size_def size_check_drops_def pld_size_def)
  have i: "0 = ts_id (tcp_init 14)" by (simp add: tcp_init_def)
  have r: "tr_tcp ex_rx1 = Some (ex_t (ex_flags False True False) (tcp_seq 0 + 1))" "\<not> tr_app ex_rx1"
    "tr_tcp ex_rx2 = Some (ex_t (ex_flags False False True) (tcp_seq 0 + 1 + 14))" "tr_app ex_rx2"
    "tr_tcp ex_rx3 = Some (ex_t (ex_flags True False False) (tcp_seq 0 + 2 + 14))" "\<not> tr_app ex_rx3"
    by (simp_all add: ex_rx1_def ex_rx2_def ex_rx3_def)
  have u: "ucast (ts_payload_size (tcp_init 14)) = (14 :: u32)" by (simp add: tcp_init_def)
  have t: "tcp_DstPort (ex_t f x) = tcp_port 0" "tcp_Ack (ex_t f x) = x" "tcp_flags (ex_t f x) = f" for f x
    by (simp_all add: ex_t_def)
  have f: "Is_SYN_ACK (tcp_flags (ex_t (ex_flags False True False) x))"
    "Is_PSH_ACK (tcp_flags (ex_t (ex_flags False False True) x))"
    "Is_FIN_ACK (tcp_flags (ex_t (ex_flags True False False) x))" for x
    by (simp_all add: t ex_flags_preds)
  have w: "ts_rows (tcp_init 14) = []" "ts_write (tcp_init 14) = []" by (simp_all add: tcp_init_def)
  note e = tcp_exchange [OF i refl r(1,2) f(1) t(1,2) r(3,4) f(2) t(1) _ p d a r(5,6) f(3) t(1),
      where cfg = default_cfg and inp = ?inp and nowa = 1 and rnda = 5 and ipa = ex_src and nowb = 2 and rndb = 6
        and ipb = ex_src and nowc = 3 and rndc = 7 and ipc = ex_src]
  show ?thesis
    using e by (simp add: t u w ex_src_def) blast
qed

text \<open>
  C35. The size check loses well-formed answers: the code drops a response when the size it reads
  equals the size of the payload, and reads the two bytes in the wrong order, so an answer framed
  as RFC 1035 says is ignored exactly when both bytes of its size are equal, for instance one of
  257 bytes; the state does not change.
\<close>

theorem tcp_size_check_loses_answers:
  assumes "tr_tcp rx = Some t" and "tr_app rx" and "Is_PSH_ACK (tcp_flags t) \<or> Is_FIN_PSH_ACK (tcp_flags t)"
    and "tr_payload rx = rfc_frame m" and "m \<noteq> []" and "length m < 65536"
  shows "(length m div 256 = length m mod 256 \<longrightarrow> tcp_Handle_pkt cfg gp now rnd ipl rx s = Some s) \<and>
    (length m div 256 \<noteq> length m mod 256 \<longrightarrow>
       tcp_Handle_pkt cfg gp now rnd ipl rx s =
         (case gp_decode gp m of None \<Rightarrow> Some s
          | Some dns \<Rightarrow> handle_response cfg gp now (ip_SrcIP ipl) t (rfc_frame m) s))"
  using assms size_check_rfc_frame [OF assms(6)]
  by (auto simp: tcp_Handle_pkt_def handle_response_def rfc_frame_def split: option.split)

lemma tcp_size_check_loses_answers_witness:
  "\<forall>cfg gp now rnd ipl s. tcp_Handle_pkt cfg gp now rnd ipl \<lparr>tr_tcp = Some (ex_t (ex_flags False False True) 7), tr_app = True,
     tr_payload = rfc_frame (replicate 257 1)\<rparr> s = Some s"
  using tcp_size_check_loses_answers [of "\<lparr>tr_tcp = Some (ex_t (ex_flags False False True) 7), tr_app = True,
     tr_payload = rfc_frame (replicate 257 1)\<rparr>" "ex_t (ex_flags False False True) 7" "replicate 257 1"]
  by (simp add: ex_t_def ex_flags_preds)

text \<open>
  A repeated FIN-ACK repeats the result: when a FIN-ACK has queued a connection and the same
  packet arrives once more before the writer has removed the entry, the connection is queued
  again, and the writer writes all its rows twice.
\<close>

theorem tcp_duplicate_fin_ack:
  assumes "tcp_inv s" and "tr_tcp rx = Some t" and "\<not> tr_app rx" and "Is_FIN_ACK (tcp_flags t)"
    and "tcp_Handle_pkt cfg gp now rnd ipl rx s = Some s1" and "ts_write s1 = ts_write s @ [a]"
  shows "\<exists>s2 s3 s4 items. tcp_Handle_pkt cfg gp now' rnd' ipl rx s1 = Some s2 \<and>
    ts_write s2 = ts_write s @ [a, a] \<and> tcp_Write_item a s2 = Some s3 \<and> tcp_Write_item a s3 = Some s4 \<and>
    items \<noteq> [] \<and> ts_rows s4 = ts_rows s @ items @ items"
proof -
  define k where "k = (tcp_DstPort t, tcp_Ack t - 2 - ucast (ts_payload_size s))"
  have ns: "\<not> Is_SYN_ACK (tcp_flags t)" using assms(4) flag_preds_exclusive(6) by blast
  have h: "tcp_Handle_pkt cfg gp n r ipl rx u = handle_fin_ack cfg (ip_SrcIP ipl) t u" for n r u
    using assms(2-4) ns by (simp add: tcp_Handle_pkt_def)
  have s1: "handle_fin_ack cfg (ip_SrcIP ipl) t s = Some s1" using assms(5) h by simp
  show ?thesis
  proof (rule find_chain_inv [OF assms(1), of k])
    assume "find_chain s k = Some None"
    then have "s1 = s" using s1 by (simp add: handle_fin_ack_def k_def)
    then show ?thesis using assms(6) by simp
  next
    fix b ra li i as
    assume c: "ts_items s k = Some b" "conn s b i as" "ts_heap s b = Some ra"
      "ts_heap s (last as) = Some li" "find_chain s k = Some (Some (b, ra, last as, li))"
    let ?p = "build_ack_pos_fin cfg (ti_ip ra) (tcp_DstPort t) (tcp_Seq t) (tcp_Ack t) False"
    have pa: "Is_PSH_ACK (ti_flags li)"
      using s1 assms(6) c(5) by (auto simp: handle_fin_ack_def k_def tcp_emit_def split: if_splits)
    then have s1': "s1 = (tcp_emit ?p s)\<lparr>ts_write := ts_write s @ [b]\<rparr>"
      using s1 c(5) by (simp add: handle_fin_ack_def k_def Let_def tcp_emit_def)
    then have b: "b = a" using assms(6) by simp
    let ?s2 = "(tcp_emit ?p s1)\<lparr>ts_write := ts_write s1 @ [a]\<rparr>"
    have e: "ts_heap s1 = ts_heap s" "ts_items s1 = ts_items s" by (simp_all add: s1' tcp_emit_def)
    have "find_chain s1 k = find_chain s k" unfolding find_chain_def e ..
    moreover have "ts_payload_size s1 = ts_payload_size s" by (simp add: s1' tcp_emit_def)
    ultimately have s2: "handle_fin_ack cfg (ip_SrcIP ipl) t s1 = Some ?s2"
      using c(5) pa by (simp add: handle_fin_ack_def k_def Let_def b tcp_emit_def)
    have wk: "walk (ts_heap s) (Some a) = Some (cells (ts_heap s) as)"
      using c(2) by (intro walk_path) (simp add: conn_def b)
    let ?items = "cells (ts_heap s) as"
    have ne: "?items \<noteq> []" using c(2) by (simp add: conn_def cells_def)
    let ?del = "(ts_items s)((ti_port ra, ti_seq ra) := None)"
    have w2: "tcp_Write_item a ?s2 = Some (?s2\<lparr>ts_rows := ts_rows s @ ?items, ts_items := ?del\<rparr>)"
      using c(3) wk by (simp add: tcp_Write_item_def s1' b tcp_emit_def)
    have w3: "tcp_Write_item a (?s2\<lparr>ts_rows := ts_rows s @ ?items, ts_items := ?del\<rparr>) =
        Some (?s2\<lparr>ts_rows := (ts_rows s @ ?items) @ ?items, ts_items := ?del\<rparr>)"
      using c(3) wk by (simp add: tcp_Write_item_def s1' b tcp_emit_def)
    have "ts_write ?s2 = ts_write s @ [a, a]" using assms(6) by simp
    then show ?thesis using s2 w2 w3 ne unfolding h by fastforce
  qed
qed

definition ex_item :: "TCP_flags \<Rightarrow> nat option \<Rightarrow> tcp_item" where
  "ex_item f nx = (new_syn_item 0 \<lparr>tin_dst = [9, 9, 9, 9], tin_now = 0\<rparr>)\<lparr>ti_flags := f, ti_Next := nx\<rparr>"

definition ex_open :: tcp_state where
  "ex_open = (tcp_init 14)\<lparr>ts_heap := [0 \<mapsto> ex_item \<lparr>FIN = False, SYN = True, RST = False, PSH = False, ACK = False\<rparr> (Some 1),
     1 \<mapsto> ex_item (ex_flags False True False) (Some 2), 2 \<mapsto> ex_item (ex_flags False False True) None],
     ts_free := 3, ts_items := [tcp_key 0 \<mapsto> 0], ts_id := 1\<rparr>"

lemma ex_open_conn: "conn ex_open 0 0 [0, 1, 2]"
proof -
  have "conn_shape 0 (cells (ts_heap ex_open) [0, 1, 2])"
    unfolding cells_def ex_open_def ex_item_def
    by (simp, rule conn_shape.Response) (simp_all add: new_syn_item_def flag_preds ex_flags_def)
  then show ?thesis
    by (simp add: conn_def ex_open_def ex_item_def new_syn_item_def cells_def tcp_key_def)
qed

lemma ex_open_inv: "tcp_inv ex_open"
proof (rule tcp_invI)
  have r: "roots ex_open = {0}" by (simp add: roots_def ex_open_def tcp_init_def)
  show "\<exists>i as. conn ex_open a i as" if "a \<in> roots ex_open" for a using that ex_open_conn by (auto simp: r)
  show "set as \<inter> set bs = {}"
    if "a \<in> roots ex_open" "b \<in> roots ex_open" "a \<noteq> b" for a b and as bs :: "nat list"
    using that by (simp add: r)
  show "k = tcp_key i" if "ts_items ex_open k = Some a" "conn ex_open a i as" for k a i as
  proof -
    have "k = tcp_key 0 \<and> a = 0" using that(1) by (simp add: ex_open_def split: if_splits)
    then show ?thesis using conn_det(1) [OF that(2)] ex_open_conn by blast
  qed
qed

lemma ex_open_fin:
  "\<exists>s1. tcp_Handle_pkt default_cfg tcp_ex_gp 3 7 ex_src ex_rx3 ex_open = Some s1 \<and> ts_write s1 = ts_write ex_open @ [0]"
proof -
  have l: "last_item (ts_heap ex_open) 0 = Some 2"
    using last_item_path [of "ts_heap ex_open" 0 "[1, 2]"] ex_open_conn by (simp add: conn_def)
  have k: "(tcp_port 0, tcp_seq 0) = tcp_key 0" by (simp add: tcp_key_def)
  have "find_chain ex_open (tcp_key 0) = Some (Some (0, ex_item \<lparr>FIN = False, SYN = True, RST = False, PSH = False, ACK = False\<rparr> (Some 1),
      2, ex_item (ex_flags False False True) None))"
    using l by (simp add: find_chain_def) (simp add: ex_open_def)
  moreover have "ts_payload_size ex_open = 14" by (simp add: ex_open_def tcp_init_def)
  moreover have "Is_PSH_ACK (ti_flags (ex_item (ex_flags False False True) None))"
    by (simp add: ex_item_def ex_flags_preds)
  moreover have "\<not> Is_SYN_ACK (ex_flags True False False)" by (simp add: ex_flags_def flag_preds)
  ultimately show ?thesis
    by (simp add: tcp_Handle_pkt_def ex_rx3_def ex_t_def ex_flags_preds handle_fin_ack_def k Let_def tcp_emit_def)
qed

lemma tcp_duplicate_fin_ack_witness:
  "\<exists>s1. tcp_Handle_pkt default_cfg tcp_ex_gp 3 7 ex_src ex_rx3 ex_open = Some s1 \<and>
    (\<exists>s2 s3 s4 items. tcp_Handle_pkt default_cfg tcp_ex_gp 4 8 ex_src ex_rx3 s1 = Some s2 \<and>
      ts_write s2 = ts_write ex_open @ [0, 0] \<and> tcp_Write_item 0 s2 = Some s3 \<and>
      tcp_Write_item 0 s3 = Some s4 \<and> items \<noteq> [] \<and> ts_rows s4 = ts_rows ex_open @ items @ items)"
proof -
  obtain s1 where s1: "tcp_Handle_pkt default_cfg tcp_ex_gp 3 7 ex_src ex_rx3 ex_open = Some s1"
    "ts_write s1 = ts_write ex_open @ [0]" using ex_open_fin by blast
  have r: "tr_tcp ex_rx3 = Some (ex_t (ex_flags True False False) (tcp_seq 0 + 2 + 14))" "\<not> tr_app ex_rx3"
    "Is_FIN_ACK (tcp_flags (ex_t (ex_flags True False False) (tcp_seq 0 + 2 + 14)))"
    by (simp_all add: ex_rx3_def ex_t_def ex_flags_preds)
  show ?thesis
    by (rule exI [of _ s1], rule conjI [OF s1(1)], rule tcp_duplicate_fin_ack [OF ex_open_inv r s1])
qed

text \<open>
  The TCP scan sends a SYN to every target that the exclusion list does not block, in order, and
  to no other: no SYN goes to a member of a network that a line of the exclusion file names.
\<close>

theorem tcp_respects_exclusions:
  assumes "a @ cidr_text v n @ b @ c \<in> set (scan_lines txt)" and "blanks a" "blanks b" "comment c"
    and "n \<le> 32"
  shows "tcp_sent_to (init_tcp cfg (Exclude_ips (\<lambda>_. False) (Some txt)) inputs (tcp_init psize)) =
      filter (\<lambda>d. \<not> is_blocked (Exclude_ips (\<lambda>_. False) (Some txt)) d) (map tin_dst inputs) \<and>
    (\<forall>w d. net_contains (cidr_net v n) (Uint322ip w) \<and> d \<in> v4_forms w \<longrightarrow>
      d \<notin> set (tcp_sent_to (init_tcp cfg (Exclude_ips (\<lambda>_. False) (Some txt)) inputs (tcp_init psize))))"
proof (intro conjI allI impI)
  have z: "tcp_sent_to (tcp_init psize) = []" by (simp add: tcp_sent_to_def tcp_init_def)
  show "tcp_sent_to (init_tcp cfg (Exclude_ips (\<lambda>_. False) (Some txt)) inputs (tcp_init psize)) =
      filter (\<lambda>d. \<not> is_blocked (Exclude_ips (\<lambda>_. False) (Some txt)) d) (map tin_dst inputs)"
    by (simp only: init_tcp_def tcp.sent_dispatch z append_Nil)
  fix w d assume wd: "net_contains (cidr_net v n) (Uint322ip w) \<and> d \<in> v4_forms w"
  show "d \<notin> set (tcp_sent_to (init_tcp cfg (Exclude_ips (\<lambda>_. False) (Some txt)) inputs (tcp_init psize)))"
    using tcp.excluded_not_sent [OF assms(1) exclude_line_cidr [OF assms(2-5)], of w d cfg inputs
        "tcp_init psize"] wd by (auto simp: init_tcp_def z)
qed

lemma tcp_respects_exclusions_witness:
  "\<forall>inputs. Uint322ip 0x0A010203 \<notin> set (tcp_sent_to (init_tcp default_cfg
     (Exclude_ips (\<lambda>_. False) (Some ''10.0.0.0/8'')) inputs (tcp_init 14)))"
proof
  fix inputs
  have d: "cidr_text 0x0A000000 8 = ''10.0.0.0/8''" by code_simp
  have "[] @ cidr_text 0x0A000000 8 @ [] @ [] \<in> set (scan_lines ''10.0.0.0/8'')"
    unfolding d by code_simp
  moreover have "blanks []" "comment []" by (simp_all add: blanks_def comment_def)
  ultimately have "\<forall>w d. net_contains (cidr_net 0x0A000000 8) (Uint322ip w) \<and> d \<in> v4_forms w \<longrightarrow>
      d \<notin> set (tcp_sent_to (init_tcp default_cfg (Exclude_ips (\<lambda>_. False) (Some ''10.0.0.0/8'')) inputs (tcp_init 14)))"
    by (intro tcp_respects_exclusions [THEN conjunct2]) simp_all
  moreover have "net_contains (cidr_net 0x0A000000 8) (Uint322ip 0x0A010203)" by code_simp
  ultimately show "Uint322ip 0x0A010203 \<notin> set (tcp_sent_to (init_tcp default_cfg
     (Exclude_ips (\<lambda>_. False) (Some ''10.0.0.0/8'')) inputs (tcp_init 14)))"
    unfolding v4_forms_def by blast
qed

end
