(* ===== verification/Shutdown.thy ===== *)
theory Shutdown
  imports Prelude
begin

section \<open>Ending a scan (base.go Handle_ctrl_c, base_scanner.go Read_ips_file, gen_ips, init_udp)\<close>

text \<open>
  All routines of a scan end when \<open>Stop_chan\<close> is closed. Two routines close it: the one that
  handles Ctrl-C, and the one that supplies the addresses, after it has supplied them and waited.
  They coordinate through the flag \<open>Waiting_to_end\<close> only, which each reads and writes without a
  lock. Closing a closed channel is a panic. The supplier sends the addresses through \<open>Ip_chan\<close>, a
  channel with a buffer, to the sending routines; a send to a full buffer blocks. The model
  interleaves the routines; each access to the flag and to a channel is a step.
\<close>

text \<open>
  The four suppliers: \<open>gen_ips_wait\<close> of the UDP scanner, which calls \<open>gen_ips\<close> and ignores whether it was
  stopped; \<open>gen_ips_nets\<close>; \<open>gen_ips\<close> of the TCP scanner; \<open>Read_ips_file\<close>.
\<close>

datatype supplier = Udp_gen_ips_wait | Udp_gen_ips_nets | Tcp_gen_ips | Read_ips_file

text \<open>Where the handler of Ctrl-C is: waiting, the flag read, the flag set, done (without or after closing).\<close>

datatype ctrl_pc = CWait | CRead bool | CSet | CQuiet | CClosed

text \<open>
  Where the supplier is: at the head of the loop or in the send, each with the items still to go,
  behind the loop, flag set and asleep, stopped, or after its close.
\<close>

datatype gen_pc = GRun nat | GSend nat | GFinish | GSleep | GStopped | GClosed

record shutdown =
  sd_waiting :: bool
  sd_closes :: nat
  sd_fill :: nat
  sd_workers :: nat
  sd_ctrl :: ctrl_pc
  sd_gen :: gen_pc

definition chan_cap :: nat where
  "chan_cap = 1024"

definition shutdown_init :: "nat \<Rightarrow> nat \<Rightarrow> shutdown" where
  "shutdown_init n w = \<lparr>sd_waiting = False, sd_closes = 0, sd_fill = 0, sd_workers = w,
     sd_ctrl = CWait, sd_gen = GRun n\<rparr>"

text \<open>What the loop of a supplier looks at before the next item, and where it goes when it is told to stop.\<close>

definition told_to_stop :: "supplier \<Rightarrow> shutdown \<Rightarrow> bool" where
  "told_to_stop k s = (case k of Read_ips_file \<Rightarrow> sd_waiting s | _ \<Rightarrow> 0 < sd_closes s)"

definition after_stop :: "supplier \<Rightarrow> gen_pc" where
  "after_stop k = (case k of Udp_gen_ips_wait \<Rightarrow> GFinish | _ \<Rightarrow> GStopped)"

inductive sd_step :: "supplier \<Rightarrow> shutdown \<Rightarrow> shutdown \<Rightarrow> bool" for k where
  Already: "sd_ctrl s = CRead True \<Longrightarrow> sd_step k s (s\<lparr>sd_ctrl := CQuiet\<rparr>)"
| CtrlSet: "sd_ctrl s = CRead False \<Longrightarrow> sd_step k s (s\<lparr>sd_waiting := True, sd_ctrl := CSet\<rparr>)"
| CtrlClose: "sd_ctrl s = CSet \<Longrightarrow> sd_step k s (s\<lparr>sd_closes := Suc (sd_closes s), sd_ctrl := CClosed\<rparr>)"
| Item: "sd_gen s = GRun (Suc n) \<Longrightarrow> \<not> told_to_stop k s \<Longrightarrow> sd_step k s (s\<lparr>sd_gen := GSend n\<rparr>)"
| Put: "sd_gen s = GSend n \<Longrightarrow> sd_fill s < chan_cap \<Longrightarrow>
    sd_step k s (s\<lparr>sd_gen := GRun n, sd_fill := Suc (sd_fill s)\<rparr>)"
| Stopped: "sd_gen s = GRun (Suc n) \<Longrightarrow> told_to_stop k s \<Longrightarrow> sd_step k s (s\<lparr>sd_gen := after_stop k\<rparr>)"
| End: "sd_gen s = GRun 0 \<Longrightarrow> sd_step k s (s\<lparr>sd_gen := GFinish\<rparr>)"
| GenSet: "sd_gen s = GFinish \<Longrightarrow> sd_step k s (s\<lparr>sd_waiting := True, sd_gen := GSleep\<rparr>)"
| GenClose: "sd_gen s = GSleep \<Longrightarrow> sd_step k s (s\<lparr>sd_closes := Suc (sd_closes s), sd_gen := GClosed\<rparr>)"
| Take: "sd_workers s = Suc w \<Longrightarrow> sd_fill s = Suc f \<Longrightarrow> sd_step k s (s\<lparr>sd_fill := f\<rparr>)"
| WorkerStop: "sd_workers s = Suc w \<Longrightarrow> 0 < sd_closes s \<Longrightarrow> sd_step k s (s\<lparr>sd_workers := w\<rparr>)"

text \<open>The signal arrives, and the handler reads the flag.\<close>

definition sd_interrupt :: "shutdown \<Rightarrow> shutdown" where
  "sd_interrupt s = s\<lparr>sd_ctrl := CRead (sd_waiting s)\<rparr>"

inductive sd_run :: "supplier \<Rightarrow> nat \<Rightarrow> nat \<Rightarrow> shutdown \<Rightarrow> bool" for k n w where
  SStart: "sd_run k n w (shutdown_init n w)"
| SStep: "sd_run k n w s \<Longrightarrow> sd_step k s s' \<Longrightarrow> sd_run k n w s'"
| SInterrupt: "sd_run k n w s \<Longrightarrow> sd_ctrl s = CWait \<Longrightarrow> sd_run k n w (sd_interrupt s)"

inductive_cases sd_stepE: "sd_step k s s'"

text \<open>
  A run is over when the supplier and the sending routines are done and the handler waits for a
  signal that does not come, or is done. It is deadlocked when the supplier sends to a full
  channel that nobody reads any more. A second close panics.
\<close>

definition sd_over :: "shutdown \<Rightarrow> bool" where
  "sd_over s \<longleftrightarrow> sd_gen s \<in> {GStopped, GClosed} \<and> sd_ctrl s \<in> {CWait, CQuiet, CClosed} \<and> sd_workers s = 0"

definition sd_deadlock :: "shutdown \<Rightarrow> bool" where
  "sd_deadlock s \<longleftrightarrow> (\<exists>n. sd_gen s = GSend n) \<and> sd_fill s = chan_cap \<and> sd_workers s = 0 \<and> sd_ctrl s = CClosed"

definition sd_panics :: "shutdown \<Rightarrow> bool" where
  "sd_panics s \<longleftrightarrow> 1 < sd_closes s"

subsection \<open>Invariants\<close>

text \<open>The closes are those of the two routines.\<close>

definition close_count :: "shutdown \<Rightarrow> nat" where
  "close_count s = (if sd_ctrl s = CClosed then 1 else 0) + (if sd_gen s = GClosed then 1 else 0)"

definition sd_counts :: "nat \<Rightarrow> shutdown \<Rightarrow> bool" where
  "sd_counts w s \<longleftrightarrow> sd_closes s = close_count s \<and> sd_fill s \<le> chan_cap \<and>
     (sd_closes s = 0 \<longrightarrow> sd_workers s = w)"

text \<open>What the flag and a stopped supplier say about the other routine.\<close>

definition sd_control :: "supplier \<Rightarrow> shutdown \<Rightarrow> bool" where
  "sd_control k s \<longleftrightarrow>
     (sd_gen s = GStopped \<longrightarrow> sd_ctrl s \<in> {CSet, CClosed} \<and> k \<noteq> Udp_gen_ips_wait) \<and>
     (sd_waiting s \<longrightarrow> sd_gen s \<in> {GSleep, GClosed} \<or> sd_ctrl s \<in> {CSet, CClosed}) \<and>
     (sd_ctrl s \<in> {CRead True, CQuiet} \<longrightarrow> sd_gen s \<in> {GSleep, GClosed})"

lemma sd_counts_step: "sd_step k s s' \<Longrightarrow> sd_counts w s \<Longrightarrow> sd_counts w s'"
  by (erule sd_stepE)
    (simp_all add: sd_counts_def close_count_def after_stop_def split: if_split_asm supplier.split)

lemma told_to_stop_ctrl:
  assumes "told_to_stop k s" and "sd_counts w s" and "sd_control k s" and "sd_gen s = GRun n"
  shows "sd_ctrl s \<in> {CSet, CClosed}"
  using assms
  by (cases k) (auto simp: told_to_stop_def sd_counts_def close_count_def sd_control_def split: if_splits)

lemma sd_control_step:
  assumes "sd_step k s s'" and "sd_counts w s" and "sd_control k s" shows "sd_control k s'"
  using assms(1)
proof cases
  case (Stopped n)
  then have "sd_ctrl s \<in> {CSet, CClosed}" using told_to_stop_ctrl assms by blast
  then show ?thesis using Stopped by (cases k) (auto simp: sd_control_def after_stop_def)
qed (use assms(3) in \<open>auto simp: sd_control_def\<close>)

lemma sd_run_inv: "sd_run k n w s \<Longrightarrow> sd_counts w s \<and> sd_control k s"
proof (induction rule: sd_run.induct)
  case SStart
  show ?case by (simp add: sd_counts_def sd_control_def shutdown_init_def close_count_def)
next
  case (SStep s s')
  then show ?case using sd_counts_step sd_control_step by blast
next
  case (SInterrupt s)
  then show ?case
    by (auto simp: sd_interrupt_def sd_counts_def sd_control_def close_count_def)
qed

text \<open>Every run is finite.\<close>

definition gen_rank :: "gen_pc \<Rightarrow> nat" where
  "gen_rank g = (case g of GRun n \<Rightarrow> 3 * n + 4 | GSend n \<Rightarrow> 3 * n + 6 | GFinish \<Rightarrow> 3 | GSleep \<Rightarrow> 2
     | GStopped \<Rightarrow> 1 | GClosed \<Rightarrow> 1)"

definition ctrl_rank :: "ctrl_pc \<Rightarrow> nat" where
  "ctrl_rank c = (case c of CWait \<Rightarrow> 4 | CRead _ \<Rightarrow> 3 | CSet \<Rightarrow> 2 | CQuiet \<Rightarrow> 1 | CClosed \<Rightarrow> 1)"

definition sd_rank :: "shutdown \<Rightarrow> nat" where
  "sd_rank s = gen_rank (sd_gen s) + ctrl_rank (sd_ctrl s) + sd_fill s + sd_workers s"

lemma sd_step_decreases: "sd_step k s s' \<Longrightarrow> sd_rank s' < sd_rank s"
  by (erule sd_stepE) (auto simp: sd_rank_def gen_rank_def ctrl_rank_def after_stop_def split: supplier.splits)

lemma sd_finite: "wfP (\<lambda>s' s. sd_step k s s')"
proof -
  have "{(s', s). sd_step k s s'} \<subseteq> measure sd_rank"
    using sd_step_decreases by auto
  then show ?thesis unfolding wfp_def by (rule wf_subset [OF wf_measure])
qed

lemma sd_progress_ctrl:
  assumes "sd_ctrl s \<notin> {CWait, CQuiet, CClosed}" shows "\<exists>s'. sd_step k s s'"
proof (cases "sd_ctrl s")
  case (CRead b)
  then show ?thesis by (cases b) (auto intro: sd_step.Already sd_step.CtrlSet)
qed (use assms in \<open>auto intro: sd_step.CtrlClose\<close>)

lemma sd_progress_gen:
  assumes "sd_gen s \<notin> {GStopped, GClosed}" and "\<forall>n. sd_gen s = GSend n \<longrightarrow> sd_fill s < chan_cap"
  shows "\<exists>s'. sd_step k s s'"
proof (cases "sd_gen s")
  case (GRun n)
  show ?thesis
  proof (cases n)
    case 0
    then show ?thesis using GRun by (blast intro: sd_step.End)
  next
    case (Suc m)
    then show ?thesis using GRun sd_step.Item [of s m k] sd_step.Stopped [of s m k] by blast
  qed
qed (use assms in \<open>auto intro: sd_step.GenSet sd_step.GenClose sd_step.Put\<close>)

text \<open>A run that cannot go on is over or deadlocked.\<close>

lemma sd_stuck:
  assumes inv: "sd_counts w s" "sd_control k s" and stuck: "\<nexists>s'. sd_step k s s'" and "0 < w"
  shows "(sd_over s \<or> sd_deadlock s) \<and> 0 < sd_closes s"
proof -
  have ctrl: "sd_ctrl s \<in> {CWait, CQuiet, CClosed}" using stuck sd_progress_ctrl by blast
  have gen: "sd_gen s \<in> {GStopped, GClosed} \<or> (\<exists>n. sd_gen s = GSend n) \<and> sd_fill s = chan_cap"
    using stuck sd_progress_gen [of s k] inv(1) by (force simp: sd_counts_def)
  have wk: "sd_workers s = 0 \<or> sd_closes s = 0 \<and> sd_fill s = 0"
    using stuck sd_step.WorkerStop [of s _ k] sd_step.Take [of s _ _ k]
    by (cases "sd_workers s"; cases "sd_fill s") blast+
  show ?thesis
  proof (cases "sd_gen s \<in> {GStopped, GClosed}")
    case True
    then have cl: "0 < sd_closes s"
      using inv ctrl by (auto simp: sd_counts_def sd_control_def close_count_def)
    then show ?thesis using True ctrl wk by (auto simp: sd_over_def)
  next
    case False
    then have f: "\<exists>n. sd_gen s = GSend n" "sd_fill s = chan_cap" using gen by auto
    then have w0: "sd_workers s = 0" using wk by (simp add: chan_cap_def)
    then have cl: "0 < sd_closes s" using inv(1) assms(4) by (auto simp: sd_counts_def)
    then have "sd_ctrl s = CClosed"
      using inv(1) False by (auto simp: sd_counts_def close_count_def split: if_splits)
    then show ?thesis using f w0 cl by (simp add: sd_deadlock_def)
  qed
qed

subsection \<open>Properties\<close>

text \<open>
  C19. Every scan ends unless a Ctrl-C interrupts its supplier: with each of the four suppliers and in
  every interleaving there is no infinite run; a run that cannot go on has closed \<open>Stop_chan\<close>,
  and either it is over (the supplier and all sending routines have returned) or it is deadlocked,
  which takes a close by the handler of Ctrl-C while the supplier still sends; and the channel was
  closed exactly once when no Ctrl-C came or it came after the supplier had set the flag.
\<close>

theorem shutdown_closes:
  assumes "sd_run k n w s" and "0 < w"
  shows "wfP (\<lambda>s' s. sd_step k s s') \<and>
    ((\<nexists>s'. sd_step k s s') \<longrightarrow> 1 \<le> sd_closes s \<and> (sd_over s \<or> sd_deadlock s)) \<and>
    (sd_over s \<and> sd_ctrl s \<in> {CWait, CQuiet} \<longrightarrow> sd_closes s = 1)"
proof -
  have inv: "sd_counts w s" "sd_control k s" using sd_run_inv [OF assms(1)] by simp_all
  have "sd_closes s = 1" if "sd_over s" "sd_ctrl s \<in> {CWait, CQuiet}"
    using inv that by (auto simp: sd_counts_def sd_control_def sd_over_def close_count_def split: if_splits)
  then show ?thesis using sd_finite sd_stuck [OF inv _ assms(2)] by fastforce
qed

text \<open>Runs of the program, written as the sequence of their states.\<close>

lemma sd_run_undisturbed:
  "sd_run k 0 1 \<lparr>sd_waiting = True, sd_closes = 1, sd_fill = 0, sd_workers = 0, sd_ctrl = CWait, sd_gen = GClosed\<rparr>"
proof -
  let ?s = "\<lambda>b c w g. \<lparr>sd_waiting = b, sd_closes = c, sd_fill = 0, sd_workers = w, sd_ctrl = CWait, sd_gen = g\<rparr>"
  have "sd_run k 0 1 (?s False 0 1 (GRun 0))"
    using sd_run.SStart [of k 0 1] by (simp add: shutdown_init_def)
  from sd_run.SStep [OF this sd_step.End] have "sd_run k 0 1 (?s False 0 1 GFinish)" by simp
  from sd_run.SStep [OF this sd_step.GenSet] have "sd_run k 0 1 (?s True 0 1 GSleep)" by simp
  from sd_run.SStep [OF this sd_step.GenClose] have "sd_run k 0 1 (?s True 1 1 GClosed)" by simp
  from sd_run.SStep [OF this sd_step.WorkerStop [of _ 0]] show ?thesis by simp
qed

lemma shutdown_closes_witness:
  "\<exists>s. sd_run Tcp_gen_ips 0 1 s \<and> sd_over s \<and> sd_closes s = 1"
  using shutdown_closes [OF sd_run_undisturbed [of Tcp_gen_ips]] sd_run_undisturbed [of Tcp_gen_ips]
  by (fastforce simp: sd_over_def)

text \<open>
  C36. Ctrl-C during a UDP scan of a network panics: in every run of \<open>gen_ips_wait\<close> that is over and in
  which the handler closes \<open>Stop_chan\<close>, the supplier closes it a second time. With the other suppliers
  such a run panics exactly when the supplier was not stopped by the close but came to its own end.
\<close>

theorem ctrl_c_panics:
  assumes "sd_run k n w s" and "sd_over s" and "sd_ctrl s = CClosed"
  shows "(sd_panics s \<longleftrightarrow> sd_gen s = GClosed) \<and> (k = Udp_gen_ips_wait \<longrightarrow> sd_panics s)"
  using sd_run_inv [OF assms(1)] assms(2,3)
  by (auto simp: sd_counts_def sd_control_def sd_over_def sd_panics_def close_count_def split: if_splits)

lemma ctrl_c_panics_witness: "\<exists>s. sd_run Udp_gen_ips_wait 1 1 s \<and> sd_over s \<and> sd_panics s"
proof -
  let ?k = Udp_gen_ips_wait
  let ?s = "\<lambda>b c w p g. \<lparr>sd_waiting = b, sd_closes = c, sd_fill = 0, sd_workers = w, sd_ctrl = p, sd_gen = g\<rparr>"
  have "sd_run ?k 1 1 (?s False 0 1 CWait (GRun 1))"
    using sd_run.SStart [of ?k 1 1] by (simp add: shutdown_init_def)
  from sd_run.SInterrupt [OF this] have "sd_run ?k 1 1 (?s False 0 1 (CRead False) (GRun 1))"
    by (simp add: sd_interrupt_def)
  from sd_run.SStep [OF this sd_step.CtrlSet] have "sd_run ?k 1 1 (?s True 0 1 CSet (GRun 1))" by simp
  from sd_run.SStep [OF this sd_step.CtrlClose] have "sd_run ?k 1 1 (?s True 1 1 CClosed (GRun 1))" by simp
  from sd_run.SStep [OF this sd_step.Stopped [of _ 0]]
  have "sd_run ?k 1 1 (?s True 1 1 CClosed GFinish)" by (simp add: told_to_stop_def after_stop_def)
  from sd_run.SStep [OF this sd_step.GenSet] have "sd_run ?k 1 1 (?s True 1 1 CClosed GSleep)" by simp
  from sd_run.SStep [OF this sd_step.GenClose] have "sd_run ?k 1 1 (?s True 2 1 CClosed GClosed)"
    by (simp add: numeral_2_eq_2)
  from sd_run.SStep [OF this sd_step.WorkerStop [of _ 0]]
  have r: "sd_run ?k 1 1 (?s True 2 0 CClosed GClosed)" by simp
  show ?thesis using ctrl_c_panics [OF r] r by (fastforce simp: sd_over_def)
qed

text \<open>
  C37. Ctrl-C can hang the program: with every supplier that has more addresses to send than the
  channel holds, and with any number of sending routines, there is a run that deadlocks: the buffer
  is full, the handler closes \<open>Stop_chan\<close>, the sending routines see that first and return, and the
  supplier waits for ever in its send.
\<close>

theorem ctrl_c_can_deadlock:
  assumes "chan_cap < n"
  shows "\<exists>s. sd_run k n w s \<and> sd_deadlock s \<and> (\<nexists>s'. sd_step k s s')"
proof -
  let ?s = "\<lambda>b c f w p g. \<lparr>sd_waiting = b, sd_closes = c, sd_fill = f, sd_workers = w, sd_ctrl = p, sd_gen = g\<rparr>"
  have fill: "sd_run k n w (?s False 0 j w CWait (GRun (n - j)))" if "j \<le> chan_cap" for j
    using that
  proof (induction j)
    case 0
    show ?case using sd_run.SStart [of k n w] by (simp add: shutdown_init_def)
  next
    case (Suc j)
    then have "sd_run k n w (?s False 0 j w CWait (GRun (Suc (n - Suc j))))"
      using assms by (simp add: Suc_diff_Suc)
    from sd_run.SStep [OF this sd_step.Item [of _ "n - Suc j"]]
    have "sd_run k n w (?s False 0 j w CWait (GSend (n - Suc j)))"
      by (simp add: told_to_stop_def split: supplier.splits)
    from sd_run.SStep [OF this sd_step.Put [of _ "n - Suc j"]] show ?case using Suc.prems by simp
  qed
  obtain m where m: "n - chan_cap = Suc m" using assms by (metis Suc_diff_Suc)
  have "sd_run k n w (?s False 0 chan_cap w CWait (GRun (Suc m)))" using fill [of chan_cap] by (simp add: m)
  from sd_run.SStep [OF this sd_step.Item [of _ m]]
  have "sd_run k n w (?s False 0 chan_cap w CWait (GSend m))"
    by (simp add: told_to_stop_def split: supplier.splits)
  from sd_run.SInterrupt [OF this] have "sd_run k n w (?s False 0 chan_cap w (CRead False) (GSend m))"
    by (simp add: sd_interrupt_def)
  from sd_run.SStep [OF this sd_step.CtrlSet] have "sd_run k n w (?s True 0 chan_cap w CSet (GSend m))" by simp
  from sd_run.SStep [OF this sd_step.CtrlClose]
  have c: "sd_run k n w (?s True 1 chan_cap w CClosed (GSend m))" by simp
  have "sd_run k n w (?s True 1 chan_cap (w - j) CClosed (GSend m))" for j
  proof (induction j)
    case 0
    show ?case using c by simp
  next
    case (Suc j)
    show ?case
    proof (cases "w - j")
      case 0
      then show ?thesis using Suc by simp
    next
      case (Suc v)
      then have "w - Suc j = v" by simp
      then show ?thesis
        using sd_run.SStep [OF Suc.IH sd_step.WorkerStop [of _ v]] Suc by simp
    qed
  qed
  from this [of w] have r: "sd_run k n w (?s True 1 chan_cap 0 CClosed (GSend m))" by simp
  moreover have "\<not> sd_step k (?s True 1 chan_cap 0 CClosed (GSend m)) s'" for s'
    by (auto elim!: sd_stepE)
  ultimately show ?thesis by (intro exI [of _ "?s True 1 chan_cap 0 CClosed (GSend m)"]) (simp add: sd_deadlock_def)
qed

lemma ctrl_c_can_deadlock_witness: "\<exists>s. sd_run Read_ips_file 2000 1 s \<and> sd_deadlock s"
  using ctrl_c_can_deadlock [of 2000 Read_ips_file 1] by (auto simp: chan_cap_def)

end
