(* ===== verification/QminServer.thy ===== *)
theory QminServer
  imports Common
begin

section \<open>The name server of the QMIN measurement (qmin/dns_server/dns_server.go)\<close>

text \<open>
  The server is authoritative for a base domain. A probe asks for a long name below it whose last
  label, the id token, says how long the name is; a resolver that minimises its queries asks for
  suffixes of the name first, and the server records, per id token, by how many labels and with
  which type each query was longer than the one before. When the whole name is asked for, the
  answer is a TXT record that holds the recorded sequence.
\<close>

subsection \<open>Package strings, as this server uses it\<close>

definition contains_str :: "string \<Rightarrow> string \<Rightarrow> bool" where
  "contains_str s t \<longleftrightarrow> sublist t s"

definition has_suffix :: "string \<Rightarrow> string \<Rightarrow> bool" where
  "has_suffix s t \<longleftrightarrow> length t \<le> length s \<and> drop (length s - length t) s = t"

text \<open>\<open>strconv.ParseInt(s, 10, 64)\<close> when its error is ignored: 0 on a syntax error, the nearest bound out of range.\<close>

definition parse_int_val :: "string \<Rightarrow> int" where
  "parse_int_val s =
     (let clamp = (\<lambda>i :: int. max (- (2 ^ 63)) (min (2 ^ 63 - 1) i)) in
      case s of [] \<Rightarrow> 0
      | c # t \<Rightarrow>
          if c = CHR ''-'' then (case parse_nat t of None \<Rightarrow> 0 | Some n \<Rightarrow> clamp (- int n))
          else if c = CHR ''+'' then (case parse_nat t of None \<Rightarrow> 0 | Some n \<Rightarrow> clamp (int n))
          else (case parse_nat s of None \<Rightarrow> 0 | Some n \<Rightarrow> clamp (int n)))"

subsection \<open>State\<close>

record inducedProbe =
  ip_tokenSequence :: "string list"
  ip_currTokenNum :: int
  ip_resolver :: string

record probeData =
  pd_tokenLength :: int
  pd_incomingResolver :: string
  pd_lastSeen :: int
  pd_tokenSequence :: "string list"
  pd_currTokenNum :: int
  pd_induction :: bool
  pd_inductionProbe :: inducedProbe

type_synonym probes = "string \<rightharpoonup> probeData"

record resourceRecord =
  rec_qtype :: string
  rec_value :: string

record qmin_server =
  qs_baseURL :: string
  qs_timeout :: int
  qs_records :: "string \<rightharpoonup> resourceRecord"

text \<open>
  What the code uses of the DNS package: the name of a type, the type of a name, and whether the
  text of a resource record can be parsed.
\<close>

record dns_pkg =
  type_to_string :: "u16 \<Rightarrow> string"
  string_to_type :: "string \<Rightarrow> u16"
  rr_parses :: "string \<Rightarrow> bool"

datatype rcode = RcodeSuccess | RcodeServerFailure | RcodeNameError | RcodeRefused

text \<open>An answer: a record parsed from its text, or a CNAME.\<close>

datatype answer = RR string | CNAME string string

record reply =
  rp_rcode :: rcode
  rp_authoritative :: bool
  rp_answer :: "answer list"

record question =
  qn_name :: string
  qn_type :: u16
  qn_remote :: string

subsection \<open>The recorded sequence\<close>

definition strip_type :: "string \<Rightarrow> string" where
  "strip_type pToken = hd (split_on CHR ''_'' pToken)"

fun stripRTypes :: "string list \<Rightarrow> string" where
  "stripRTypes [] = []"
| "stripRTypes (p # ps) = foldl (\<lambda>res q. res @ ''.'' @ strip_type q) (strip_type p) ps"

lemma foldl_join: "foldl (\<lambda>res q. res @ ''.'' @ f q) x ps = join_with ''.'' (x # map f ps)"
proof (induction ps arbitrary: x)
  case Nil
  show ?case by simp
next
  case (Cons p ps)
  have "join_with ''.'' ((x @ ''.'' @ f p) # map f ps) = x @ ''.'' @ join_with ''.'' (f p # map f ps)"
    by (cases ps) simp_all
  with Cons show ?case by simp
qed

lemma stripRTypes_join: "stripRTypes seq = join_with ''.'' (map strip_type seq)"
proof (cases seq)
  case Nil
  then show ?thesis by simp
next
  case (Cons p ps)
  then show ?thesis by (simp only: stripRTypes.simps list.map foldl_join)
qed

definition updateProbeEntry ::
  "dns_pkg \<Rightarrow> int \<Rightarrow> string list \<Rightarrow> string \<Rightarrow> string list \<Rightarrow> u16 \<Rightarrow> (string list \<times> int \<times> bool) outcome" where
  "updateProbeEntry pkg tokenLength probeSeq tokenSeq tokens qtype =
     (let domain = stripRTypes probeSeq;
          extended = (length domain < length tokenSeq \<and> contains_str tokenSeq domain);
          tokenNum = (if extended then int (length tokens) else 0)
      in bindO (if \<not> extended then Ret probeSeq
                else bindO (if length domain = 0 then Ret tokenSeq
                            else slice_to tokenSeq (int (length tokenSeq) - int (length domain) - 1)) (\<lambda>newSeq.
                       Ret ((newSeq @ ''_'' @ type_to_string pkg qtype) # probeSeq))) (\<lambda>seq1.
         bindO (index seq1 0) (\<lambda>recentTok.
           let seq2 = (if length domain = length tokenSeq \<and> contains_str tokenSeq domain \<and>
                          qtype = DNSTypeTXT \<and> \<not> has_suffix recentTok ''_TXT''
                       then (itoa (tokenLength - 1) @ ''_'' @ type_to_string pkg qtype) # seq1 else seq1)
           in Ret (seq2, tokenNum, extended))))"

text \<open>The slice is only taken of a longer sequence, so it is in range.\<close>

lemma updateProbeEntry_eq:
  "updateProbeEntry pkg tokenLength probeSeq tokenSeq tokens qtype =
     (let domain = stripRTypes probeSeq;
          extended = (length domain < length tokenSeq \<and> contains_str tokenSeq domain);
          newSeq = (if domain = [] then tokenSeq else take (length tokenSeq - length domain - 1) tokenSeq);
          seq1 = (if extended then (newSeq @ ''_'' @ type_to_string pkg qtype) # probeSeq else probeSeq);
          tokenNum = (if extended then int (length tokens) else 0)
      in bindO (index seq1 0) (\<lambda>recentTok.
           let seq2 = (if length domain = length tokenSeq \<and> contains_str tokenSeq domain \<and>
                          qtype = DNSTypeTXT \<and> \<not> has_suffix recentTok ''_TXT''
                       then (itoa (tokenLength - 1) @ ''_'' @ type_to_string pkg qtype) # seq1 else seq1)
           in Ret (seq2, tokenNum, extended)))"
proof -
  let ?d = "stripRTypes probeSeq"
  have s: "slice_to tokenSeq (int (length tokenSeq) - int (length ?d) - 1) = Ret (take (length tokenSeq - length ?d - 1) tokenSeq)"
    if "length ?d < length tokenSeq"
    using that by (simp add: slice_to_def nat_diff_distrib')
  show ?thesis
  proof (cases "length ?d < length tokenSeq \<and> contains_str tokenSeq ?d")
    case True
    then show ?thesis using s by (simp add: updateProbeEntry_def Let_def)
  next
    case False
    then show ?thesis unfolding updateProbeEntry_def Let_def by (simp only: if_not_P if_False not_False_eq_True if_True bindO.simps)
  qed
qed

subsection \<open>Answering a request\<close>

definition empty_reply :: reply where
  "empty_reply = \<lparr>rp_rcode = RcodeSuccess, rp_authoritative = True, rp_answer = []\<rparr>"

definition rcode_reply :: "rcode \<Rightarrow> reply" where
  "rcode_reply rc = empty_reply\<lparr>rp_rcode := rc\<rparr>"

text \<open>Every answer but the CNAME goes through \<open>dns.New\<close>; a text that does not parse is a server failure.\<close>

definition rr_reply :: "dns_pkg \<Rightarrow> string \<Rightarrow> string \<Rightarrow> string \<Rightarrow> reply" where
  "rr_reply pkg name qtype value =
     (let txt = name @ '' 3600 IN '' @ qtype @ '' '' @ value
      in if rr_parses pkg txt then empty_reply\<lparr>rp_answer := [RR txt]\<rparr> else rcode_reply RcodeServerFailure)"

definition txt_reply :: "dns_pkg \<Rightarrow> string \<Rightarrow> string \<Rightarrow> reply" where
  "txt_reply pkg name txt = rr_reply pkg name ''TXT'' (CHR 34 # txt @ [CHR 34])"

definition remote_ip :: "string \<Rightarrow> string" where
  "remote_ip addr = hd (split_on CHR '':'' addr)"

definition nth_is :: "string list \<Rightarrow> nat \<Rightarrow> string \<Rightarrow> bool" where
  "nth_is xs i s \<longleftrightarrow> i < length xs \<and> xs ! i = s"

definition new_probe :: "dns_pkg \<Rightarrow> int \<Rightarrow> question \<Rightarrow> string \<Rightarrow> string list \<Rightarrow> string list \<Rightarrow> probeData outcome" where
  "new_probe pkg now q tokenSeq tokens meta = bindO (index meta 1) (\<lambda>len. Ret
     \<lparr>pd_tokenLength = parse_int_val len, pd_incomingResolver = remote_ip (qn_remote q),
      pd_lastSeen = now, pd_tokenSequence = [tokenSeq @ ''_'' @ type_to_string pkg (qn_type q)],
      pd_currTokenNum = int (length tokens), pd_induction = nth_is meta 3 ''induction'',
      pd_inductionProbe = \<lparr>ip_tokenSequence = [], ip_currTokenNum = 0, ip_resolver = []\<rparr>\<rparr>)"

text \<open>The part under the lock: the entry of the id token, and the key it is stored under.\<close>

definition record_probe ::
  "dns_pkg \<Rightarrow> int \<Rightarrow> question \<Rightarrow> string \<Rightarrow> string list \<Rightarrow> string \<Rightarrow> string list \<Rightarrow> probes \<Rightarrow>
     (string \<times> probeData) outcome" where
  "record_probe pkg now q tokenSeq tokens idToken meta m =
     (case m idToken of
        Some probe \<Rightarrow>
          bindO (updateProbeEntry pkg (pd_tokenLength probe) (pd_tokenSequence probe) tokenSeq tokens (qn_type q))
            (\<lambda>(updatedSeq, tokenNum, extended).
               Ret (idToken, (if extended then probe\<lparr>pd_currTokenNum := tokenNum\<rparr> else probe)
                      \<lparr>pd_tokenSequence := updatedSeq, pd_lastSeen := now\<rparr>))
      | None \<Rightarrow>
          (case m (idToken @ ''-induction'') of
             Some p \<Rightarrow>
               bindO (updateProbeEntry pkg (pd_tokenLength p) (ip_tokenSequence (pd_inductionProbe p)) tokenSeq tokens (qn_type q))
                 (\<lambda>(updatedSeq, tokenNum, extended).
                    let ind = (pd_inductionProbe p)\<lparr>ip_tokenSequence := updatedSeq\<rparr>;
                        ind' = (if extended then ind\<lparr>ip_currTokenNum := tokenNum, ip_resolver := remote_ip (qn_remote q)\<rparr> else ind)
                    in Ret (idToken @ ''-induction'', p\<lparr>pd_inductionProbe := ind', pd_lastSeen := now\<rparr>))
           | None \<Rightarrow> bindO (new_probe pkg now q tokenSeq tokens meta) (\<lambda>p. Ret (idToken, p))))"

text \<open>The labels \<open>n - 1\<close> down to 1, each with its dot, as the loops of the server and the scanner build them.\<close>

fun countdown :: "nat \<Rightarrow> string" where
  "countdown 0 = []"
| "countdown (Suc n) = itoa (int (Suc n)) @ ''.'' @ countdown n"

text \<open>The reply, from the entry just stored.\<close>

definition probe_reply :: "dns_pkg \<Rightarrow> qmin_server \<Rightarrow> question \<Rightarrow> string list \<Rightarrow> probeData \<Rightarrow> reply outcome" where
  "probe_reply pkg srv q meta probe =
     (let name = qn_name q; isTXT = (qn_type q = DNSTypeTXT) in
      if pd_induction probe \<and> ip_currTokenNum (pd_inductionProbe probe) = pd_tokenLength probe \<and> isTXT then
        Ret (txt_reply pkg name (pd_incomingResolver probe @ '','' @ join_with ''|'' (pd_tokenSequence probe) @ '','' @
          ip_resolver (pd_inductionProbe probe) @ '','' @ join_with ''|'' (ip_tokenSequence (pd_inductionProbe probe))))
      else if nth_is meta 3 ''nxopti'' then
        bindO (index name 0) (\<lambda>c.
          Ret (if c = CHR ''b'' then txt_reply pkg name ''false,,,'' else rcode_reply RcodeNameError))
      else if pd_currTokenNum probe = pd_tokenLength probe then
        (if nth_is meta 3 ''induction'' then
           bindO (slice_to meta 3) (\<lambda>parts. Ret (empty_reply\<lparr>rp_authoritative := False,
             rp_answer := [CNAME name (countdown (nat (pd_tokenLength probe - 1)) @ join_with ''-'' parts @ ''.'' @ qs_baseURL srv)]\<rparr>))
         else if isTXT then
           Ret (txt_reply pkg name (pd_incomingResolver probe @ '','' @ join_with ''|'' (pd_tokenSequence probe) @ '',NULL,NULL''))
         else Ret empty_reply)
      else if nth_is meta 3 ''qminmode'' then Ret (rcode_reply RcodeNameError)
      else Ret (rr_reply pkg name ''NS'' ''ns1.tilhempel.info.''))"

text \<open>The name without a leading \<open>_.\<close>, and whether it ends in the base domain and is longer.\<close>

definition drop_underscore :: "string \<Rightarrow> string outcome" where
  "drop_underscore d =
     (if 2 < length d then bindO (slice_to d 2) (\<lambda>p. if p = ''_.'' then slice_from d 2 else Ret d) else Ret d)"

definition below_base :: "string \<Rightarrow> string \<Rightarrow> bool outcome" where
  "below_base base d =
     (if length d \<le> length base then Ret False
      else bindO (slice_from d (int (length d) - int (length base))) (\<lambda>e. Ret (e = base)))"

text \<open>Where the name is not one of a configured record. \<open>strings.Split\<close> never returns an empty slice.\<close>

definition probe_request ::
  "dns_pkg \<Rightarrow> qmin_server \<Rightarrow> int \<Rightarrow> question \<Rightarrow> string \<Rightarrow> probes \<Rightarrow> (probes \<times> reply) outcome" where
  "probe_request pkg srv now q lower m =
     bindO (drop_underscore lower) (\<lambda>d. bindO (below_base (qs_baseURL srv) d) (\<lambda>below.
       if \<not> below then Ret (m, rcode_reply RcodeNameError)
       else bindO (slice_to d (int (length d) - int (length (qs_baseURL srv)) - 1)) (\<lambda>tokenSeq.
         let tokens = split_on CHR ''.'' tokenSeq in
         bindO (index tokens (length tokens - 1)) (\<lambda>idToken.
           if length idToken < 10 then Ret (m, rcode_reply RcodeRefused)
           else let meta = split_on CHR ''-'' idToken in
             if length meta < 3 then Ret (m, rcode_reply RcodeNameError)
             else bindO (record_probe pkg now q tokenSeq tokens idToken meta m) (\<lambda>(key, probe).
                    bindO (probe_reply pkg srv q meta probe) (\<lambda>r. Ret (m(key \<mapsto> probe), r)))))))"

definition requestResponse ::
  "dns_pkg \<Rightarrow> qmin_server \<Rightarrow> int \<Rightarrow> question \<Rightarrow> probes \<Rightarrow> (probes \<times> reply) outcome" where
  "requestResponse pkg srv now q m =
     (let lower = to_lower (qn_name q) in
      case qs_records srv lower of
        Some rec \<Rightarrow> if qn_type q = string_to_type pkg (rec_qtype rec)
                    then Ret (m, rr_reply pkg (qn_name q) (rec_qtype rec) (rec_value rec))
                    else probe_request pkg srv now q lower m
      | None \<Rightarrow> probe_request pkg srv now q lower m)"

text \<open>
  The handler of a message: the code reads \<open>r.Question[0]\<close> without a look at the length of the section.
\<close>

definition responder ::
  "dns_pkg \<Rightarrow> qmin_server \<Rightarrow> int \<Rightarrow> question list \<Rightarrow> probes \<Rightarrow> (probes \<times> reply) outcome" where
  "responder pkg srv now questions m = bindO (index questions 0) (\<lambda>q. requestResponse pkg srv now q m)"

text \<open>One sweep of \<open>cleanProbes\<close>; times are in milliseconds, \<open>now\<close> is read for every entry.\<close>

definition cleanProbes :: "qmin_server \<Rightarrow> (string \<Rightarrow> int) \<Rightarrow> probes \<Rightarrow> probes" where
  "cleanProbes srv now m =
     (\<lambda>k. case m k of None \<Rightarrow> None
        | Some v \<Rightarrow> if qs_timeout srv < now k - pd_lastSeen v then None else Some v)"

subsection \<open>Every index and slice of a request is in range\<close>

definition no_underscore :: "string \<Rightarrow> string" where
  "no_underscore d = (if 2 < length d \<and> take 2 d = ''_.'' then drop 2 d else d)"

definition is_below :: "string \<Rightarrow> string \<Rightarrow> bool" where
  "is_below base d \<longleftrightarrow> length base < length d \<and> has_suffix d base"

lemma drop_underscore_eq: "drop_underscore d = Ret (no_underscore d)"
  by (simp add: drop_underscore_def no_underscore_def slice_to_def slice_from_def)

lemma below_base_eq: "below_base base d = Ret (is_below base d)"
  by (auto simp: below_base_def is_below_def has_suffix_def slice_from_def nat_diff_distrib')

definition probe_of :: "dns_pkg \<Rightarrow> int \<Rightarrow> question \<Rightarrow> string \<Rightarrow> string list \<Rightarrow> string list \<Rightarrow> probeData" where
  "probe_of pkg now q tokenSeq tokens meta =
     \<lparr>pd_tokenLength = parse_int_val (meta ! 1), pd_incomingResolver = remote_ip (qn_remote q),
      pd_lastSeen = now, pd_tokenSequence = [tokenSeq @ ''_'' @ type_to_string pkg (qn_type q)],
      pd_currTokenNum = int (length tokens), pd_induction = nth_is meta 3 ''induction'',
      pd_inductionProbe = \<lparr>ip_tokenSequence = [], ip_currTokenNum = 0, ip_resolver = []\<rparr>\<rparr>"

lemma new_probe_eq: "2 \<le> length meta \<Longrightarrow> new_probe pkg now q ts toks meta = Ret (probe_of pkg now q ts toks meta)"
  by (simp add: new_probe_def probe_of_def)

definition reply_of :: "dns_pkg \<Rightarrow> qmin_server \<Rightarrow> question \<Rightarrow> string list \<Rightarrow> probeData \<Rightarrow> reply" where
  "reply_of pkg srv q meta probe = (case probe_reply pkg srv q meta probe of Ret r \<Rightarrow> r | Panic e \<Rightarrow> empty_reply)"

lemma probe_reply_eq:
  "qn_name q \<noteq> [] \<Longrightarrow> 3 \<le> length meta \<Longrightarrow> probe_reply pkg srv q meta probe = Ret (reply_of pkg srv q meta probe)"
  by (simp add: reply_of_def probe_reply_def slice_to_def Let_def)

lemma probe_request_eq:
  "probe_request pkg srv now q (to_lower (qn_name q)) m =
     (let d = no_underscore (to_lower (qn_name q));
          tokenSeq = take (length d - length (qs_baseURL srv) - 1) d;
          tokens = split_on CHR ''.'' tokenSeq; idToken = last tokens; meta = split_on CHR ''-'' idToken
      in if \<not> is_below (qs_baseURL srv) d then Ret (m, rcode_reply RcodeNameError)
         else if length idToken < 10 then Ret (m, rcode_reply RcodeRefused)
         else if length meta < 3 then Ret (m, rcode_reply RcodeNameError)
         else bindO (record_probe pkg now q tokenSeq tokens idToken meta m) (\<lambda>(key, probe).
                Ret (m(key \<mapsto> probe), reply_of pkg srv q meta probe)))"
proof (cases "is_below (qs_baseURL srv) (no_underscore (to_lower (qn_name q)))")
  case True
  let ?d = "no_underscore (to_lower (qn_name q))" and ?b = "qs_baseURL srv"
  have lt: "length ?b < length ?d" using True by (simp add: is_below_def)
  then have "slice_to ?d (int (length ?d) - int (length ?b) - 1) = Ret (take (length ?d - length ?b - 1) ?d)"
    by (simp add: slice_to_def nat_diff_distrib')
  moreover have "index (split_on c x) (length (split_on c x) - 1) = Ret (last (split_on c x))" for c x
    using split_on_neq_Nil [of c x] by (simp add: index_def last_conv_nth)
  moreover have "qn_name q \<noteq> []" using lt by (auto simp: no_underscore_def to_lower_def split: if_splits)
  ultimately show ?thesis using True
    by (simp add: probe_request_def drop_underscore_eq below_base_eq Let_def probe_reply_eq)
next
  case False
  then show ?thesis by (simp add: probe_request_def drop_underscore_eq below_base_eq Let_def)
qed

text \<open>
  An entry's own sequence is never empty, and an empty induction sequence is always extended by the
  request, so \<open>updatedSeq[0]\<close> exists.
\<close>

definition probes_ok :: "probes \<Rightarrow> bool" where
  "probes_ok m \<longleftrightarrow> (\<forall>k p. m k = Some p \<longrightarrow> pd_tokenSequence p \<noteq> [])"

lemma probes_okI: "(\<And>k p. m k = Some p \<Longrightarrow> pd_tokenSequence p \<noteq> []) \<Longrightarrow> probes_ok m"
  by (auto simp: probes_ok_def)

lemma probes_okD: "probes_ok m \<Longrightarrow> m k = Some p \<Longrightarrow> pd_tokenSequence p \<noteq> []"
  by (auto simp: probes_ok_def)

lemma probes_ok_upd: "probes_ok m \<Longrightarrow> pd_tokenSequence p \<noteq> [] \<Longrightarrow> probes_ok (m(k \<mapsto> p))"
  by (auto simp: probes_ok_def)

lemma updateProbeEntry_Ret:
  assumes "seq \<noteq> [] \<or> tokenSeq \<noteq> []"
  shows "\<exists>seq' n e. updateProbeEntry pkg tlen seq tokenSeq toks ty = Ret (seq', n, e) \<and> seq' \<noteq> []"
proof (cases "length (stripRTypes seq) < length tokenSeq \<and> contains_str tokenSeq (stripRTypes seq)")
  case True
  then show ?thesis by (auto simp: updateProbeEntry_eq Let_def)
next
  case False
  have "seq \<noteq> []"
  proof
    assume "seq = []"
    with False assms show False by (simp add: contains_str_def)
  qed
  then have ix: "index seq 0 = Ret (hd seq)" by (cases seq) simp_all
  show ?thesis
    unfolding updateProbeEntry_eq Let_def if_not_P [OF False] ix bindO.simps
    using \<open>seq \<noteq> []\<close> by simp
qed

lemma record_probe_Ret:
  assumes ok: "probes_ok m" and ne: "tokenSeq \<noteq> []" and meta: "3 \<le> length meta"
  shows "\<exists>k p. record_probe pkg now q tokenSeq tokens idToken meta m = Ret (k, p) \<and> pd_tokenSequence p \<noteq> []"
proof (cases "m idToken")
  case (Some p)
  obtain s n e where "updateProbeEntry pkg (pd_tokenLength p) (pd_tokenSequence p) tokenSeq tokens (qn_type q) = Ret (s, n, e)"
    and "s \<noteq> []" using updateProbeEntry_Ret [OF disjI2 [OF ne]] by blast
  with Some show ?thesis by (simp add: record_probe_def)
next
  case N: None
  show ?thesis
  proof (cases "m (idToken @ ''-induction'')")
    case (Some p)
    obtain s n e where "updateProbeEntry pkg (pd_tokenLength p) (ip_tokenSequence (pd_inductionProbe p)) tokenSeq tokens
        (qn_type q) = Ret (s, n, e)"
      using updateProbeEntry_Ret [OF disjI2 [OF ne]] by blast
    with N Some probes_okD [OF ok Some] show ?thesis by (simp add: record_probe_def Let_def)
  next
    case None
    with N meta show ?thesis by (simp add: record_probe_def new_probe_eq probe_of_def)
  qed
qed

lemma probe_request_Ret:
  assumes ok: "probes_ok m"
  shows "\<exists>m' a. probe_request pkg srv now q (to_lower (qn_name q)) m = Ret (m', a) \<and> probes_ok m'"
proof -
  define d where "d = no_underscore (to_lower (qn_name q))"
  define ts where "ts = take (length d - length (qs_baseURL srv) - 1) d"
  define tokens where "tokens = split_on CHR ''.'' ts"
  define meta where "meta = split_on CHR ''-'' (last tokens)"
  note eq = probe_request_eq [of pkg srv now q m, unfolded Let_def, folded d_def, folded ts_def, folded tokens_def, folded meta_def]
  show ?thesis
  proof (cases "is_below (qs_baseURL srv) d \<and> \<not> length (last tokens) < 10 \<and> \<not> length meta < 3")
    case False
    with ok show ?thesis unfolding eq by auto
  next
    case True
    then have "ts \<noteq> []" "3 \<le> length meta" by (auto simp: tokens_def)
    from record_probe_Ret [OF ok this] obtain k p
      where r: "record_probe pkg now q ts tokens (last tokens) meta m = Ret (k, p)" and p: "pd_tokenSequence p \<noteq> []"
      by blast
    from True have "probe_request pkg srv now q (to_lower (qn_name q)) m = Ret (m(k \<mapsto> p), reply_of pkg srv q meta p)"
      unfolding eq by (simp add: r)
    with probes_ok_upd [OF ok p] show ?thesis by blast
  qed
qed

lemma requestResponse_Ret:
  assumes ok: "probes_ok m"
  shows "\<exists>m' a. requestResponse pkg srv now q m = Ret (m', a) \<and> probes_ok m'"
  using probe_request_Ret [OF ok, of pkg srv now q] ok by (auto simp: requestResponse_def Let_def split: option.split)

lemma cleanProbes_ok: "probes_ok m \<Longrightarrow> probes_ok (cleanProbes srv now m)"
  by (auto simp: probes_ok_def cleanProbes_def split: option.splits if_splits)

text \<open>What happens to the shared map: a message with its questions, or a sweep of the cleaner.\<close>

datatype srv_event = Request int "question list" | Clean "string \<Rightarrow> int"

fun server_run :: "dns_pkg \<Rightarrow> qmin_server \<Rightarrow> srv_event list \<Rightarrow> probes \<Rightarrow> (probes \<times> reply list) outcome" where
  "server_run pkg srv [] m = Ret (m, [])"
| "server_run pkg srv (Request now qs # es) m =
     bindO (responder pkg srv now qs m) (\<lambda>(m', a).
       bindO (server_run pkg srv es m') (\<lambda>(m'', as). Ret (m'', a # as)))"
| "server_run pkg srv (Clean now # es) m = server_run pkg srv es (cleanProbes srv now m)"

fun is_request :: "srv_event \<Rightarrow> bool" where
  "is_request (Request now qs) = True"
| "is_request (Clean now) = False"

fun has_question :: "srv_event \<Rightarrow> bool" where
  "has_question (Request now qs) = (qs \<noteq> [])"
| "has_question (Clean now) = True"

lemma server_run_iff:
  "probes_ok m \<Longrightarrow>
    (if list_all has_question es then \<exists>m' as. server_run pkg srv es m = Ret (m', as) \<and> length as = length (filter is_request es)
     else server_run pkg srv es m = Panic IndexOutOfRange)"
proof (induction es arbitrary: m)
  case Nil
  then show ?case by simp
next
  case (Cons e es)
  show ?case
  proof (cases e)
    case (Request now qs)
    show ?thesis
    proof (cases qs)
      case Nil
      then show ?thesis by (simp add: Request responder_def index_def)
    next
      case (Cons q qs')
      obtain m1 a where r: "requestResponse pkg srv now q m = Ret (m1, a)" and ok: "probes_ok m1"
        using requestResponse_Ret [OF Cons.prems] by blast
      from Cons.IH [OF ok] r show ?thesis by (auto simp: Request Cons responder_def split: if_splits)
    qed
  next
    case (Clean now)
    from Cons.IH [OF cleanProbes_ok [OF Cons.prems]] show ?thesis by (auto simp: Clean split: if_splits)
  qed
qed

text \<open>
  C30. From an empty map, whatever messages arrive and whenever the cleaner runs: if every message has a
  question the server answers each of them, and no index or slice is out of range, whatever the names
  and types are. The one message that makes it panic is one without a question: \<open>r.Question[0]\<close> does
  not exist, and a run that receives one ends there.
\<close>
theorem qmin_server_never_panics:
  "if list_all has_question es
   then \<exists>m as. server_run pkg srv es Map.empty = Ret (m, as) \<and> length as = length (filter is_request es)
   else server_run pkg srv es Map.empty = Panic IndexOutOfRange"
  by (rule server_run_iff) (simp add: probes_ok_def)

subsection \<open>The start of the server\<close>

text \<open>
  \<open>Start_server\<close> copies the configuration into the server. A configured record is a map with the keys
  name, qtype and value; a missing key is the empty text.
\<close>

record qmin_server_cfg =
  qsv_BaseURL :: string
  qsv_ListenIp :: string
  qsv_Port :: int
  qsv_Timeout :: int
  qsv_SleepCycle :: int
  qsv_ResourceRecords :: "(string \<rightharpoonup> string) list"

definition field_of :: "(string \<rightharpoonup> string) \<Rightarrow> string \<Rightarrow> string" where
  "field_of r k = (case r k of Some v \<Rightarrow> v | None \<Rightarrow> [])"

definition add_record :: "(string \<rightharpoonup> string) \<Rightarrow> (string \<rightharpoonup> resourceRecord) \<Rightarrow> (string \<rightharpoonup> resourceRecord)" where
  "add_record r m = m(field_of r ''name'' \<mapsto>
     \<lparr>rec_qtype = field_of r ''qtype'', rec_value = field_of r ''value''\<rparr>)"

definition Start_server :: "qmin_server_cfg \<Rightarrow> qmin_server" where
  "Start_server cfg = \<lparr>qs_baseURL = qsv_BaseURL cfg, qs_timeout = qsv_Timeout cfg,
     qs_records = fold add_record (qsv_ResourceRecords cfg) Map.empty\<rparr>"

definition server_addr :: "qmin_server_cfg \<Rightarrow> string" where
  "server_addr cfg = qsv_ListenIp cfg @ '':'' @ itoa (qsv_Port cfg)"

text \<open>Of two records with one name the later one is served.\<close>

lemma Start_server_last:
  "qsv_ResourceRecords cfg = rs @ r # rs' \<Longrightarrow> \<forall>x \<in> set rs'. field_of x ''name'' \<noteq> field_of r ''name'' \<Longrightarrow>
    qs_records (Start_server cfg) (field_of r ''name'') =
      Some \<lparr>rec_qtype = field_of r ''qtype'', rec_value = field_of r ''value''\<rparr>"
proof -
  have keep: "fold add_record rs' m k = m k" if "\<forall>x \<in> set rs'. field_of x ''name'' \<noteq> k" for m k
    using that by (induction rs' arbitrary: m) (auto simp: add_record_def)
  assume "qsv_ResourceRecords cfg = rs @ r # rs'" "\<forall>x \<in> set rs'. field_of x ''name'' \<noteq> field_of r ''name''"
  then show ?thesis by (simp add: Start_server_def keep) (simp add: add_record_def)
qed

end
