(* ===== verification/QminExchange.thy ===== *)
theory QminExchange
  imports QminServer
begin

section \<open>What the name server records of a resolution\<close>

text \<open>
  A resolution is a sequence of queries for longer and longer suffixes of one name. This theory
  follows the server through such a sequence: the entry it keeps for the id token, its replies, and
  the text of the final answer; then the same for the second name a CNAME leads to.
\<close>

subsection \<open>Joining labels\<close>

lemma join_with_append:
  "xs \<noteq> [] \<Longrightarrow> ys \<noteq> [] \<Longrightarrow> join_with s (xs @ ys) = join_with s xs @ s @ join_with s ys"
proof (induction xs)
  case Nil
  then show ?case by simp
next
  case (Cons x xs)
  then show ?case by (cases "xs = []") (simp_all add: join_with_Cons)
qed

lemma join_with_eq_Nil: "xs \<noteq> [] \<Longrightarrow> (\<forall>x \<in> set xs. x \<noteq> []) \<Longrightarrow> join_with s xs \<noteq> []"
  by (cases xs rule: list.exhaust; cases "tl xs") auto

lemma set_join_with: "c \<in> set (join_with s xs) \<Longrightarrow> c \<in> set s \<or> (\<exists>x \<in> set xs. c \<in> set x)"
  by (induction s xs rule: join_with.induct) auto

text \<open>Labels of a name: not empty, no dot, and none of the underscores the server uses as separator.\<close>

definition good_labels :: "string list \<Rightarrow> bool" where
  "good_labels L \<longleftrightarrow> L \<noteq> [] \<and> (\<forall>x \<in> set L. x \<noteq> [] \<and> CHR ''.'' \<notin> set x \<and> CHR ''_'' \<notin> set x)"

definition low :: "string list \<Rightarrow> nat \<Rightarrow> string list" where
  "low L n = drop (length L - n) L"

lemma low_facts:
  assumes "good_labels L" and "1 \<le> n" and "n \<le> length L"
  shows "low L n \<noteq> []" "length (low L n) = n" "last (low L n) = last L" "set (low L n) \<subseteq> set L"
    "split_on CHR ''.'' (join_with ''.'' (low L n)) = low L n" "join_with ''.'' (low L n) \<noteq> []"
    "CHR ''_'' \<notin> set (join_with ''.'' (low L n))"
proof -
  have len: "length (low L n) = n" using assms(3) by (simp add: low_def)
  show ne: "low L n \<noteq> []" using len assms(2) by auto
  show "length (low L n) = n" by (fact len)
  show sub: "set (low L n) \<subseteq> set L" by (simp add: low_def set_drop_subset)
  show "last (low L n) = last L" using assms(2,3) ne unfolding low_def by (simp add: last_drop)
  have g: "\<forall>x \<in> set (low L n). x \<noteq> [] \<and> CHR ''.'' \<notin> set x \<and> CHR ''_'' \<notin> set x"
    using assms(1) sub by (auto simp: good_labels_def)
  then show "split_on CHR ''.'' (join_with ''.'' (low L n)) = low L n" using ne split_on_join by blast
  show "join_with ''.'' (low L n) \<noteq> []" using ne g join_with_eq_Nil by blast
  show "CHR ''_'' \<notin> set (join_with ''.'' (low L n))" using g set_join_with by fastforce
qed

lemma low_split: "i \<le> n \<Longrightarrow> n \<le> length L \<Longrightarrow> low L n = take (n - i) (low L n) @ low L i"
proof -
  assume "i \<le> n" "n \<le> length L"
  then have "drop (n - i) (low L n) = low L i" by (simp add: low_def)
  then show ?thesis by (metis append_take_drop_id)
qed

subsection \<open>One query\<close>

text \<open>A query for the last \<open>n\<close> labels below the base domain, in any case, with or without a leading \<open>_.\<close>.\<close>

definition query_for :: "string \<Rightarrow> string list \<Rightarrow> nat \<Rightarrow> question \<Rightarrow> bool" where
  "query_for base L n q \<longleftrightarrow> 1 \<le> n \<and> n \<le> length L \<and>
     (to_lower (qn_name q) = join_with ''.'' (low L n) @ ''.'' @ base \<or>
      to_lower (qn_name q) = ''_.'' @ join_with ''.'' (low L n) @ ''.'' @ base)"

lemma drop_underscore_query:
  assumes "good_labels L" and "query_for base L n q"
  shows "no_underscore (to_lower (qn_name q)) = join_with ''.'' (low L n) @ ''.'' @ base"
proof -
  have n: "1 \<le> n" "n \<le> length L" using assms(2) by (simp_all add: query_for_def)
  note f = low_facts [OF assms(1) n]
  obtain c t where c: "join_with ''.'' (low L n) = c # t" using f(6) by (meson list.exhaust)
  with f(7) have "c \<noteq> CHR ''_''" by auto
  then have "no_underscore (join_with ''.'' (low L n) @ ''.'' @ base) = join_with ''.'' (low L n) @ ''.'' @ base"
    by (simp add: no_underscore_def c)
  moreover have "no_underscore (''_.'' @ join_with ''.'' (low L n) @ ''.'' @ base) = join_with ''.'' (low L n) @ ''.'' @ base"
    by (simp add: no_underscore_def c)
  ultimately show ?thesis using assms(2) by (auto simp: query_for_def)
qed

lemma requestResponse_below:
  assumes "good_labels L" and "query_for (qs_baseURL srv) L n q" and "qs_records srv (to_lower (qn_name q)) = None"
    and "10 \<le> length (last L)" and "3 \<le> length (split_on CHR ''-'' (last L))"
  shows "requestResponse pkg srv now q m =
    bindO (record_probe pkg now q (join_with ''.'' (low L n)) (low L n) (last L) (split_on CHR ''-'' (last L)) m)
      (\<lambda>(key, probe). Ret (m(key \<mapsto> probe), reply_of pkg srv q (split_on CHR ''-'' (last L)) probe))"
proof -
  have n: "1 \<le> n" "n \<le> length L" using assms(2) by (simp_all add: query_for_def)
  note f = low_facts [OF assms(1) n]
  have "is_below (qs_baseURL srv) (join_with ''.'' (low L n) @ ''.'' @ qs_baseURL srv)"
    by (simp add: is_below_def has_suffix_def)
  then show ?thesis
    using assms(3-5) f(3,5)
    by (simp add: requestResponse_def probe_request_eq drop_underscore_query [OF assms(1,2)] Let_def)
qed

text \<open>What a query for \<open>n\<close> labels adds to a sequence that covers \<open>i\<close> labels.\<close>

definition piece :: "dns_pkg \<Rightarrow> string list \<Rightarrow> nat \<Rightarrow> nat \<Rightarrow> u16 \<Rightarrow> string" where
  "piece pkg L i n ty = join_with ''.'' (take (n - i) (low L n)) @ ''_'' @ type_to_string pkg ty"

definition covers :: "string list \<Rightarrow> nat \<Rightarrow> string list \<Rightarrow> bool" where
  "covers L i seq \<longleftrightarrow> stripRTypes seq = join_with ''.'' (low L i) \<and> (seq = [] \<longleftrightarrow> i = 0)"

lemma strip_piece:
  assumes "good_labels L" and "i < n" and "n \<le> length L"
  shows "strip_type (piece pkg L i n ty) = join_with ''.'' (take (n - i) (low L n))"
proof -
  have "CHR ''_'' \<notin> set (join_with ''.'' (take (n - i) (low L n)))"
  proof
    assume "CHR ''_'' \<in> set (join_with ''.'' (take (n - i) (low L n)))"
    then obtain x where "x \<in> set (take (n - i) (low L n))" "CHR ''_'' \<in> set x"
      using set_join_with by fastforce
    moreover have "set (take (n - i) (low L n)) \<subseteq> set L" by (auto simp: low_def dest: in_set_takeD in_set_dropD)
    ultimately show False using assms(1) by (auto simp: good_labels_def)
  qed
  then show ?thesis by (simp add: strip_type_def piece_def split_on_append_sep)
qed

lemma low_join:
  assumes "good_labels L" and "0 < i" and "i < n" and "n \<le> length L"
  shows "join_with ''.'' (low L n) = join_with ''.'' (take (n - i) (low L n)) @ ''.'' @ join_with ''.'' (low L i)"
proof -
  have "low L i \<noteq> []" "take (n - i) (low L n) \<noteq> []" using assms by (auto simp: low_def)
  then show ?thesis using join_with_append low_split [of i n L] assms(3,4)
    by (metis less_imp_le)
qed

lemma covers_piece:
  assumes "good_labels L" and "i < n" and "n \<le> length L" and "covers L i seq"
  shows "covers L n (piece pkg L i n ty # seq)"
proof (cases "i = 0")
  case True
  with assms show ?thesis
    by (simp add: covers_def stripRTypes_join strip_piece low_def)
next
  case False
  with assms(4) have "map strip_type seq \<noteq> []" by (simp add: covers_def)
  then have "stripRTypes (piece pkg L i n ty # seq) = strip_type (piece pkg L i n ty) @ ''.'' @ stripRTypes seq"
    by (simp add: stripRTypes_join join_with_Cons)
  with assms False low_join [OF assms(1) _ assms(2,3)] show ?thesis by (simp add: covers_def strip_piece)
qed

lemma updateProbeEntry_extends:
  assumes "good_labels L" and "i < n" and "n \<le> length L" and "covers L i seq"
  shows "updateProbeEntry pkg tlen seq (join_with ''.'' (low L n)) toks ty =
    Ret (piece pkg L i n ty # seq, int (length toks), True)"
proof (cases "i = 0")
  case True
  with assms(4) have "seq = []" by (simp add: covers_def)
  moreover have "0 < length (join_with ''.'' (low L n))" using low_facts(6) [of L n] assms(1-3) by simp
  ultimately show ?thesis using True
    by (simp add: updateProbeEntry_eq Let_def contains_str_def piece_def low_def)
next
  case False
  let ?d = "join_with ''.'' (low L i)" and ?p = "join_with ''.'' (take (n - i) (low L n))"
  have d: "stripRTypes seq = ?d" using assms(4) by (simp add: covers_def)
  have ne: "?d \<noteq> []" using low_facts(6) [of L i] assms False by simp
  have eq: "join_with ''.'' (low L n) = ?p @ ''.'' @ ?d" using low_join assms False by simp
  have sub: "sublist ?d (?p @ ''.'' @ ?d)" by (metis append.assoc append_Nil2 sublist_appendI)
  show ?thesis
    unfolding eq using ne sub
    by (simp add: updateProbeEntry_eq Let_def contains_str_def d piece_def)
qed

subsection \<open>A resolution below one id token\<close>

text \<open>
  \<open>session\<close> is the state of the server between two queries of a resolution: nothing is known of the
  id token, or its entry covers the last \<open>i\<close> labels.
\<close>

definition session_entry :: "probeData \<Rightarrow> int \<Rightarrow> string \<Rightarrow> bool \<Rightarrow> nat \<Rightarrow> string list \<Rightarrow> bool" where
  "session_entry p d r ind i seq \<longleftrightarrow> pd_tokenLength p = d \<and> pd_incomingResolver p = r \<and> pd_induction p = ind \<and>
     pd_currTokenNum p = int i \<and> pd_tokenSequence p = seq \<and>
     pd_inductionProbe p = \<lparr>ip_tokenSequence = [], ip_currTokenNum = 0, ip_resolver = []\<rparr>"

definition session :: "string list \<Rightarrow> probes \<Rightarrow> int \<Rightarrow> string \<Rightarrow> bool \<Rightarrow> nat \<Rightarrow> string list \<Rightarrow> bool" where
  "session L m d r ind i seq \<longleftrightarrow> covers L i seq \<and>
     (if i = 0 then m (last L) = None \<and> m (last L @ ''-induction'') = None
      else \<exists>p. m (last L) = Some p \<and> session_entry p d r ind i seq)"

text \<open>The id token names its number of labels, and is one of an induction request or not.\<close>

definition token_of :: "string list \<Rightarrow> int \<Rightarrow> bool \<Rightarrow> bool" where
  "token_of L d ind \<longleftrightarrow> 10 \<le> length (last L) \<and> 3 \<le> length (split_on CHR ''-'' (last L)) \<and>
     parse_int_val (split_on CHR ''-'' (last L) ! 1) = d \<and>
     nth_is (split_on CHR ''-'' (last L)) 3 ''induction'' = ind"

lemma session_step:
  assumes L: "good_labels L" and tok: "token_of L d ind" and s: "session L m d r ind i seq"
    and q: "query_for (qs_baseURL srv) L n q" and rec: "qs_records srv (to_lower (qn_name q)) = None"
    and i: "i < n" and r: "i = 0 \<Longrightarrow> r = remote_ip (qn_remote q)"
  shows "\<exists>p. requestResponse pkg srv now q m =
      Ret (m(last L \<mapsto> p), reply_of pkg srv q (split_on CHR ''-'' (last L)) p) \<and>
    session_entry p d r ind n (piece pkg L i n (qn_type q) # seq) \<and>
    session L (m(last L \<mapsto> p)) d r ind n (piece pkg L i n (qn_type q) # seq)"
proof -
  let ?meta = "split_on CHR ''-'' (last L)"
  have n: "1 \<le> n" "n \<le> length L" using q by (simp_all add: query_for_def)
  have cov: "covers L i seq" using s by (simp add: session_def)
  note f = low_facts [OF L n]
  note rr = requestResponse_below [OF L q rec]
  have meta: "10 \<le> length (last L)" "3 \<le> length ?meta" "parse_int_val (?meta ! 1) = d" "nth_is ?meta 3 ''induction'' = ind"
    using tok by (simp_all add: token_of_def)
  have "\<exists>p. record_probe pkg now q (join_with ''.'' (low L n)) (low L n) (last L) ?meta m = Ret (last L, p) \<and>
      session_entry p d r ind n (piece pkg L i n (qn_type q) # seq)"
  proof (cases "i = 0")
    case True
    then have "seq = []" and none: "m (last L) = None" "m (last L @ ''-induction'') = None"
      using s by (simp_all add: session_def covers_def)
    then show ?thesis using True meta(2-4) f(2) r [OF True]
      by (simp add: record_probe_def new_probe_eq probe_of_def session_entry_def piece_def)
  next
    case False
    then obtain p where p: "m (last L) = Some p" "session_entry p d r ind i seq"
      using s by (auto simp: session_def)
    have "pd_tokenSequence p = seq" using p(2) by (simp add: session_entry_def)
    then have u: "updateProbeEntry pkg (pd_tokenLength p) (pd_tokenSequence p) (join_with ''.'' (low L n)) (low L n)
        (qn_type q) = Ret (piece pkg L i n (qn_type q) # seq, int n, True)"
      using updateProbeEntry_extends [OF L i n(2) cov] f(2) by simp
    show ?thesis using p(2) unfolding record_probe_def p(1) option.case u
      by (simp add: session_entry_def)
  qed
  then obtain p where p: "record_probe pkg now q (join_with ''.'' (low L n)) (low L n) (last L) ?meta m = Ret (last L, p)"
    and e: "session_entry p d r ind n (piece pkg L i n (qn_type q) # seq)" by blast
  have "session L (m(last L \<mapsto> p)) d r ind n (piece pkg L i n (qn_type q) # seq)"
    using covers_piece [OF L i n(2) cov] e i by (simp add: session_def)
  with e show ?thesis unfolding rr [OF meta(1,2)] p bindO.simps prod.case by blast
qed

text \<open>The queries of a resolution: when, what, and for how many labels.\<close>

type_synonym steps = "(int \<times> question \<times> nat) list"

fun ascending :: "qmin_server \<Rightarrow> string list \<Rightarrow> nat \<Rightarrow> steps \<Rightarrow> bool" where
  "ascending srv L i [] \<longleftrightarrow> True"
| "ascending srv L i ((now, q, n) # r) \<longleftrightarrow>
     i < n \<and> query_for (qs_baseURL srv) L n q \<and> qs_records srv (to_lower (qn_name q)) = None \<and> ascending srv L n r"

fun reaches :: "nat \<Rightarrow> steps \<Rightarrow> nat" where
  "reaches i [] = i"
| "reaches i ((now, q, n) # r) = reaches n r"

text \<open>The recorded sequence, the latest query first.\<close>

fun pieces :: "dns_pkg \<Rightarrow> string list \<Rightarrow> nat \<Rightarrow> steps \<Rightarrow> string list" where
  "pieces pkg L i [] = []"
| "pieces pkg L i ((now, q, n) # r) = pieces pkg L n r @ [piece pkg L i n (qn_type q)]"

fun serve :: "dns_pkg \<Rightarrow> qmin_server \<Rightarrow> steps \<Rightarrow> probes \<Rightarrow> (probes \<times> reply list) outcome" where
  "serve pkg srv [] m = Ret (m, [])"
| "serve pkg srv ((now, q, n) # r) m =
     bindO (requestResponse pkg srv now q m) (\<lambda>(m', a). bindO (serve pkg srv r m') (\<lambda>(m'', as). Ret (m'', a # as)))"

lemma bindO_assoc: "bindO (bindO x f) g = bindO x (\<lambda>a. bindO (f a) g)"
  by (cases x) simp_all

lemma bindO_Ret_right: "bindO x Ret = x"
  by (cases x) simp_all

lemma serve_append:
  "serve pkg srv (xs @ ys) m =
     bindO (serve pkg srv xs m) (\<lambda>(m', as). bindO (serve pkg srv ys m') (\<lambda>(m'', bs). Ret (m'', as @ bs)))"
proof (induction xs arbitrary: m)
  case Nil
  show ?case by (simp add: case_prod_beta' bindO_Ret_right)
next
  case (Cons x xs)
  obtain now q n where x: "x = (now, q, n)" by (cases x)
  show ?case by (simp add: x Cons.IH bindO_assoc case_prod_beta')
qed

definition referral :: "dns_pkg \<Rightarrow> question \<Rightarrow> reply" where
  "referral pkg q = rr_reply pkg (qn_name q) ''NS'' ''ns1.tilhempel.info.''"

definition interim :: "dns_pkg \<Rightarrow> string list \<Rightarrow> int \<times> question \<times> nat \<Rightarrow> reply" where
  "interim pkg L st = (if nth_is (split_on CHR ''-'' (last L)) 3 ''qminmode'' then rcode_reply RcodeNameError
     else referral pkg (fst (snd st)))"

lemma session_run:
  assumes L: "good_labels L" and tok: "token_of L (int (length L)) ind"
    and nx: "\<not> nth_is (split_on CHR ''-'' (last L)) 3 ''nxopti''"
    and "session L m (int (length L)) r ind i seq" and "ascending srv L i sts"
    and "i = 0 \<Longrightarrow> sts \<noteq> [] \<Longrightarrow> r = remote_ip (qn_remote (fst (snd (hd sts))))"
    and "\<forall>st \<in> set sts. snd (snd st) < length L"
  shows "\<exists>m'. serve pkg srv sts m = Ret (m', map (interim pkg L) sts) \<and>
    session L m' (int (length L)) r ind (reaches i sts) (pieces pkg L i sts @ seq) \<and>
    (\<forall>k. k \<noteq> last L \<longrightarrow> m' k = m k)"
  using assms(4-7)
proof (induction sts arbitrary: i seq m)
  case Nil
  then show ?case by simp
next
  case (Cons st sts)
  obtain now q n where st: "st = (now, q, n)" by (cases st)
  let ?meta = "split_on CHR ''-'' (last L)"
  have i: "i < n" and q: "query_for (qs_baseURL srv) L n q" and rec: "qs_records srv (to_lower (qn_name q)) = None"
    and asc: "ascending srv L n sts" using Cons.prems(2) by (simp_all add: st)
  have "i = 0 \<Longrightarrow> r = remote_ip (qn_remote q)" using Cons.prems(3) by (simp add: st)
  from session_step [OF L tok Cons.prems(1) q rec i this] obtain p
    where rr: "requestResponse pkg srv now q m = Ret (m(last L \<mapsto> p), reply_of pkg srv q ?meta p)"
      and e: "session_entry p (int (length L)) r ind n (piece pkg L i n (qn_type q) # seq)"
      and s: "session L (m(last L \<mapsto> p)) (int (length L)) r ind n (piece pkg L i n (qn_type q) # seq)" by blast
  have "n < length L" using Cons.prems(4) by (simp add: st)
  moreover from this have "L \<noteq> []" by auto
  ultimately have reply: "reply_of pkg srv q ?meta p = interim pkg L st"
    using e nx by (simp add: reply_of_def probe_reply_def session_entry_def interim_def referral_def st Let_def)
  have n0: "n = 0 \<Longrightarrow> sts \<noteq> [] \<Longrightarrow> r = remote_ip (qn_remote (fst (snd (hd sts))))" using i by simp
  have "\<exists>m'. serve pkg srv sts (m(last L \<mapsto> p)) = Ret (m', map (interim pkg L) sts) \<and>
    session L m' (int (length L)) r ind (reaches n sts) (pieces pkg L n sts @ piece pkg L i n (qn_type q) # seq) \<and>
    (\<forall>k. k \<noteq> last L \<longrightarrow> m' k = (m(last L \<mapsto> p)) k)"
    by (rule Cons.IH [OF s asc n0]) (use Cons.prems(4) in \<open>simp_all add: st\<close>)
  then show ?case by (auto simp: st rr reply)
qed

subsection \<open>A plain resolution\<close>

lemma ascending_append:
  "ascending srv L i (xs @ ys) \<longleftrightarrow> ascending srv L i xs \<and> ascending srv L (reaches i xs) ys"
  by (induction srv L i xs rule: ascending.induct) auto

lemma pieces_append: "pieces pkg L i (xs @ ys) = pieces pkg L (reaches i xs) ys @ pieces pkg L i xs"
  by (induction pkg L i xs rule: pieces.induct) auto

lemma ascending_reaches:
  "ascending srv L i xs \<Longrightarrow> i \<le> reaches i xs \<and> (\<forall>st \<in> set xs. snd (snd st) \<le> reaches i xs)"
  by (induction srv L i xs rule: ascending.induct) fastforce+

lemma ascending_snoc:
  assumes "ascending srv L i (xs @ [(now, q, n)])"
  shows "ascending srv L i xs" "reaches i xs < n" "query_for (qs_baseURL srv) L n q"
    "qs_records srv (to_lower (qn_name q)) = None" "\<forall>st \<in> set xs. snd (snd st) < n"
  using assms ascending_reaches [of srv L i xs] by (auto simp: ascending_append)

definition first_remote :: "steps \<Rightarrow> string" where
  "first_remote sts = remote_ip (qn_remote (fst (snd (hd sts))))"

lemma session_finish:
  assumes L: "good_labels L" and tok: "token_of L (int (length L)) ind"
    and nx: "\<not> nth_is (split_on CHR ''-'' (last L)) 3 ''nxopti''"
    and new: "m (last L) = None" "m (last L @ ''-induction'') = None"
    and asc: "ascending srv L 0 (sts @ [(now, q, length L)])"
  shows "\<exists>m' p. serve pkg srv (sts @ [(now, q, length L)]) m =
      Ret (m'(last L \<mapsto> p), map (interim pkg L) sts @ [reply_of pkg srv q (split_on CHR ''-'' (last L)) p]) \<and>
    session_entry p (int (length L)) (first_remote (sts @ [(now, q, length L)])) ind (length L)
      (pieces pkg L 0 (sts @ [(now, q, length L)])) \<and>
    (\<forall>k. k \<noteq> last L \<longrightarrow> m' k = m k)"
proof -
  let ?r = "first_remote (sts @ [(now, q, length L)])"
  note a = ascending_snoc [OF asc]
  have s0: "session L m (int (length L)) ?r ind 0 []" using new by (simp add: session_def covers_def low_def)
  have r0: "sts \<noteq> [] \<Longrightarrow> ?r = remote_ip (qn_remote (fst (snd (hd sts))))" by (simp add: first_remote_def)
  from session_run [OF L tok nx s0 a(1) r0 a(5)] obtain m'
    where run: "serve pkg srv sts m = Ret (m', map (interim pkg L) sts)"
      and s: "session L m' (int (length L)) ?r ind (reaches 0 sts) (pieces pkg L 0 sts)"
      and other: "\<forall>k. k \<noteq> last L \<longrightarrow> m' k = m k" by auto
  have "sts = []" if "reaches 0 sts = 0"
    using ascending_reaches [OF a(1)] a(1) that by (cases sts) auto
  then have r1: "reaches 0 sts = 0 \<Longrightarrow> ?r = remote_ip (qn_remote q)" by (simp add: first_remote_def)
  from session_step [OF L tok s a(3,4,2) r1] obtain p
    where "requestResponse pkg srv now q m' = Ret (m'(last L \<mapsto> p), reply_of pkg srv q (split_on CHR ''-'' (last L)) p)"
      and "session_entry p (int (length L)) ?r ind (length L) (pieces pkg L 0 (sts @ [(now, q, length L)]))"
    by (auto simp: pieces_append)
  with run other show ?thesis by (auto simp: serve_append)
qed

lemma final_reply:
  assumes "token_of L (int (length L)) False" and "\<not> nth_is (split_on CHR ''-'' (last L)) 3 ''nxopti''"
    and "session_entry p (int (length L)) r False (length L) seq" and "qn_type q = DNSTypeTXT"
  shows "reply_of pkg srv q (split_on CHR ''-'' (last L)) p =
    txt_reply pkg (qn_name q) (r @ '','' @ join_with ''|'' seq @ '',NULL,NULL'')"
  using assms by (simp add: reply_of_def probe_reply_def session_entry_def token_of_def Let_def)

text \<open>
  C10. A resolver that asks for longer and longer suffixes of a probe name, in any letter case and with
  or without a leading \<open>_.\<close>, and ends with a TXT query for the whole name: every query before the last
  gets a referral (NXDOMAIN in a mode test), and the last one a TXT record with the address of
  the first query and the complete sequence of queries, the latest first, each by the labels it
  added and its type. Other entries of the server do not change.
\<close>
theorem qmin_sequence_recorded:
  assumes "good_labels L" and "token_of L (int (length L)) False"
    and "\<not> nth_is (split_on CHR ''-'' (last L)) 3 ''nxopti''"
    and "m (last L) = None" and "m (last L @ ''-induction'') = None"
    and "ascending srv L 0 (sts @ [(now, q, length L)])" and "qn_type q = DNSTypeTXT"
  shows "\<exists>m'. serve pkg srv (sts @ [(now, q, length L)]) m = Ret (m', map (interim pkg L) sts @
      [txt_reply pkg (qn_name q) (first_remote (sts @ [(now, q, length L)]) @ '','' @
         join_with ''|'' (pieces pkg L 0 (sts @ [(now, q, length L)])) @ '',NULL,NULL'')]) \<and>
    (\<forall>k. k \<noteq> last L \<longrightarrow> m' k = m k)"
proof -
  from session_finish [OF assms(1-6)] obtain m' p
    where run: "serve pkg srv (sts @ [(now, q, length L)]) m =
        Ret (m'(last L \<mapsto> p), map (interim pkg L) sts @ [reply_of pkg srv q (split_on CHR ''-'' (last L)) p])"
      and e: "session_entry p (int (length L)) (first_remote (sts @ [(now, q, length L)])) False (length L)
        (pieces pkg L 0 (sts @ [(now, q, length L)]))" and other: "\<forall>k. k \<noteq> last L \<longrightarrow> m' k = m k" by blast
  from run other show ?thesis unfolding final_reply [OF assms(2,3) e assms(7)] by auto
qed

definition ex_pkg :: dns_pkg where
  "ex_pkg = \<lparr>type_to_string = (\<lambda>t. if t = DNSTypeTXT then ''TXT'' else if t = DNSTypeA then ''A'' else ''NS''),
     string_to_type = (\<lambda>s. if s = ''TXT'' then DNSTypeTXT else DNSTypeA), rr_parses = (\<lambda>_. True)\<rparr>"

definition ex_srv :: qmin_server where
  "ex_srv = \<lparr>qs_baseURL = ''q.example.'', qs_timeout = 60000, qs_records = Map.empty\<rparr>"

definition ex_labels :: "string list" where
  "ex_labels = [''2'', ''1'', ''0a0b0c0d-3-77'']"

definition ex_steps :: steps where
  "ex_steps = [(5, \<lparr>qn_name = ''0a0b0c0d-3-77.q.example.'', qn_type = DNSTypeA, qn_remote = ''192.0.2.7:4711''\<rparr>, 1),
               (6, \<lparr>qn_name = ''_.1.0A0b0c0d-3-77.q.Example.'', qn_type = DNSTypeA, qn_remote = ''192.0.2.8:4711''\<rparr>, 2)]"

definition ex_last :: question where
  "ex_last = \<lparr>qn_name = ''2.1.0a0b0c0d-3-77.q.example.'', qn_type = DNSTypeTXT, qn_remote = ''192.0.2.7:4712''\<rparr>"

lemma qmin_sequence_recorded_witness:
  "\<exists>m'. serve ex_pkg ex_srv (ex_steps @ [(7, ex_last, length ex_labels)]) Map.empty = Ret (m',
     [rr_reply ex_pkg ''0a0b0c0d-3-77.q.example.'' ''NS'' ''ns1.tilhempel.info.'',
      rr_reply ex_pkg ''_.1.0A0b0c0d-3-77.q.Example.'' ''NS'' ''ns1.tilhempel.info.'',
      txt_reply ex_pkg (qn_name ex_last) ''192.0.2.7,2_TXT|1_A|0a0b0c0d-3-77_A,NULL,NULL''])"
proof -
  have "good_labels ex_labels" "token_of ex_labels (int (length ex_labels)) False"
    "\<not> nth_is (split_on CHR ''-'' (last ex_labels)) 3 ''nxopti''"
    "ascending ex_srv ex_labels 0 (ex_steps @ [(7, ex_last, length ex_labels)])" "qn_type ex_last = DNSTypeTXT"
    unfolding good_labels_def by code_simp+
  from qmin_sequence_recorded [OF this(1-3) _ _ this(4,5), of Map.empty ex_pkg]
  obtain m' where "serve ex_pkg ex_srv (ex_steps @ [(7, ex_last, length ex_labels)]) Map.empty = Ret (m',
      map (interim ex_pkg ex_labels) ex_steps @ [txt_reply ex_pkg (qn_name ex_last)
        (first_remote (ex_steps @ [(7, ex_last, length ex_labels)]) @ '','' @
         join_with ''|'' (pieces ex_pkg ex_labels 0 (ex_steps @ [(7, ex_last, length ex_labels)])) @ '',NULL,NULL'')])"
    by auto
  moreover have "map (interim ex_pkg ex_labels) ex_steps =
     [rr_reply ex_pkg ''0a0b0c0d-3-77.q.example.'' ''NS'' ''ns1.tilhempel.info.'',
      rr_reply ex_pkg ''_.1.0A0b0c0d-3-77.q.Example.'' ''NS'' ''ns1.tilhempel.info.'']" by code_simp
  moreover have "first_remote (ex_steps @ [(7, ex_last, length ex_labels)]) @ '','' @
      join_with ''|'' (pieces ex_pkg ex_labels 0 (ex_steps @ [(7, ex_last, length ex_labels)])) @ '',NULL,NULL'' =
      ''192.0.2.7,2_TXT|1_A|0a0b0c0d-3-77_A,NULL,NULL''" by code_simp
  ultimately show ?thesis by (auto simp only: append.simps)
qed

subsection \<open>A resolution that follows a CNAME\<close>

text \<open>The names of the scanner: numbers down to 1, then the id token of three parts.\<close>

fun numbers :: "nat \<Rightarrow> string list" where
  "numbers 0 = []"
| "numbers (Suc n) = itoa (int (Suc n)) # numbers n"

definition id_token :: "string \<Rightarrow> string \<Rightarrow> string \<Rightarrow> string" where
  "id_token a b c = a @ ''-'' @ b @ ''-'' @ c"

definition token_part :: "string \<Rightarrow> bool" where
  "token_part x \<longleftrightarrow> x \<noteq> [] \<and> CHR ''-'' \<notin> set x \<and> CHR ''.'' \<notin> set x \<and> CHR ''_'' \<notin> set x"

lemma length_numbers [simp]: "length (numbers n) = n"
  by (induction n) simp_all

lemma countdown_join: "countdown n @ x = join_with ''.'' (numbers n @ [x])"
  by (induction n) (simp_all add: join_with_Cons)

lemma itoa_chars: "0 \<le> i \<Longrightarrow> c \<in> set (itoa i) \<Longrightarrow> is_digit c"
  by (simp add: itoa_def nat_digits_chars)

lemma itoa_label: "0 \<le> i \<Longrightarrow> itoa i \<noteq> [] \<and> CHR ''.'' \<notin> set (itoa i) \<and> CHR ''_'' \<notin> set (itoa i) \<and> CHR ''-'' \<notin> set (itoa i)"
proof -
  assume i: "0 \<le> i"
  have "\<not> is_digit CHR ''.''" "\<not> is_digit CHR ''_''" "\<not> is_digit CHR ''-''" by (simp_all add: is_digit_def)
  then show ?thesis using itoa_chars [OF i] by (metis itoa_def nat_digits_neq_Nil i not_less)
qed

lemma numbers_good: "x \<in> set (numbers n) \<Longrightarrow> x \<noteq> [] \<and> CHR ''.'' \<notin> set x \<and> CHR ''_'' \<notin> set x"
  by (induction n) (use itoa_label in \<open>auto simp del: of_nat_Suc\<close>)

lemma good_labels_numbers:
  "t \<noteq> [] \<Longrightarrow> CHR ''.'' \<notin> set t \<Longrightarrow> CHR ''_'' \<notin> set t \<Longrightarrow> good_labels (numbers n @ [t])"
  using numbers_good by (auto simp: good_labels_def)

lemma split_id_token:
  assumes "token_part a" "token_part b" "token_part c"
  shows "split_on CHR ''-'' (id_token a b c) = [a, b, c]"
    "CHR ''-'' \<notin> set s \<Longrightarrow> split_on CHR ''-'' (id_token a b c @ ''-'' @ s) = [a, b, c, s]"
  using assms by (simp_all add: id_token_def token_part_def split_on_append_sep split_on_no_sep)

definition induced_entry :: "probeData \<Rightarrow> int \<Rightarrow> string \<Rightarrow> string list \<Rightarrow> nat \<Rightarrow> string list \<Rightarrow> string \<Rightarrow> bool" where
  "induced_entry p d r seq i seq2 r2 \<longleftrightarrow> pd_tokenLength p = d \<and> pd_incomingResolver p = r \<and> pd_induction p \<and>
     pd_currTokenNum p = d \<and> pd_tokenSequence p = seq \<and>
     pd_inductionProbe p = \<lparr>ip_tokenSequence = seq2, ip_currTokenNum = int i, ip_resolver = r2\<rparr>"

lemma induced_step:
  assumes L: "good_labels L" and len: "10 \<le> length (last L)" "3 \<le> length (split_on CHR ''-'' (last L))"
    and m: "m (last L) = None" "m (last L @ ''-induction'') = Some p"
    and e: "induced_entry p d r seq i seq2 r2" and cov: "covers L i seq2"
    and q: "query_for (qs_baseURL srv) L n q" and rec: "qs_records srv (to_lower (qn_name q)) = None" and i: "i < n"
  shows "\<exists>p'. requestResponse pkg srv now q m =
      Ret (m(last L @ ''-induction'' \<mapsto> p'), reply_of pkg srv q (split_on CHR ''-'' (last L)) p') \<and>
    induced_entry p' d r seq n (piece pkg L i n (qn_type q) # seq2) (remote_ip (qn_remote q)) \<and>
    covers L n (piece pkg L i n (qn_type q) # seq2)"
proof -
  have n: "1 \<le> n" "n \<le> length L" using q by (simp_all add: query_for_def)
  note f = low_facts [OF L n]
  have "ip_tokenSequence (pd_inductionProbe p) = seq2" using e by (simp add: induced_entry_def)
  then have u: "updateProbeEntry pkg (pd_tokenLength p) (ip_tokenSequence (pd_inductionProbe p)) (join_with ''.'' (low L n))
      (low L n) (qn_type q) = Ret (piece pkg L i n (qn_type q) # seq2, int n, True)"
    using updateProbeEntry_extends [OF L i n(2) cov] f(2) by simp
  have "\<exists>p'. record_probe pkg now q (join_with ''.'' (low L n)) (low L n) (last L) (split_on CHR ''-'' (last L)) m =
      Ret (last L @ ''-induction'', p') \<and>
    induced_entry p' d r seq n (piece pkg L i n (qn_type q) # seq2) (remote_ip (qn_remote q))"
    using e unfolding record_probe_def m option.case u by (simp add: induced_entry_def)
  then obtain p' where p': "record_probe pkg now q (join_with ''.'' (low L n)) (low L n) (last L) (split_on CHR ''-'' (last L)) m =
      Ret (last L @ ''-induction'', p')"
    "induced_entry p' d r seq n (piece pkg L i n (qn_type q) # seq2) (remote_ip (qn_remote q))" by blast
  show ?thesis using covers_piece [OF L i n(2) cov] p'(2)
    unfolding requestResponse_below [OF L q rec len] p'(1) bindO.simps prod.case by blast
qed

lemma induced_run:
  assumes L: "good_labels L" and len: "10 \<le> length (last L)" "length (split_on CHR ''-'' (last L)) = 3"
    and "m (last L) = None" and "m (last L @ ''-induction'') = Some p"
    and "induced_entry p (int (length L)) r seq i seq2 r2" and "covers L i seq2" and "ascending srv L i sts"
    and "\<forall>st \<in> set sts. snd (snd st) < length L \<and> qn_type (fst (snd st)) \<noteq> DNSTypeTXT"
  shows "\<exists>m' p' r3. serve pkg srv sts m = Ret (m', map (\<lambda>_. empty_reply) sts) \<and>
    m' (last L) = None \<and> m' (last L @ ''-induction'') = Some p' \<and>
    induced_entry p' (int (length L)) r seq (reaches i sts) (pieces pkg L i sts @ seq2) r3 \<and>
    covers L (reaches i sts) (pieces pkg L i sts @ seq2)"
  using assms(4-9)
proof (induction sts arbitrary: i seq2 m p r2)
  case Nil
  then show ?case by auto
next
  case (Cons st sts)
  obtain now q n where st: "st = (now, q, n)" by (cases st)
  let ?meta = "split_on CHR ''-'' (last L)"
  have i: "i < n" and q: "query_for (qs_baseURL srv) L n q" and rec: "qs_records srv (to_lower (qn_name q)) = None"
    and asc: "ascending srv L n sts" using Cons.prems(5) by (simp_all add: st)
  have len3: "3 \<le> length ?meta" using len(2) by simp
  from induced_step [OF L len(1) len3 Cons.prems(1-4) q rec i] obtain p'
    where rr: "requestResponse pkg srv now q m = Ret (m(last L @ ''-induction'' \<mapsto> p'), reply_of pkg srv q ?meta p')"
      and e: "induced_entry p' (int (length L)) r seq n (piece pkg L i n (qn_type q) # seq2) (remote_ip (qn_remote q))"
      and c: "covers L n (piece pkg L i n (qn_type q) # seq2)" by blast
  have reply: "reply_of pkg srv q ?meta p' = empty_reply"
    using e len(2) Cons.prems(6) by (simp add: reply_of_def probe_reply_def induced_entry_def nth_is_def Let_def st)
  have m': "(m(last L @ ''-induction'' \<mapsto> p')) (last L) = None"
    "(m(last L @ ''-induction'' \<mapsto> p')) (last L @ ''-induction'') = Some p'" using Cons.prems(1) by simp_all
  have "\<exists>m' p'' r3. serve pkg srv sts (m(last L @ ''-induction'' \<mapsto> p')) = Ret (m', map (\<lambda>_. empty_reply) sts) \<and>
    m' (last L) = None \<and> m' (last L @ ''-induction'') = Some p'' \<and>
    induced_entry p'' (int (length L)) r seq (reaches n sts) (pieces pkg L n sts @ piece pkg L i n (qn_type q) # seq2) r3 \<and>
    covers L (reaches n sts) (pieces pkg L n sts @ piece pkg L i n (qn_type q) # seq2)"
    by (rule Cons.IH [OF m' e c asc]) (use Cons.prems(6) in \<open>simp add: st\<close>)
  then show ?case by (simp add: st rr reply case_prod_beta')
qed

lemma id_token_labels:
  assumes "token_part a" "token_part b" "token_part c" and "10 \<le> length (id_token a b c)"
    and "parse_int_val b = int (Suc e)"
  shows "good_labels (numbers e @ [id_token a b c])" "good_labels (numbers e @ [id_token a b c @ ''-induction''])"
    "token_of (numbers e @ [id_token a b c]) (int (Suc e)) False"
    "token_of (numbers e @ [id_token a b c @ ''-induction'']) (int (Suc e)) True"
proof -
  have c: "CHR ''.'' \<notin> set (id_token a b c)" "CHR ''_'' \<notin> set (id_token a b c)" "id_token a b c \<noteq> []"
    using assms(1-3) by (auto simp: id_token_def token_part_def)
  show "good_labels (numbers e @ [id_token a b c])" by (rule good_labels_numbers [OF c(3,1,2)])
  show "good_labels (numbers e @ [id_token a b c @ ''-induction''])"
    by (rule good_labels_numbers) (use c in auto)
  have s: "split_on CHR ''-'' (id_token a b c @ ''-induction'') = [a, b, c, ''induction'']"
    using split_id_token(2) [OF assms(1-3), of "''induction''"] by simp
  show "token_of (numbers e @ [id_token a b c]) (int (Suc e)) False"
    using assms(4,5) by (simp add: token_of_def split_id_token(1) [OF assms(1-3)] nth_is_def)
  show "token_of (numbers e @ [id_token a b c @ ''-induction'']) (int (Suc e)) True"
    using assms(4,5) by (simp add: token_of_def s nth_is_def)
qed

lemma induced_first:
  assumes part: "token_part a" "token_part b" "token_part c" "10 \<le> length (id_token a b c)" "parse_int_val b = int (Suc e)"
    and LA: "LA = numbers e @ [id_token a b c @ ''-induction'']"
    and m: "m (id_token a b c) = None" "m (id_token a b c @ ''-induction'') = None"
      "m (id_token a b c @ ''-induction-induction'') = None"
    and asc: "ascending srv LA 0 (sa @ [(na, qa, Suc e)])"
  shows "\<exists>m1 p. serve pkg srv (sa @ [(na, qa, Suc e)]) m = Ret (m1, map (\<lambda>st. referral pkg (fst (snd st))) sa @
      [empty_reply\<lparr>rp_authoritative := False, rp_answer :=
         [CNAME (qn_name qa) (join_with ''.'' (numbers e @ [id_token a b c]) @ ''.'' @ qs_baseURL srv)]\<rparr>]) \<and>
    m1 (id_token a b c) = None \<and> m1 (id_token a b c @ ''-induction'') = Some p \<and>
    induced_entry p (int (Suc e)) (first_remote (sa @ [(na, qa, Suc e)])) (pieces pkg LA 0 (sa @ [(na, qa, Suc e)])) 0 [] []"
proof -
  let ?tok = "id_token a b c"
  note gl = id_token_labels [OF part]
  have meta: "split_on CHR ''-'' (?tok @ ''-induction'') = [a, b, c, ''induction'']"
    using split_id_token(2) [OF part(1-3), of "''induction''"] by simp
  have len: "length LA = Suc e" "last LA = ?tok @ ''-induction''" by (simp_all add: LA)
  have gA: "good_labels LA" "token_of LA (int (length LA)) True" "\<not> nth_is (split_on CHR ''-'' (last LA)) 3 ''nxopti''"
    using gl(2,4) len meta by (simp_all add: LA nth_is_def)
  have mA: "m (last LA) = None" "m (last LA @ ''-induction'') = None" using m by (simp_all add: len)
  from session_finish [where pkg = pkg, OF gA mA asc [folded len(1)]] obtain m' p
    where run: "serve pkg srv (sa @ [(na, qa, Suc e)]) m = Ret (m'(?tok @ ''-induction'' \<mapsto> p), map (interim pkg LA) sa @
        [reply_of pkg srv qa [a, b, c, ''induction''] p])"
      and e: "session_entry p (int (Suc e)) (first_remote (sa @ [(na, qa, Suc e)])) True (Suc e)
        (pieces pkg LA 0 (sa @ [(na, qa, Suc e)]))"
      and other: "\<forall>k. k \<noteq> ?tok @ ''-induction'' \<longrightarrow> m' k = m k"
    unfolding len meta by blast
  have int: "interim pkg LA = (\<lambda>st. referral pkg (fst (snd st)))"
    by (rule ext) (simp add: interim_def len meta nth_is_def)
  have "reply_of pkg srv qa [a, b, c, ''induction''] p = empty_reply\<lparr>rp_authoritative := False,
      rp_answer := [CNAME (qn_name qa) ((countdown e @ ?tok) @ ''.'' @ qs_baseURL srv)]\<rparr>"
    using e by (simp add: reply_of_def probe_reply_def session_entry_def Let_def nth_is_def id_token_def slice_to_def)
  moreover have "induced_entry p (int (Suc e)) (first_remote (sa @ [(na, qa, Suc e)])) (pieces pkg LA 0 (sa @ [(na, qa, Suc e)])) 0 [] []"
    using e by (simp add: induced_entry_def session_entry_def)
  ultimately show ?thesis using run other m(1)
    unfolding int countdown_join by (intro exI [of _ "m'(?tok @ ''-induction'' \<mapsto> p)"] exI [of _ p]) simp
qed

lemma induced_second:
  assumes part: "token_part a" "token_part b" "token_part c" "10 \<le> length (id_token a b c)" "parse_int_val b = int (Suc e)"
    and LB: "LB = numbers e @ [id_token a b c]"
    and m: "m (id_token a b c) = None" "m (id_token a b c @ ''-induction'') = Some p"
    and ent: "induced_entry p (int (Suc e)) r seq 0 [] []"
    and asc: "ascending srv LB 0 (sb @ [(nb, qb, Suc e)])" and qtxt: "qn_type qb = DNSTypeTXT"
    and types: "\<forall>st \<in> set sb. qn_type (fst (snd st)) \<noteq> DNSTypeTXT"
  shows "\<exists>m2. serve pkg srv (sb @ [(nb, qb, Suc e)]) m = Ret (m2, map (\<lambda>_. empty_reply) sb @
      [txt_reply pkg (qn_name qb) (r @ '','' @ join_with ''|'' seq @ '','' @ remote_ip (qn_remote qb) @ '','' @
         join_with ''|'' (pieces pkg LB 0 (sb @ [(nb, qb, Suc e)])))])"
proof -
  note meta = split_id_token(1) [OF part(1-3)] and b = ascending_snoc [OF asc]
  have len: "length LB = Suc e" "last LB = id_token a b c" by (simp_all add: LB)
  have B: "good_labels LB" "10 \<le> length (last LB)" "length (split_on CHR ''-'' (last LB)) = 3"
    "3 \<le> length (split_on CHR ''-'' (last LB))"
    using id_token_labels(1) [OF part] part(4) by (simp_all add: LB meta)
  have cov0: "covers LB 0 []" by (simp add: covers_def low_def)
  have typesB: "\<forall>st \<in> set sb. snd (snd st) < length LB \<and> qn_type (fst (snd st)) \<noteq> DNSTypeTXT"
    using b(5) types len by simp
  from induced_run [where pkg = pkg, OF B(1-3) m [folded len(2)] ent [folded len(1)] cov0 b(1) typesB] obtain m2 p2 r3
    where run: "serve pkg srv sb m = Ret (m2, map (\<lambda>_. empty_reply) sb)"
      and m2: "m2 (last LB) = None" "m2 (last LB @ ''-induction'') = Some p2"
      and e2: "induced_entry p2 (int (length LB)) r seq (reaches 0 sb) (pieces pkg LB 0 sb @ []) r3"
      and c2: "covers LB (reaches 0 sb) (pieces pkg LB 0 sb @ [])" by blast
  from induced_step [where pkg = pkg, OF B(1,2,4) m2 e2 c2 b(3,4,2)] obtain p3
    where last: "requestResponse pkg srv nb qb m2 = Ret (m2(last LB @ ''-induction'' \<mapsto> p3),
        reply_of pkg srv qb [a, b, c] p3)"
      and e3: "induced_entry p3 (int (length LB)) r seq (Suc e) (pieces pkg LB 0 (sb @ [(nb, qb, Suc e)])) (remote_ip (qn_remote qb))"
    by (auto simp: pieces_append len meta)
  have "reply_of pkg srv qb [a, b, c] p3 = txt_reply pkg (qn_name qb) (r @ '','' @ join_with ''|'' seq @ '','' @
      remote_ip (qn_remote qb) @ '','' @ join_with ''|'' (pieces pkg LB 0 (sb @ [(nb, qb, Suc e)])))"
    using e3 qtxt by (simp add: reply_of_def probe_reply_def induced_entry_def Let_def len)
  with run last show ?thesis by (simp add: serve_append)
qed

text \<open>
  C18. A test for induced queries takes two resolutions: the probe name with the mark \<open>induction\<close> is
  answered by a CNAME to the name without it, and when the resolver then asks for longer and longer
  suffixes of that name, which
  before its last query are not of type TXT, its final TXT query is answered with both sequences: the address and the
  queries of the first resolution, and the address of the last query and the queries of the second.
\<close>
theorem qmin_induced_recorded:
  assumes "token_part a" and "token_part b" and "token_part c" and "10 \<le> length (id_token a b c)"
    and "parse_int_val b = int (Suc e)"
    and "LA = numbers e @ [id_token a b c @ ''-induction'']" and "LB = numbers e @ [id_token a b c]"
    and "m (id_token a b c) = None" and "m (id_token a b c @ ''-induction'') = None"
    and "m (id_token a b c @ ''-induction-induction'') = None"
    and "ascending srv LA 0 (sa @ [(na, qa, Suc e)])" and "ascending srv LB 0 (sb @ [(nb, qb, Suc e)])"
    and "qn_type qb = DNSTypeTXT" and "\<forall>st \<in> set sb. qn_type (fst (snd st)) \<noteq> DNSTypeTXT"
  shows "\<exists>m1 m2. serve pkg srv (sa @ [(na, qa, Suc e)]) m = Ret (m1, map (\<lambda>st. referral pkg (fst (snd st))) sa @
      [empty_reply\<lparr>rp_authoritative := False,
         rp_answer := [CNAME (qn_name qa) (join_with ''.'' LB @ ''.'' @ qs_baseURL srv)]\<rparr>]) \<and>
    serve pkg srv (sb @ [(nb, qb, Suc e)]) m1 = Ret (m2, map (\<lambda>_. empty_reply) sb @
      [txt_reply pkg (qn_name qb) (first_remote (sa @ [(na, qa, Suc e)]) @ '','' @
         join_with ''|'' (pieces pkg LA 0 (sa @ [(na, qa, Suc e)])) @ '','' @ remote_ip (qn_remote qb) @ '','' @
         join_with ''|'' (pieces pkg LB 0 (sb @ [(nb, qb, Suc e)])))])"
proof -
  from induced_first [OF assms(1-6,8-11)] obtain m1 p
    where "serve pkg srv (sa @ [(na, qa, Suc e)]) m = Ret (m1, map (\<lambda>st. referral pkg (fst (snd st))) sa @
      [empty_reply\<lparr>rp_authoritative := False,
         rp_answer := [CNAME (qn_name qa) (join_with ''.'' LB @ ''.'' @ qs_baseURL srv)]\<rparr>])"
      and m1: "m1 (id_token a b c) = None" "m1 (id_token a b c @ ''-induction'') = Some p"
      and e: "induced_entry p (int (Suc e)) (first_remote (sa @ [(na, qa, Suc e)])) (pieces pkg LA 0 (sa @ [(na, qa, Suc e)])) 0 [] []"
    unfolding assms(7) by blast
  with induced_second [OF assms(1-5,7) m1 e assms(12-14)] show ?thesis by blast
qed

definition ex_qa :: question where
  "ex_qa = \<lparr>qn_name = ''1.0a0b0c0d-2-77-induction.q.example.'', qn_type = DNSTypeTXT, qn_remote = ''192.0.2.7:4711''\<rparr>"

definition ex_qb :: question where
  "ex_qb = \<lparr>qn_name = ''1.0a0b0c0d-2-77.q.example.'', qn_type = DNSTypeTXT, qn_remote = ''192.0.2.9:4711''\<rparr>"

definition ex_qb1 :: question where
  "ex_qb1 = \<lparr>qn_name = ''0a0b0c0d-2-77.q.example.'', qn_type = DNSTypeA, qn_remote = ''192.0.2.7:4711''\<rparr>"

lemma qmin_induced_recorded_witness:
  "\<exists>m1 m2. serve ex_pkg ex_srv [(1, ex_qa, 2)] Map.empty = Ret (m1, [empty_reply\<lparr>rp_authoritative := False,
     rp_answer := [CNAME (qn_name ex_qa) ''1.0a0b0c0d-2-77.q.example.'']\<rparr>]) \<and>
   serve ex_pkg ex_srv [(2, ex_qb1, 1), (3, ex_qb, 2)] m1 = Ret (m2, [empty_reply,
     txt_reply ex_pkg (qn_name ex_qb) ''192.0.2.7,1.0a0b0c0d-2-77-induction_TXT,192.0.2.9,1_TXT|0a0b0c0d-2-77_A''])"
proof -
  let ?a = "''0a0b0c0d''" and ?b = "''2''" and ?c = "''77''"
  let ?LA = "numbers 1 @ [id_token ?a ?b ?c @ ''-induction'']" and ?LB = "numbers 1 @ [id_token ?a ?b ?c]"
  have h: "token_part ?a" "token_part ?b" "token_part ?c" "10 \<le> length (id_token ?a ?b ?c)"
    "parse_int_val ?b = int (Suc 1)"
    "ascending ex_srv ?LA 0 ([] @ [(1, ex_qa, Suc 1)])" "ascending ex_srv ?LB 0 ([(2, ex_qb1, 1)] @ [(3, ex_qb, Suc 1)])"
    "qn_type ex_qb = DNSTypeTXT" "\<forall>st \<in> set [(2 :: int, ex_qb1, 1 :: nat)]. qn_type (fst (snd st)) \<noteq> DNSTypeTXT"
    by code_simp+
  have v: "join_with ''.'' ?LB @ ''.'' @ qs_baseURL ex_srv = ''1.0a0b0c0d-2-77.q.example.''"
    "first_remote ([] @ [(1, ex_qa, Suc 1)]) @ '','' @ join_with ''|'' (pieces ex_pkg ?LA 0 ([] @ [(1, ex_qa, Suc 1)])) @ '','' @
       remote_ip (qn_remote ex_qb) @ '','' @ join_with ''|'' (pieces ex_pkg ?LB 0 ([(2, ex_qb1, 1)] @ [(3, ex_qb, Suc 1)])) =
     ''192.0.2.7,1.0a0b0c0d-2-77-induction_TXT,192.0.2.9,1_TXT|0a0b0c0d-2-77_A''"
    by code_simp+
  have two: "Suc 1 = 2" by simp
  show ?thesis
    using qmin_induced_recorded [where pkg = ex_pkg and m = Map.empty, OF h(1-5) refl refl _ _ _ h(6-9)]
    unfolding v unfolding two by simp
qed

end
