(* ===== verification/QminScanner.thy ===== *)
theory QminScanner
  imports QminServer "HOL-Library.Multiset"
begin

section \<open>The scanner of the QMIN measurement (qmin/scanner)\<close>

text \<open>
  The scanner asks every resolver for names below the base domain whose id token carries the address
  of the resolver and the depth of the name, classifies each answer, and stores one row per query.
  The network is a parameter: what an exchange returns is an argument of the definitions that make
  one. The random numbers are arguments as well.
\<close>

subsection \<open>Data\<close>

record qmin_cfg =
  qc_BaseURL :: string
  qc_Port :: int
  qc_Protocol :: string
  qc_RandMax :: int
  qc_LabelDepth :: int
  qc_BatchSize :: int
  qc_Rounds :: int
  qc_Timeout :: int
  qc_RetryTimeout :: int
  qc_OutputDir :: string

record QueryResult =
  qr_resolverIP :: string
  qr_status :: int
  qr_Res :: string
  qr_requestingIP :: string
  qr_induction :: bool
  qr_inductionPattern :: string
  qr_inductionRequester :: string
  qr_qmin_mode :: bool
  qr_nxopti :: int
  qr_nxcheck :: bool
  qr_ResolverType :: string
  qr_FileName :: string

record ParquetQueryResult =
  pq_ResolverIP :: string
  pq_ResolverType :: string
  pq_RequestingIP :: string
  pq_Response :: string
  pq_InductionIP :: string
  pq_InducedRes :: string
  pq_InducedQMINCheck :: bool
  pq_ModeCheck :: bool
  pq_NXCheck :: bool
  pq_NxOptimization :: int
  pq_FileName :: string

record InputFileFormat =
  Queried_ip :: string
  Resolver_type :: string

text \<open>What the code reads of a DNS answer; \<open>Other\<close> is a record that is not a TXT record.\<close>

datatype answer_rr = TXT_rr "string list" | Other

record dns_response =
  dr_Rcode :: nat
  dr_RecursionAvailable :: bool
  dr_Answer :: "answer_rr list"

subsection \<open>The id token and the name\<close>

text \<open>\<open>netip.ParseAddr\<close>: as \<open>parse_addr\<close>, and an IPv6 address may have a non-empty zone.\<close>

definition netip_ParseAddr :: "string \<Rightarrow> ip option" where
  "netip_ParseAddr s =
     (case find (\<lambda>c. c \<in> {CHR ''.'', CHR '':'', CHR ''%''}) s of
        Some c \<Rightarrow> if c = CHR ''.'' then parse_ipv4_fields s
                  else if c = CHR '':'' \<and> dropWhile (\<lambda>c. c \<noteq> CHR ''%'') s \<noteq> ''%''
                  then parse_ipv6 (takeWhile (\<lambda>c. c \<noteq> CHR ''%'') s) else None
      | None \<Rightarrow> None)"

text \<open>\<open>crc32.ChecksumIEEE\<close> of the standard library, bit by bit.\<close>

definition crc_bit :: "u32 \<Rightarrow> u32" where
  "crc_bit c = (if bit c 0 then drop_bit 1 c XOR 0xEDB88320 else drop_bit 1 c)"

definition crc_byte :: "u32 \<Rightarrow> char \<Rightarrow> u32" where
  "crc_byte c ch = (crc_bit ^^ 8) (c XOR of_nat (of_char ch))"

definition ChecksumIEEE :: "string \<Rightarrow> u32" where
  "ChecksumIEEE s = NOT (foldl crc_byte (NOT 0) s)"

definition upper_hex :: "nat \<Rightarrow> string" where
  "upper_hex n = map (\<lambda>c. if 97 \<le> (of_char c :: nat) then char_of ((of_char c :: nat) - 32) else c) (hex_digits n)"

definition hex2 :: "u8 \<Rightarrow> string" where
  "hex2 b = [hex_char (unat b div 16), hex_char (unat b mod 16)]"

definition targetToHex :: "qmin_cfg \<Rightarrow> string \<Rightarrow> string outcome" where
  "targetToHex cfg target =
     (case netip_ParseAddr target of
        None \<Rightarrow> if qc_Protocol cfg \<noteq> ''doh''
                then Panic (LogFatal ''Looks like you tried to used an IP but the scanner is configured for DoH scanning.'')
                else Ret (upper_hex (unat (ChecksumIEEE target)))
      | Some a \<Rightarrow> if length a = 4 then Ret (concat (map hex2 a))
                  else Ret (upper_hex (unat (ChecksumIEEE target))))"

definition rand_Intn :: "int \<Rightarrow> int \<Rightarrow> int outcome" where
  "rand_Intn rnd n = (if n \<le> 0 then Panic NegativeArgument else Ret (rnd mod n))"

definition domainAssembly ::
  "qmin_cfg \<Rightarrow> int \<Rightarrow> string \<Rightarrow> int \<Rightarrow> bool \<Rightarrow> bool \<Rightarrow> bool \<Rightarrow> string outcome" where
  "domainAssembly cfg rnd dnsServer tokenDepth induction qmin_mode nxopti =
     (if induction \<and> qmin_mode then Panic (LogFatal ''Only test for induced queries OR NX behaviour in one query!'')
      else bindO (targetToHex cfg dnsServer) (\<lambda>h.
           bindO (rand_Intn rnd (qc_RandMax cfg)) (\<lambda>r.
             let idToken = h @ ''-'' @ itoa tokenDepth @ ''-'' @ itoa r;
                 domain = countdown (nat (tokenDepth - 1)) @ idToken @
                   (if induction then ''-induction'' else []) @ (if qmin_mode then ''-qminMode'' else []) @
                   (if nxopti then ''-nxopti'' else [])
             in Ret (domain @ ''.'' @ qc_BaseURL cfg))))"

subsection \<open>One query\<close>

definition none_result :: "string \<Rightarrow> int \<Rightarrow> string \<Rightarrow> QueryResult" where
  "none_result server st res = \<lparr>qr_resolverIP = server, qr_status = st, qr_Res = res, qr_requestingIP = ''NONE'',
     qr_induction = False, qr_inductionPattern = [], qr_inductionRequester = [], qr_qmin_mode = False,
     qr_nxopti = 0, qr_nxcheck = False, qr_ResolverType = [], qr_FileName = []\<rparr>"

definition evalCommError :: "string \<Rightarrow> string \<Rightarrow> QueryResult" where
  "evalCommError err server =
     (if contains_str err ''i/o timeout'' then none_result server 3 ''timeout''
      else if contains_str err ''connection refused'' then none_result server 1 ''refused''
      else if contains_str err ''no route to host'' then none_result server 5 ''noRoute''
      else none_result server (-1) ''unhandledError'')"

definition evalTXT :: "string \<Rightarrow> string \<Rightarrow> QueryResult" where
  "evalTXT server t =
     (let split = split_on CHR '','' t in
      if CHR '','' \<notin> set t then none_result server (-1) ''unhandledError''
      else if t = ''false,,,'' then none_result server 0 (split ! 0)
      else if 3 < length split then
        (none_result server 0 (split ! 1))\<lparr>qr_requestingIP := split ! 0, qr_inductionRequester := split ! 2,
           qr_inductionPattern := split ! 3\<rparr>
      else none_result server (-1) ''unhandledError'')"

fun evalAnswers :: "string \<Rightarrow> answer_rr list \<Rightarrow> QueryResult outcome" where
  "evalAnswers server [] = Ret (none_result server 9 ''noTXTResponse'')"
| "evalAnswers server (TXT_rr ts # r) = bindO (index ts 0) (\<lambda>t. Ret (evalTXT server t))"
| "evalAnswers server (Other # r) = evalAnswers server r"

definition evalResponse :: "string \<Rightarrow> dns_response \<Rightarrow> QueryResult outcome" where
  "evalResponse server res =
     (if dr_Rcode res = 2 then Ret (none_result server 2 ''servfail'')
      else if dr_Rcode res = 3 then Ret (none_result server 4 ''nxdomain'')
      else if dr_Rcode res = 5 then Ret (none_result server 1 ''refused'')
      else if dr_Rcode res \<noteq> 0 then Ret (none_result server (-1) ''unhandledError'')
      else if dr_Answer res = [] then
        (if \<not> dr_RecursionAvailable res then Ret (none_result server 6 ''noRecursion'')
         else Ret (none_result server 7 ''noAnswer''))
      else evalAnswers server (dr_Answer res))"

text \<open>
  The network of one query: the exchange of the DNS client, and the request and the response of the
  HTTP client with its status code; an error is its text.
\<close>

record net_env =
  ne_Exchange :: "string \<Rightarrow> string \<Rightarrow> string \<Rightarrow> u16 \<Rightarrow> int \<Rightarrow> string + dns_response"
  ne_NewRequest :: "string \<Rightarrow> string \<Rightarrow> string \<Rightarrow> u16 \<Rightarrow> string option"
  ne_Do :: "string \<Rightarrow> string \<Rightarrow> string \<Rightarrow> u16 \<Rightarrow> int \<Rightarrow> string + (int \<times> (string + dns_response))"

definition doDoHQuery :: "net_env \<Rightarrow> string \<Rightarrow> string \<Rightarrow> string \<Rightarrow> u16 \<Rightarrow> int \<Rightarrow> int \<times> (string + dns_response)" where
  "doDoHQuery net meth target domain qType timeout =
     (case ne_NewRequest net meth target domain qType of
        Some e \<Rightarrow> (0, Inl (''build request: '' @ e))
      | None \<Rightarrow> (case ne_Do net meth target domain qType timeout of
          Inl e \<Rightarrow> (0, Inl e)
        | Inr (status, body) \<Rightarrow>
            if status \<noteq> 200 then (status, Inl (''http status '' @ itoa status))
            else (case body of Inl e \<Rightarrow> (status, Inl (''parse response: '' @ e)) | Inr r \<Rightarrow> (status, Inr r))))"

definition has_prefix :: "string \<Rightarrow> string \<Rightarrow> bool" where
  "has_prefix s p \<longleftrightarrow> take (length p) s = p"

definition JoinHostPort :: "string \<Rightarrow> string \<Rightarrow> string" where
  "JoinHostPort host port =
     (if CHR '':'' \<in> set host then ''['' @ host @ '']:'' @ port else host @ '':'' @ port)"

definition dnsQuery :: "net_env \<Rightarrow> qmin_cfg \<Rightarrow> string \<Rightarrow> string \<Rightarrow> u16 \<Rightarrow> int \<Rightarrow> QueryResult outcome" where
  "dnsQuery net cfg domain server qType timeout =
     (if qc_Protocol cfg = ''udp'' \<or> qc_Protocol cfg = ''tcp'' then
        (case ne_Exchange net (qc_Protocol cfg) (JoinHostPort server (itoa (qc_Port cfg))) domain qType timeout of
           Inl e \<Rightarrow> Ret (evalCommError e server)
         | Inr r \<Rightarrow> evalResponse server r)
      else if qc_Protocol cfg = ''doh'' then
        (let server = (if \<not> has_prefix server ''https://'' \<and> \<not> has_prefix server ''http://''
                       then ''https://'' @ server else server);
             post = doDoHQuery net ''POST'' server domain qType timeout;
             (status, res) = (if fst post \<in> {400, 405, 415, 501}
                              then doDoHQuery net ''GET'' server domain qType timeout else post)
         in case res of
              Inl e \<Rightarrow> if status \<noteq> 0 then Ret (none_result server 9 e) else Ret (evalCommError e server)
            | Inr r \<Rightarrow> evalResponse server r)
      else Panic (LogFatal ''Wrong or unsupported protocol:''))"

subsection \<open>The routines\<close>

text \<open>Each query has its own network behaviour, and each name its own random number.\<close>

definition dnsQueryRoutine ::
  "qmin_cfg \<Rightarrow> net_env \<Rightarrow> net_env \<Rightarrow> int \<Rightarrow> int \<Rightarrow> int \<Rightarrow> InputFileFormat \<Rightarrow> int \<Rightarrow> int \<Rightarrow> u16 \<Rightarrow> bool \<Rightarrow> bool \<Rightarrow>
     QueryResult outcome" where
  "dnsQueryRoutine cfg net1 net2 rnd1 rnd2 tokenDepth resolver timeout retryTimeout qType induction qmin_mode =
     (let server = Queried_ip resolver in
      bindO (domainAssembly cfg rnd1 server tokenDepth induction qmin_mode False) (\<lambda>d1.
      bindO (dnsQuery net1 cfg d1 server qType timeout) (\<lambda>res.
      bindO (if qr_status res = 3
             then bindO (domainAssembly cfg rnd2 server tokenDepth induction qmin_mode False) (\<lambda>d2.
                    dnsQuery net2 cfg d2 server qType retryTimeout)
             else Ret res) (\<lambda>res.
        Ret (res\<lparr>qr_ResolverType := Resolver_type resolver, qr_qmin_mode := qmin_mode, qr_induction := induction,
                qr_nxcheck := False, qr_nxopti := -1\<rparr>)))))"

text \<open>One of the two names of the NXDOMAIN test, asked once more after a timeout.\<close>

definition nx_query ::
  "qmin_cfg \<Rightarrow> net_env \<Rightarrow> net_env \<Rightarrow> string \<Rightarrow> InputFileFormat \<Rightarrow> int \<Rightarrow> int \<Rightarrow> u16 \<Rightarrow> QueryResult outcome" where
  "nx_query cfg net1 net2 d resolver timeout retryTimeout qType =
     bindO (dnsQuery net1 cfg d (Queried_ip resolver) qType timeout) (\<lambda>res.
     bindO (if qr_status res = 3 then dnsQuery net2 cfg d (Queried_ip resolver) qType retryTimeout else Ret res) (\<lambda>res.
       Ret (res\<lparr>qr_qmin_mode := False, qr_induction := False, qr_nxcheck := True,
                qr_ResolverType := Resolver_type resolver\<rparr>)))"

definition nxOptiRoutine ::
  "qmin_cfg \<Rightarrow> (nat \<Rightarrow> net_env) \<Rightarrow> int \<Rightarrow> InputFileFormat \<Rightarrow> int \<Rightarrow> int \<Rightarrow> u16 \<Rightarrow> QueryResult outcome" where
  "nxOptiRoutine cfg net rnd resolver timeout retryTimeout qType =
     bindO (domainAssembly cfg rnd (Queried_ip resolver) 1 False False True) (\<lambda>domain.
     bindO (nx_query cfg (net 0) (net 1) (''a.'' @ domain) resolver timeout retryTimeout qType) (\<lambda>res.
       if qr_status res \<noteq> 4 then Ret (res\<lparr>qr_nxopti := -1\<rparr>)
       else bindO (nx_query cfg (net 2) (net 3) (''b.'' @ domain) resolver timeout retryTimeout qType) (\<lambda>res2.
         if qr_status res2 \<noteq> 4 \<and> qr_status res2 \<noteq> 0 then Ret (res\<lparr>qr_nxopti := -1\<rparr>)
         else if qr_status res2 = 4 then Ret (res2\<lparr>qr_nxopti := 1\<rparr>)
         else if qr_Res res2 = ''false'' then Ret (res2\<lparr>qr_nxopti := 0\<rparr>)
         else Ret res2)))"

definition result_row :: "string \<Rightarrow> QueryResult \<Rightarrow> ParquetQueryResult" where
  "result_row fileName v = \<lparr>pq_ResolverIP = qr_resolverIP v, pq_ResolverType = qr_ResolverType v,
     pq_RequestingIP = qr_requestingIP v, pq_Response = qr_Res v, pq_InductionIP = qr_inductionRequester v,
     pq_InducedRes = qr_inductionPattern v, pq_InducedQMINCheck = qr_induction v, pq_ModeCheck = qr_qmin_mode v,
     pq_NXCheck = qr_nxcheck v, pq_NxOptimization = qr_nxopti v, pq_FileName = fileName\<rparr>"

subsection \<open>A scan\<close>

fun sequenceO :: "'a outcome list \<Rightarrow> 'a list outcome" where
  "sequenceO [] = Ret []"
| "sequenceO (x # xs) = bindO x (\<lambda>y. bindO (sequenceO xs) (\<lambda>ys. Ret (y # ys)))"

text \<open>The four routines started for one resolver; \<open>net\<close> and \<open>rnd\<close> give each query and each name its own.\<close>

definition resolver_routines ::
  "qmin_cfg \<Rightarrow> (nat \<Rightarrow> net_env) \<Rightarrow> (nat \<Rightarrow> int) \<Rightarrow> int \<Rightarrow> int \<Rightarrow> int \<Rightarrow> InputFileFormat \<Rightarrow> QueryResult outcome list" where
  "resolver_routines cfg net rnd tokenDepth timeout retryTimeout res =
     (if Queried_ip res = [] \<or> Resolver_type res = [] then []
      else [dnsQueryRoutine cfg (net 0) (net 1) (rnd 0) (rnd 1) tokenDepth res timeout retryTimeout DNSTypeTXT False False,
            dnsQueryRoutine cfg (net 2) (net 3) (rnd 2) (rnd 3) tokenDepth res timeout retryTimeout DNSTypeTXT True False,
            dnsQueryRoutine cfg (net 4) (net 5) (rnd 4) (rnd 5) tokenDepth res timeout retryTimeout DNSTypeTXT False True,
            nxOptiRoutine cfg (\<lambda>k. net (6 + k)) (rnd 6) res timeout retryTimeout DNSTypeTXT])"

text \<open>One round; \<open>order\<close> is the order in which the results come out of the channel.\<close>

definition scan_round ::
  "qmin_cfg \<Rightarrow> (nat \<Rightarrow> nat \<Rightarrow> net_env) \<Rightarrow> (nat \<Rightarrow> nat \<Rightarrow> int) \<Rightarrow> (QueryResult list \<Rightarrow> QueryResult list) \<Rightarrow>
     InputFileFormat list \<Rightarrow> int \<Rightarrow> int \<Rightarrow> int \<Rightarrow> QueryResult list outcome" where
  "scan_round cfg net rnd order resolver tokenDepth timeout retryTimeout =
     bindO (sequenceO (concat (map (\<lambda>(i, res). resolver_routines cfg (net i) (rnd i) tokenDepth timeout retryTimeout res)
                                   (enumerate 0 resolver))))
       (\<lambda>rs. Ret (order rs))"

definition scanResolvers ::
  "qmin_cfg \<Rightarrow> (nat \<Rightarrow> nat \<Rightarrow> nat \<Rightarrow> net_env) \<Rightarrow> (nat \<Rightarrow> nat \<Rightarrow> nat \<Rightarrow> int) \<Rightarrow>
     (nat \<Rightarrow> QueryResult list \<Rightarrow> QueryResult list) \<Rightarrow> InputFileFormat list \<Rightarrow> ParquetQueryResult list \<Rightarrow>
     int \<Rightarrow> int \<Rightarrow> int \<Rightarrow> int \<Rightarrow> string \<Rightarrow> ParquetQueryResult list outcome" where
  "scanResolvers cfg net rnd order resolver tempFile tokenDepth rounds timeout retryTimeout fileName =
     bindO (sequenceO (map (\<lambda>i. scan_round cfg (net i) (rnd i) (order i) resolver tokenDepth timeout retryTimeout)
                           [0..<nat rounds]))
       (\<lambda>rss. Ret (tempFile @ map (result_row fileName) (concat rss)))"

subsection \<open>Reading the input in batches, writing the output in batches\<close>

text \<open>Items are collected until the batch is full, and what is left at the end is one more batch.\<close>

fun batches :: "(nat \<Rightarrow> bool) \<Rightarrow> 'a list \<Rightarrow> 'a list \<Rightarrow> 'a list list" where
  "batches full buf [] = (if buf = [] then [] else [buf])"
| "batches full buf (x # xs) =
     (if full (length buf + 1) then (buf @ [x]) # batches full [] xs else batches full (buf @ [x]) xs)"

text \<open>The loop of \<open>readInputTXTAndScan\<close>: the batches it hands to \<open>scanResolvers\<close>.\<close>

definition readInputTXT_batches :: "int \<Rightarrow> string list \<Rightarrow> InputFileFormat list list outcome" where
  "readInputTXT_batches batchSize lines =
     (if batchSize < 0 then Panic NegativeArgument
      else Ret (batches (\<lambda>n. int n = batchSize) []
                  (map (\<lambda>t. \<lparr>Queried_ip = t, Resolver_type = ''unset''\<rparr>) lines)))"

text \<open>The loop of \<open>WriteOutputParquet\<close>: the batches it hands to the writer.\<close>

definition WriteOutputParquet_batches :: "ParquetQueryResult list \<Rightarrow> ParquetQueryResult list list" where
  "WriteOutputParquet_batches rows = batches (\<lambda>n. 100 \<le> n) [] rows"

text \<open>
  The loop of \<open>readInputAndScan\<close> over what the Parquet reader returns: rows and how the call ended.
\<close>

datatype read_end = More | EOF | ReadError string

fun readInput_batches :: "(InputFileFormat list \<times> read_end) list \<Rightarrow> InputFileFormat list list \<times> string option" where
  "readInput_batches [] = ([], None)"
| "readInput_batches ((rows, e) # rs) =
     (let now = (if rows = [] then [] else [rows]) in
      case e of EOF \<Rightarrow> (now, None) | ReadError msg \<Rightarrow> (now, Some msg)
      | More \<Rightarrow> (let (later, err) = readInput_batches rs in (now @ later, err)))"

text \<open>\<open>scanFile\<close> chooses the reader by the extension: \<open>filepath.Ext\<close> is what follows the last dot, with it.\<close>

definition Ext :: "string \<Rightarrow> string" where
  "Ext path = (let base = last (split_on CHR ''/'' path) in
     if CHR ''.'' \<in> set base then CHR ''.'' # last (split_on CHR ''.'' base) else [])"

datatype input_kind = TextInput | ParquetInput | Unsupported

definition scanFile_kind :: "string \<Rightarrow> input_kind" where
  "scanFile_kind path =
     (if Ext path = ''.txt'' then TextInput
      else if Ext path = ''.pq'' \<or> Ext path = ''.parquet'' then ParquetInput
      else Unsupported)"

subsection \<open>Lemmas\<close>

lemma concat_batches: "concat (batches full buf xs) = buf @ xs"
  by (induction full buf xs rule: batches.induct) auto

lemma batches_full:
  "length buf < n \<Longrightarrow> (\<forall>b \<in> set (butlast (batches (\<lambda>k. k = n) buf xs)). length b = n) \<and>
     (\<forall>b \<in> set (batches (\<lambda>k. k = n) buf xs). b \<noteq> [] \<and> length b \<le> n)"
proof (induction xs arbitrary: buf)
  case Nil
  then show ?case by simp
next
  case (Cons x xs)
  show ?case
  proof (cases "length buf + 1 = n")
    case True
    with Cons.IH [of "[]"] show ?thesis by (cases "batches (\<lambda>k. k = n) [] xs") auto
  next
    case False
    with Cons.IH [of "buf @ [x]"] Cons.prems show ?thesis by simp
  qed
qed

text \<open>The batches of 100 of the output are cut at exactly 100, as the buffer grows by one row at a time.\<close>

lemma batches_cong:
  "length buf < n \<Longrightarrow> batches (\<lambda>k. n \<le> k) buf xs = batches (\<lambda>k. k = n) buf xs"
proof (induction xs arbitrary: buf)
  case Nil
  show ?case by simp
next
  case (Cons x xs)
  show ?case
  proof (cases "length buf + 1 = n")
    case True
    with Cons.IH [of "[]"] show ?thesis by simp
  next
    case False
    with Cons.IH [of "buf @ [x]"] Cons.prems show ?thesis by simp
  qed
qed

lemma sequenceO_Ret: "(\<forall>x \<in> set xs. \<exists>y. x = Ret y \<and> P x y) \<Longrightarrow> \<exists>ys. sequenceO xs = Ret ys \<and> list_all2 P xs ys"
  by (induction xs) auto

lemma sequenceO_append:
  "sequenceO (xs @ ys) = bindO (sequenceO xs) (\<lambda>a. bindO (sequenceO ys) (\<lambda>b. Ret (a @ b)))"
proof (induction xs)
  case Nil
  then show ?case by (cases "sequenceO ys") simp_all
next
  case (Cons x xs)
  then show ?case by (cases x; cases "sequenceO xs"; cases "sequenceO ys") simp_all
qed

subsection \<open>Every query ends in one classified result\<close>

text \<open>The answers the DNS packages hand out: a TXT record holds at least one string.\<close>

definition well_formed :: "dns_response \<Rightarrow> bool" where
  "well_formed r \<longleftrightarrow> (\<forall>a \<in> set (dr_Answer r). a \<noteq> TXT_rr [])"

definition sane_net :: "net_env \<Rightarrow> bool" where
  "sane_net net \<longleftrightarrow> (\<forall>p s d t w r. ne_Exchange net p s d t w = Inr r \<longrightarrow> well_formed r) \<and>
     (\<forall>meth s d t w st r. ne_Do net meth s d t w = Inr (st, Inr r) \<longrightarrow> well_formed r)"

lemma none_result_simps [simp]:
  "qr_resolverIP (none_result s st r) = s" "qr_status (none_result s st r) = st" "qr_Res (none_result s st r) = r"
  "qr_requestingIP (none_result s st r) = ''NONE''" "qr_nxopti (none_result s st r) = 0"
  by (simp_all add: none_result_def)

text \<open>A result: which server it names, the range of the status, and that an error names no requester.\<close>

definition classified :: "string \<Rightarrow> QueryResult \<Rightarrow> bool" where
  "classified server q \<longleftrightarrow> qr_resolverIP q = server \<and> - 1 \<le> qr_status q \<and> qr_status q \<le> 9 \<and>
     (qr_status q \<noteq> 0 \<longrightarrow> qr_requestingIP q = ''NONE'') \<and> qr_nxopti q = 0"

lemma classified_none: "- 1 \<le> st \<Longrightarrow> st \<le> 9 \<Longrightarrow> classified server (none_result server st r)"
  by (simp add: classified_def)

lemma classified_evalCommError: "classified server (evalCommError e server)"
  by (simp add: evalCommError_def classified_none)

lemma classified_evalTXT: "classified server (evalTXT server t)"
  by (simp add: evalTXT_def Let_def classified_def)

lemma evalAnswers_Ret:
  "\<forall>a \<in> set as. a \<noteq> TXT_rr [] \<Longrightarrow> \<exists>q. evalAnswers server as = Ret q \<and> classified server q"
proof (induction server as rule: evalAnswers.induct)
  case (1 server)
  then show ?case by (simp add: classified_none)
next
  case (2 server ts r)
  then obtain t ts' where "ts = t # ts'" by (cases ts) auto
  then show ?case by (simp add: classified_evalTXT)
next
  case (3 server r)
  then show ?case by simp
qed

lemma evalResponse_Ret: "well_formed r \<Longrightarrow> \<exists>q. evalResponse server r = Ret q \<and> classified server q"
  using evalAnswers_Ret [of "dr_Answer r" server]
  by (simp add: evalResponse_def well_formed_def classified_none)

lemma dnsQuery_Ret:
  assumes "sane_net net" and "qc_Protocol cfg = ''udp'' \<or> qc_Protocol cfg = ''tcp''"
  shows "\<exists>q. dnsQuery net cfg d server ty w = Ret q \<and> classified server q"
proof (cases "ne_Exchange net (qc_Protocol cfg) (JoinHostPort server (itoa (qc_Port cfg))) d ty w")
  case (Inl e)
  with assms(2) show ?thesis by (simp add: dnsQuery_def classified_evalCommError)
next
  case (Inr r)
  with assms(1) have "well_formed r" by (auto simp: sane_net_def)
  from evalResponse_Ret [OF this] assms(2) Inr show ?thesis by (simp add: dnsQuery_def)
qed

lemma domainAssembly_Ret:
  assumes "netip_ParseAddr server \<noteq> None" and "0 < qc_RandMax cfg" and "\<not> (ind \<and> mode)"
  shows "\<exists>d. domainAssembly cfg rnd server depth ind mode nx = Ret d"
  using assms by (auto simp: domainAssembly_def targetToHex_def rand_Intn_def Let_def)

text \<open>What a row says of its query.\<close>

definition row_of :: "ParquetQueryResult \<Rightarrow> string \<times> string \<times> bool \<times> bool \<times> bool" where
  "row_of r = (pq_ResolverIP r, pq_ResolverType r, pq_InducedQMINCheck r, pq_ModeCheck r, pq_NXCheck r)"

definition four_rows :: "InputFileFormat \<Rightarrow> (string \<times> string \<times> bool \<times> bool \<times> bool) list" where
  "four_rows res = [(Queried_ip res, Resolver_type res, False, False, False), (Queried_ip res, Resolver_type res, True, False, False),
     (Queried_ip res, Resolver_type res, False, True, False), (Queried_ip res, Resolver_type res, False, False, True)]"

definition key_of :: "QueryResult \<Rightarrow> string \<times> string \<times> bool \<times> bool \<times> bool" where
  "key_of q = (qr_resolverIP q, qr_ResolverType q, qr_induction q, qr_qmin_mode q, qr_nxcheck q)"

lemma row_of_result_row: "row_of (result_row f q) = key_of q"
  by (simp add: row_of_def result_row_def key_of_def)

definition good_result :: "string \<times> string \<times> bool \<times> bool \<times> bool \<Rightarrow> QueryResult \<Rightarrow> bool" where
  "good_result key q \<longleftrightarrow> key_of q = key \<and> - 1 \<le> qr_status q \<and> qr_status q \<le> 9 \<and>
     (if qr_nxcheck q then qr_nxopti q \<in> {-1, 0, 1} else qr_nxopti q = -1) \<and>
     (qr_status q \<noteq> 0 \<longrightarrow> qr_requestingIP q = ''NONE'')"

definition good_setup :: "qmin_cfg \<Rightarrow> InputFileFormat \<Rightarrow> bool" where
  "good_setup cfg res \<longleftrightarrow> (qc_Protocol cfg = ''udp'' \<or> qc_Protocol cfg = ''tcp'') \<and> 0 < qc_RandMax cfg \<and>
     netip_ParseAddr (Queried_ip res) \<noteq> None"

lemma dnsQueryRoutine_Ret:
  assumes "good_setup cfg res" and "sane_net n1" and "sane_net n2" and "\<not> (ind \<and> mode)"
  shows "\<exists>q. dnsQueryRoutine cfg n1 n2 r1 r2 depth res w1 w2 ty ind mode = Ret q \<and>
    good_result (Queried_ip res, Resolver_type res, ind, mode, False) q"
proof -
  note dom = domainAssembly_Ret [OF _ _ assms(4)] and qry = dnsQuery_Ret
  have g: "netip_ParseAddr (Queried_ip res) \<noteq> None" "0 < qc_RandMax cfg" "qc_Protocol cfg = ''udp'' \<or> qc_Protocol cfg = ''tcp''"
    using assms(1) by (simp_all add: good_setup_def)
  obtain d1 where d1: "domainAssembly cfg r1 (Queried_ip res) depth ind mode False = Ret d1" using dom [OF g(1,2)] by blast
  obtain d2 where d2: "domainAssembly cfg r2 (Queried_ip res) depth ind mode False = Ret d2" using dom [OF g(1,2)] by blast
  obtain q1 where q1: "dnsQuery n1 cfg d1 (Queried_ip res) ty w1 = Ret q1" "classified (Queried_ip res) q1"
    using qry [OF assms(2) g(3)] by blast
  obtain q2 where q2: "dnsQuery n2 cfg d2 (Queried_ip res) ty w2 = Ret q2" "classified (Queried_ip res) q2"
    using qry [OF assms(3) g(3)] by blast
  define q where "q = (if qr_status q1 = 3 then q2 else q1)"
  have "classified (Queried_ip res) q" using q1 q2 by (simp add: q_def)
  moreover have "dnsQueryRoutine cfg n1 n2 r1 r2 depth res w1 w2 ty ind mode = Ret (q\<lparr>qr_ResolverType := Resolver_type res,
      qr_qmin_mode := mode, qr_induction := ind, qr_nxcheck := False, qr_nxopti := -1\<rparr>)"
    by (simp add: dnsQueryRoutine_def d1 d2 q1 q2 q_def Let_def)
  ultimately show ?thesis by (auto simp: good_result_def classified_def key_of_def)
qed

lemma nx_query_Ret:
  assumes "good_setup cfg res" and "sane_net n1" and "sane_net n2"
  shows "\<exists>q. nx_query cfg n1 n2 d res w1 w2 ty = Ret q \<and>
    key_of q = (Queried_ip res, Resolver_type res, False, False, True) \<and> - 1 \<le> qr_status q \<and> qr_status q \<le> 9 \<and>
    qr_nxopti q = 0 \<and> (qr_status q \<noteq> 0 \<longrightarrow> qr_requestingIP q = ''NONE'')"
proof -
  have g: "qc_Protocol cfg = ''udp'' \<or> qc_Protocol cfg = ''tcp''" using assms(1) by (simp add: good_setup_def)
  obtain q1 where q1: "dnsQuery n1 cfg d (Queried_ip res) ty w1 = Ret q1" "classified (Queried_ip res) q1"
    using dnsQuery_Ret [OF assms(2) g] by blast
  obtain q2 where q2: "dnsQuery n2 cfg d (Queried_ip res) ty w2 = Ret q2" "classified (Queried_ip res) q2"
    using dnsQuery_Ret [OF assms(3) g] by blast
  show ?thesis using q1 q2 by (simp add: nx_query_def classified_def key_of_def)
qed

lemma nxOptiRoutine_Ret:
  assumes "good_setup cfg res" and "\<forall>k. sane_net (net k)"
  shows "\<exists>q. nxOptiRoutine cfg net rnd res w1 w2 ty = Ret q \<and>
    good_result (Queried_ip res, Resolver_type res, False, False, True) q"
proof -
  have g: "netip_ParseAddr (Queried_ip res) \<noteq> None" "0 < qc_RandMax cfg" using assms(1) by (simp_all add: good_setup_def)
  obtain d where d: "domainAssembly cfg rnd (Queried_ip res) 1 False False True = Ret d"
    using domainAssembly_Ret [OF g, of False False] by blast
  have s: "sane_net (net k)" for k using assms(2) by blast
  obtain qa where qa: "nx_query cfg (net 0) (net 1) (''a.'' @ d) res w1 w2 ty = Ret qa"
    "key_of qa = (Queried_ip res, Resolver_type res, False, False, True)" "- 1 \<le> qr_status qa" "qr_status qa \<le> 9"
    "qr_status qa \<noteq> 0 \<longrightarrow> qr_requestingIP qa = ''NONE''" using nx_query_Ret [OF assms(1) s s] by blast
  obtain qb where qb: "nx_query cfg (net 2) (net 3) (''b.'' @ d) res w1 w2 ty = Ret qb"
    "key_of qb = (Queried_ip res, Resolver_type res, False, False, True)" "- 1 \<le> qr_status qb" "qr_status qb \<le> 9"
    "qr_nxopti qb = 0" "qr_status qb \<noteq> 0 \<longrightarrow> qr_requestingIP qb = ''NONE''" using nx_query_Ret [OF assms(1) s s] by blast
  show ?thesis using qa qb by (auto simp: nxOptiRoutine_def d good_result_def key_of_def)
qed

lemma resolver_routines_Ret:
  assumes "Queried_ip res \<noteq> [] \<Longrightarrow> Resolver_type res \<noteq> [] \<Longrightarrow> good_setup cfg res" and "\<forall>k. sane_net (net k)"
  shows "\<exists>qs. sequenceO (resolver_routines cfg net rnd depth w1 w2 res) = Ret qs \<and>
    list_all2 good_result (if Queried_ip res = [] \<or> Resolver_type res = [] then [] else four_rows res) qs"
proof (cases "Queried_ip res = [] \<or> Resolver_type res = []")
  case True
  then show ?thesis by (simp add: resolver_routines_def)
next
  case False
  then have g: "good_setup cfg res" using assms(1) by simp
  have s: "sane_net (net k)" for k using assms(2) by blast
  note dq = dnsQueryRoutine_Ret [OF g s s]
  obtain q0 where q0: "dnsQueryRoutine cfg (net 0) (net 1) (rnd 0) (rnd 1) depth res w1 w2 DNSTypeTXT False False = Ret q0"
    "good_result (Queried_ip res, Resolver_type res, False, False, False) q0" using dq [of False False] by blast
  obtain q1 where q1: "dnsQueryRoutine cfg (net 2) (net 3) (rnd 2) (rnd 3) depth res w1 w2 DNSTypeTXT True False = Ret q1"
    "good_result (Queried_ip res, Resolver_type res, True, False, False) q1" using dq [of True False] by blast
  obtain q2 where q2: "dnsQueryRoutine cfg (net 4) (net 5) (rnd 4) (rnd 5) depth res w1 w2 DNSTypeTXT False True = Ret q2"
    "good_result (Queried_ip res, Resolver_type res, False, True, False) q2" using dq [of False True] by blast
  have "\<forall>k. sane_net (net (6 + k))" using s by blast
  from nxOptiRoutine_Ret [OF g this] obtain q3
    where q3: "nxOptiRoutine cfg (\<lambda>k. net (6 + k)) (rnd 6) res w1 w2 DNSTypeTXT = Ret q3"
    "good_result (Queried_ip res, Resolver_type res, False, False, True) q3" by blast
  show ?thesis using False q0 q1 q2 q3 by (simp add: resolver_routines_def four_rows_def)
qed

definition scan_keys :: "InputFileFormat list \<Rightarrow> (string \<times> string \<times> bool \<times> bool \<times> bool) list" where
  "scan_keys rs = concat (map four_rows (filter (\<lambda>res. Queried_ip res \<noteq> [] \<and> Resolver_type res \<noteq> []) rs))"

lemma all_routines_Ret:
  assumes "\<forall>res \<in> set rs. Queried_ip res \<noteq> [] \<longrightarrow> Resolver_type res \<noteq> [] \<longrightarrow> good_setup cfg res" and "\<forall>i k. sane_net (net i k)"
  shows "\<exists>qs. sequenceO (concat (map (\<lambda>(i, res). resolver_routines cfg (net i) (rnd i) depth w1 w2 res) (enumerate j rs))) = Ret qs \<and>
    list_all2 good_result (scan_keys rs) qs"
  using assms(1)
proof (induction rs arbitrary: j)
  case Nil
  then show ?case by (simp add: scan_keys_def)
next
  case (Cons r rs)
  from Cons obtain qs where qs: "sequenceO (concat (map (\<lambda>(i, res). resolver_routines cfg (net i) (rnd i) depth w1 w2 res)
      (enumerate (Suc j) rs))) = Ret qs" "list_all2 good_result (scan_keys rs) qs" by fastforce
  have "\<forall>k. sane_net (net j k)" using assms(2) by blast
  from resolver_routines_Ret [OF _ this, of r] Cons.prems obtain q
    where q: "sequenceO (resolver_routines cfg (net j) (rnd j) depth w1 w2 r) = Ret q"
      "list_all2 good_result (if Queried_ip r = [] \<or> Resolver_type r = [] then [] else four_rows r) q" by fastforce
  have "scan_keys (r # rs) = (if Queried_ip r = [] \<or> Resolver_type r = [] then [] else four_rows r) @ scan_keys rs"
    by (simp add: scan_keys_def)
  with q qs show ?case by (simp add: sequenceO_append list_all2_appendI)
qed

lemma scan_round_Ret:
  assumes "\<forall>res \<in> set rs. Queried_ip res \<noteq> [] \<longrightarrow> Resolver_type res \<noteq> [] \<longrightarrow> good_setup cfg res"
    and "\<forall>i k. sane_net (net i k)" and "\<forall>xs. mset (order xs) = mset xs"
  shows "\<exists>qs. scan_round cfg net rnd order rs depth w1 w2 = Ret qs \<and> mset (map key_of qs) = mset (scan_keys rs) \<and>
    (\<forall>q \<in> set qs. \<exists>key. good_result key q)"
proof -
  from all_routines_Ret [OF assms(1,2)] obtain qs
    where qs: "sequenceO (concat (map (\<lambda>(i, res). resolver_routines cfg (net i) (rnd i) depth w1 w2 res) (enumerate 0 rs))) = Ret qs"
      and g: "list_all2 good_result (scan_keys rs) qs" by blast
  have "map key_of qs = scan_keys rs" using g by (induction rule: list_all2_induct) (simp_all add: good_result_def)
  moreover have "\<forall>q \<in> set qs. \<exists>key. good_result key q" using g
    by (metis in_set_conv_nth list_all2_conv_all_nth)
  moreover have "mset (map key_of (order qs)) = mset (map key_of qs)" "set (order qs) = set qs"
    using assms(3) by (metis mset_map, metis set_mset_mset)
  ultimately show ?thesis by (simp add: scan_round_def qs)
qed

lemma scan_rounds_Ret:
  assumes "\<forall>i \<in> set is. \<exists>qs. f i = Ret qs \<and> mset (map key_of qs) = K \<and> (\<forall>q \<in> set qs. \<exists>key. good_result key q)"
  shows "\<exists>qss. sequenceO (map f is) = Ret qss \<and> mset (map key_of (concat qss)) = repeat_mset (length is) K \<and>
    (\<forall>q \<in> set (concat qss). \<exists>key. good_result key q)"
  using assms
proof (induction "is")
  case Nil
  then show ?case by simp
next
  case (Cons i "is")
  from Cons.prems obtain qs where "f i = Ret qs" "mset (map key_of qs) = K" "\<forall>q \<in> set qs. \<exists>key. good_result key q" by auto
  moreover from Cons obtain qss where "sequenceO (map f is) = Ret qss" "mset (map key_of (concat qss)) = repeat_mset (length is) K"
    "\<forall>q \<in> set (concat qss). \<exists>key. good_result key q" by auto
  ultimately show ?case by auto
qed

text \<open>
  A scan loses nothing: whatever the resolvers answer and in whatever order the results arrive,
  every round adds exactly four rows per resolver with an address and a type, one of each kind of
  query, and leaves the earlier rows; an NXDOMAIN test is 0, 1 or undecided (-1), and undecided
  in every other row; a row names a requesting address only if the query succeeded.
\<close>
theorem scan_rows_complete:
  assumes "\<forall>res \<in> set rs. Queried_ip res \<noteq> [] \<longrightarrow> Resolver_type res \<noteq> [] \<longrightarrow> good_setup cfg res"
    and "\<forall>i j k. sane_net (net i j k)" and "\<forall>i xs. mset (order i xs) = mset xs"
  shows "\<exists>new. scanResolvers cfg net rnd order rs tmp depth rounds wt wr fileName = Ret (tmp @ new) \<and>
    mset (map row_of new) = repeat_mset (nat rounds) (mset (scan_keys rs)) \<and>
    (\<forall>r \<in> set new. pq_FileName r = fileName \<and>
       (if pq_NXCheck r then pq_NxOptimization r \<in> {-1, 0, 1} else pq_NxOptimization r = -1))"
proof -
  have "\<exists>qs. scan_round cfg (net i) (rnd i) (order i) rs depth wt wr = Ret qs \<and>
      mset (map key_of qs) = mset (scan_keys rs) \<and> (\<forall>q \<in> set qs. \<exists>key. good_result key q)" for i
    by (rule scan_round_Ret [OF assms(1)]) (use assms(2,3) in auto)
  then have "\<forall>i \<in> set [0..<nat rounds]. \<exists>qs. scan_round cfg (net i) (rnd i) (order i) rs depth wt wr = Ret qs \<and>
      mset (map key_of qs) = mset (scan_keys rs) \<and> (\<forall>q \<in> set qs. \<exists>key. good_result key q)" by blast
  from scan_rounds_Ret [OF this] obtain qss
    where "sequenceO (map (\<lambda>i. scan_round cfg (net i) (rnd i) (order i) rs depth wt wr) [0..<nat rounds]) = Ret qss"
      and k: "mset (map key_of (concat qss)) = repeat_mset (nat rounds) (mset (scan_keys rs))"
      and g: "\<forall>q \<in> set (concat qss). \<exists>key. good_result key q" by auto
  then have "scanResolvers cfg net rnd order rs tmp depth rounds wt wr fileName = Ret (tmp @ map (result_row fileName) (concat qss))"
    by (simp add: scanResolvers_def)
  moreover have "map row_of (map (result_row fileName) (concat qss)) = map key_of (concat qss)"
    by (simp add: row_of_result_row o_def)
  moreover have "\<forall>r \<in> set (map (result_row fileName) (concat qss)). pq_FileName r = fileName \<and>
       (if pq_NXCheck r then pq_NxOptimization r \<in> {-1, 0, 1} else pq_NxOptimization r = -1)"
    using g by (fastforce simp: good_result_def result_row_def)
  ultimately show ?thesis using k by metis
qed

definition ex_qcfg :: qmin_cfg where
  "ex_qcfg = \<lparr>qc_BaseURL = ''q.example.'', qc_Port = 53, qc_Protocol = ''udp'', qc_RandMax = 1000, qc_LabelDepth = 3,
     qc_BatchSize = 2, qc_Rounds = 2, qc_Timeout = 1000, qc_RetryTimeout = 2000, qc_OutputDir = ''out/''\<rparr>"

text \<open>A network in which every exchange is answered by the same response.\<close>

definition net_of :: "string + dns_response \<Rightarrow> net_env" where
  "net_of r = \<lparr>ne_Exchange = (\<lambda>_ _ _ _ _. r), ne_NewRequest = (\<lambda>_ _ _ _. None), ne_Do = (\<lambda>_ _ _ _ _. Inl ''down'')\<rparr>"

lemma scan_rows_complete_witness:
  "\<exists>new. scanResolvers ex_qcfg (\<lambda>_ _ _. net_of (Inl ''read udp: i/o timeout'')) (\<lambda>_ _ _. 7) (\<lambda>_. rev)
      [\<lparr>Queried_ip = ''192.0.2.1'', Resolver_type = ''unset''\<rparr>, \<lparr>Queried_ip = [], Resolver_type = ''unset''\<rparr>] [] 3 2 1000 2000 ''in.txt'' =
      Ret ([] @ new) \<and> size (mset (map row_of new)) = 8"
proof -
  let ?rs = "[\<lparr>Queried_ip = ''192.0.2.1'', Resolver_type = ''unset''\<rparr>, \<lparr>Queried_ip = [], Resolver_type = ''unset''\<rparr>]"
  have g: "\<forall>res \<in> set ?rs. Queried_ip res \<noteq> [] \<longrightarrow> Resolver_type res \<noteq> [] \<longrightarrow> good_setup ex_qcfg res" by code_simp
  have n: "sane_net (net_of (Inl e))" for e by (simp add: sane_net_def net_of_def)
  have "size (mset (scan_keys ?rs)) = 4" by (simp add: scan_keys_def four_rows_def)
  then have "size (repeat_mset (nat 2) (mset (scan_keys ?rs))) = 8" by simp
  with scan_rows_complete [where net = "\<lambda>_ _ _. net_of (Inl ''read udp: i/o timeout'')" and rnd = "\<lambda>_ _ _. 7" and order = "\<lambda>_. rev"
      and tmp = "[]" and depth = 3 and rounds = 2 and wt = 1000 and wr = 2000 and fileName = "''in.txt''", OF g] n
  show ?thesis by (metis mset_rev)
qed

end
