(* ===== verification/PostProc.thy ===== *)
theory PostProc
  imports QminScanner
begin

section \<open>Post-processing of the QMIN scan (postprocessing/qmin/postproc_scan_result.go)\<close>

text \<open>
  Every row of a scan is evaluated on its own, and the evaluated rows of one resolver are combined.
  The two MaxMind databases are parameters: decoding a record changes the fields it finds.
\<close>

subsection \<open>Data\<close>

type_synonym TriBool = u8

abbreviation TriNil :: TriBool where "TriNil \<equiv> 255"
abbreviation TriFalse :: TriBool where "TriFalse \<equiv> 0"
abbreviation TriTrue :: TriBool where "TriTrue \<equiv> 1"
abbreviation TriUncertain :: TriBool where "TriUncertain \<equiv> 2"

record ASNRecord =
  as_Number :: "64 word"
  as_Organization :: string

record geo_db =
  gd_asn :: "ip \<Rightarrow> ASNRecord \<Rightarrow> string + ASNRecord"
  gd_country :: "ip \<Rightarrow> string \<Rightarrow> string + string"

record ScanResultResolver =
  sr_Protocol :: string
  sr_Queried_IP :: string
  sr_Queried_IP_ASN :: "64 word"
  sr_Queried_IP_Org :: string
  sr_Queried_IP_Country :: string
  sr_Resolver_Type :: string
  sr_RequestingIPs :: "string list"
  sr_QMIN_enabled :: TriBool
  sr_Induction_QMIN :: TriBool
  sr_Qmin_mode :: string
  sr_Nx_optimization :: TriBool
  sr_Errors :: "string \<rightharpoonup> int"
  sr_Count :: int
  sr_Filename :: string

record ScanResolverPair =
  sp_Protocol :: string
  sp_Queried_IP :: string
  sp_Queried_IP_ASN :: "64 word"
  sp_Queried_IP_Org :: string
  sp_Queried_IP_Country :: string
  sp_RequestingIP :: string
  sp_Requesting_IP_ASN :: "64 word"
  sp_Requesting_IP_Org :: string
  sp_Requesting_IP_Country :: string
  sp_Resolver_Type :: string
  sp_QMIN_enabled :: bool
  sp_QMIN_pattern :: string
  sp_Resolver_pattern_match :: "string list"
  sp_Max_min_rfc_9156 :: string
  sp_Count :: int

record Metadata =
  md_Protocol :: string
  md_LabelDepth :: int
  md_Rounds :: int
  md_BaseURL :: string

subsection \<open>The pattern of one row\<close>

definition baseDomainLabelCount :: "string \<Rightarrow> nat" where
  "baseDomainLabelCount base =
     (if has_suffix base ''.'' then count_list base CHR ''.'' else count_list base CHR ''.'' + 1)"

text \<open>One round of the loop over the reversed parts: pattern, \<open>min\<close> and the boundary flag.\<close>

definition pattern_part :: "nat \<Rightarrow> string \<Rightarrow> string \<times> int \<times> bool \<Rightarrow> (string \<times> int \<times> bool) outcome" where
  "pattern_part base part st =
     (let (pat, mn, reached) = st;
          single = (\<not> reached \<and> count_list part CHR ''.'' = 0);
          mn' = (if single then mn + 1 else mn);
          reached' = (if single then reached else True);
          split1 = split_on CHR ''_'' part;
          split2 = split_on CHR ''.'' (split1 ! 0)
      in if length split2 = 1 \<and> CHR ''-'' \<in> set (split2 ! 0) then
           bindO (index split1 1) (\<lambda>ty. Ret (itoa (1 + int base) @ ty, mn', reached'))
         else (case atoi (split2 ! 0) of
           None \<Rightarrow> Panic (LogFatal ''error converting string to int: '')
         | Some stage \<Rightarrow> bindO (index split1 1) (\<lambda>ty. Ret (itoa (stage + 1 + int base) @ ty @ ''-'' @ pat, mn', reached'))))"

fun pattern_parts :: "nat \<Rightarrow> string list \<Rightarrow> string \<times> int \<times> bool \<Rightarrow> (string \<times> int \<times> bool) outcome" where
  "pattern_parts base [] st = Ret st"
| "pattern_parts base (p # ps) st = bindO (pattern_part base p st) (pattern_parts base ps)"

definition analyzePattern :: "string \<Rightarrow> Metadata \<Rightarrow> (bool \<times> string \<times> int \<times> int) outcome" where
  "analyzePattern pattern md =
     (let base = baseDomainLabelCount (md_BaseURL md) in
      if CHR ''|'' \<notin> set pattern then
        (if CHR ''.'' \<notin> set pattern then Ret (False, pattern, 0, 0)
         else let pat_split = split_on CHR ''_'' pattern in
              if length pat_split < 2 then Panic (LogFatal ''Malformed pattern:'')
              else Ret (False, itoa (int (count_list pattern CHR ''.'') + 1 + int base) @ pat_split ! 1, 1, 1))
      else bindO (pattern_parts base (rev (split_on CHR ''|'' pattern)) ([], 0, False)) (\<lambda>(pat, mn, _).
             Ret (True, pat, int (count_list pattern CHR ''|'') + 1, mn)))"

subsection \<open>One row\<close>

definition knownResolverPattern :: "(string \<times> string list) list" where
  "knownResolverPattern =
    [(''26TXT-6NS-5NS-4NS-3NS'', [''bind 9.13.4'', ''bind 9.14.0'', ''bind 9.18.17'', ''bind 9.20.27'']),
     (''26TXT-3A'', [''bind 9.14.7'', ''bind 9.18.14'', ''unbound 1.18.1'']),
     (''26TXT-25NS-24NS-23NS-22NS-21NS-20NS-19NS-18NS-17NS-16NS-15NS-14NS-13NS-12NS-11NS-10NS-9NS-8NS-7NS-6NS-5NS-4NS-3NS'',
        [''knot 3.0.0'', ''knot 5.7.0'', ''knot 6.4.2'']),
     (''26TXT-25A-22A-19A-16A-13A-10A-7A-6A-5A-4A-3A'', [''pdns_recursor 4.4.3'', '''']),
     (''26TXT-22A-18A-15A-12A-9A-6A-5A-4A-3A'',
        [''pdns_recursor 4.7.0'', ''pdns_recursor 4.8.4'', ''pdns_recursor 5.0.0'', ''pdns_recursor 5.5.0'']),
     (''26TXT-22A-18A-14A-10A-7A-4A-3A'', [''pdns_recursor 5.0.0'', ''pdns_recursor 5.5.0'']),
     (''26TXT-26A-22A-18A-14A-10A-7A-4A-3A'', [''unbound 1.7.3'', ''unbound 1.17.1'', ''unbound 1.26.0'']),
     (''26TXT-26A-24A-20A-16A-12A-9A-6A-5A-4A-3A'', [''unbound 1.26.0''])]"

definition fatal_err :: "string + 'a \<Rightarrow> 'a outcome" where
  "fatal_err r = (case r of Inl e \<Rightarrow> Panic (LogFatal (''error getting record: '' @ e)) | Inr x \<Rightarrow> Ret x)"

definition MustParseAddr :: "string \<Rightarrow> ip outcome" where
  "MustParseAddr s = (case netip_ParseAddr s of None \<Rightarrow> Panic (PanicError ''ParseAddr'') | Some a \<Rightarrow> Ret a)"

definition new_result :: "ParquetQueryResult \<Rightarrow> Metadata \<Rightarrow> ASNRecord \<Rightarrow> string \<Rightarrow> ScanResultResolver" where
  "new_result row md asn cc = \<lparr>sr_Protocol = md_Protocol md, sr_Queried_IP = pq_ResolverIP row,
     sr_Queried_IP_ASN = as_Number asn, sr_Queried_IP_Org = as_Organization asn, sr_Queried_IP_Country = cc,
     sr_Resolver_Type = pq_ResolverType row, sr_RequestingIPs = [], sr_QMIN_enabled = TriNil,
     sr_Induction_QMIN = TriNil, sr_Qmin_mode = [], sr_Nx_optimization = TriNil, sr_Errors = Map.empty,
     sr_Count = 1, sr_Filename = pq_FileName row\<rparr>"

text \<open>The rows that do not need the pattern; \<open>None\<close> when the pattern is evaluated.\<close>

definition eval_simple :: "ParquetQueryResult \<Rightarrow> ScanResultResolver \<Rightarrow> ScanResultResolver option" where
  "eval_simple row r1 =
     (if pq_RequestingIP row = ''NONE'' then
        Some (if pq_ModeCheck row \<and> pq_Response row = ''nxdomain'' then r1\<lparr>sr_Qmin_mode := ''strict''\<rparr>
              else if pq_NXCheck row then r1\<lparr>sr_Nx_optimization := word_of_int (pq_NxOptimization row)\<rparr>
              else r1\<lparr>sr_Errors := (sr_Errors r1)(pq_Response row \<mapsto> 1)\<rparr>)
      else let r1 = r1\<lparr>sr_RequestingIPs := [pq_RequestingIP row]\<rparr> in
        if pq_ModeCheck row then
          Some (if CHR ''|'' \<in> set (pq_Response row) then r1\<lparr>sr_Qmin_mode := ''relaxed''\<rparr> else r1)
        else if pq_NXCheck row then Some (r1\<lparr>sr_Nx_optimization := word_of_int (pq_NxOptimization row)\<rparr>)
        else if pq_InducedQMINCheck row then
          Some (r1\<lparr>sr_Induction_QMIN := (if CHR ''|'' \<in> set (pq_InducedRes row) then TriTrue else TriFalse)\<rparr>)
        else None)"

definition evalRow ::
  "geo_db \<Rightarrow> Metadata \<Rightarrow> bool \<Rightarrow> ParquetQueryResult \<Rightarrow> (ScanResultResolver \<times> ScanResolverPair option) outcome" where
  "evalRow db md pattern_matching row =
     bindO (MustParseAddr (pq_ResolverIP row)) (\<lambda>ip.
     bindO (fatal_err (gd_asn db ip \<lparr>as_Number = 0, as_Organization = []\<rparr>)) (\<lambda>asn.
     bindO (fatal_err (gd_country db ip [])) (\<lambda>cc.
       let r1 = new_result row md asn cc in
       case eval_simple row r1 of Some r \<Rightarrow> Ret (r, None)
       | None \<Rightarrow>
           let r1 = r1\<lparr>sr_RequestingIPs := [pq_RequestingIP row]\<rparr> in
           bindO (analyzePattern (pq_Response row) md) (\<lambda>(qmin, pat, mx, mn).
             case netip_ParseAddr (pq_RequestingIP row) of None \<Rightarrow> Ret (r1, None)
             | Some rip \<Rightarrow>
                 bindO (fatal_err (gd_asn db rip asn)) (\<lambda>asn2.
                 bindO (fatal_err (gd_country db rip cc)) (\<lambda>cc2.
                   let match = (if pattern_matching then
                          (case map_of knownResolverPattern pat of Some m \<Rightarrow> m | None \<Rightarrow> [''none'']) else [''unset'']);
                       r2 = \<lparr>sp_Protocol = md_Protocol md, sp_Queried_IP = sr_Queried_IP r1,
                          sp_Queried_IP_ASN = sr_Queried_IP_ASN r1, sp_Queried_IP_Org = sr_Queried_IP_Org r1,
                          sp_Queried_IP_Country = sr_Queried_IP_Country r1, sp_RequestingIP = pq_RequestingIP row,
                          sp_Requesting_IP_ASN = as_Number asn2, sp_Requesting_IP_Org = as_Organization asn2,
                          sp_Requesting_IP_Country = cc2, sp_Resolver_Type = pq_ResolverType row,
                          sp_QMIN_enabled = qmin, sp_QMIN_pattern = pat, sp_Resolver_pattern_match = match,
                          sp_Max_min_rfc_9156 = itoa mx @ ''-'' @ itoa mn, sp_Count = 1\<rparr>
                   in Ret (r1\<lparr>sr_QMIN_enabled := (if qmin then TriTrue else TriFalse)\<rparr>, Some r2)))))))"

subsection \<open>Combining the rows of one resolver\<close>

definition merge_tri :: "TriBool \<Rightarrow> TriBool \<Rightarrow> TriBool" where
  "merge_tri a b = (if a = TriNil then b else if b \<noteq> TriNil \<and> a \<noteq> b then TriUncertain else a)"

definition merge_mode :: "string \<Rightarrow> string \<Rightarrow> string" where
  "merge_mode a b = (if a = [] then b else if b \<noteq> [] \<and> a \<noteq> b then ''both'' else a)"

text \<open>\<open>m[k]\<close> of a Go map of integers, 0 when the key is missing, and the loop that adds one map to another.\<close>

definition cnt :: "(string \<rightharpoonup> int) \<Rightarrow> string \<Rightarrow> int" where
  "cnt m k = (case m k of Some v \<Rightarrow> v | None \<Rightarrow> 0)"

definition add_errors :: "(string \<rightharpoonup> int) \<Rightarrow> (string \<rightharpoonup> int) \<Rightarrow> (string \<rightharpoonup> int)" where
  "add_errors m n = (\<lambda>k. case n k of None \<Rightarrow> m k | Some v \<Rightarrow> Some (cnt m k + v))"

definition combineResults :: "ScanResultResolver \<Rightarrow> ScanResultResolver \<Rightarrow> ScanResultResolver" where
  "combineResults r1 r2 = r1\<lparr>
     sr_RequestingIPs := (case sr_RequestingIPs r2 of [] \<Rightarrow> sr_RequestingIPs r1
        | ip # _ \<Rightarrow> if ip \<in> set (sr_RequestingIPs r1) then sr_RequestingIPs r1 else sr_RequestingIPs r1 @ [ip]),
     sr_QMIN_enabled := merge_tri (sr_QMIN_enabled r1) (sr_QMIN_enabled r2),
     sr_Induction_QMIN := merge_tri (sr_Induction_QMIN r1) (sr_Induction_QMIN r2),
     sr_Nx_optimization := merge_tri (sr_Nx_optimization r1) (sr_Nx_optimization r2),
     sr_Qmin_mode := merge_mode (sr_Qmin_mode r1) (sr_Qmin_mode r2),
     sr_Errors := add_errors (sr_Errors r1) (sr_Errors r2),
     sr_Count := sr_Count r1 + 1\<rparr>"

definition combineResultsPair :: "ScanResolverPair \<Rightarrow> ScanResolverPair \<Rightarrow> ScanResolverPair" where
  "combineResultsPair r1 r2 = r1\<lparr>sp_Count := sp_Count r1 + 1\<rparr>"

type_synonym results = "(string \<rightharpoonup> ScanResultResolver) \<times> (string \<rightharpoonup> ScanResolverPair)"

definition add_row :: "Metadata \<Rightarrow> ScanResultResolver \<times> ScanResolverPair option \<Rightarrow> results \<Rightarrow> results" where
  "add_row md rr res =
     (let (r1, r2) = rr; (res1, res2) = res;
          k1 = md_Protocol md @ sr_Queried_IP r1;
          res1' = res1(k1 \<mapsto> (case res1 k1 of Some tmp \<Rightarrow> combineResults tmp r1 | None \<Rightarrow> r1));
          res2' = (case r2 of None \<Rightarrow> res2
             | Some p \<Rightarrow>
                 let look = md_Protocol md @ sp_Queried_IP p @ sp_RequestingIP p; store = look @ sp_QMIN_pattern p
                 in res2(store \<mapsto> (case res2 look of Some tmp \<Rightarrow> combineResultsPair tmp p | None \<Rightarrow> p)))
      in (res1', res2'))"

fun processRows :: "geo_db \<Rightarrow> Metadata \<Rightarrow> bool \<Rightarrow> ParquetQueryResult list \<Rightarrow> results \<Rightarrow> results outcome" where
  "processRows db md pm [] res = Ret res"
| "processRows db md pm (row # rows) res =
     bindO (evalRow db md pm row) (\<lambda>rr. processRows db md pm rows (add_row md rr res))"

subsection \<open>Merging flat values\<close>

text \<open>
  The contract of the three-valued fields and of the mode: a value that means nothing seen, a value
  that means contradictory, and a merge that keeps what agrees. Whatever the order and the
  grouping, merging a list gives its summary.
\<close>

definition summarise :: "'a \<Rightarrow> 'a \<Rightarrow> 'a list \<Rightarrow> 'a" where
  "summarise none both xs = (case remdups (filter (\<lambda>x. x \<noteq> none) xs) of [] \<Rightarrow> none | [x] \<Rightarrow> x | _ \<Rightarrow> both)"

lemma summarise_set_cong: "set xs = set ys \<Longrightarrow> summarise none both xs = summarise none both ys"
proof -
  assume s: "set xs = set ys"
  let ?r = "\<lambda>xs. remdups (filter (\<lambda>x. x \<noteq> none) xs)"
  have eq: "set (?r xs) = set (?r ys)" and d: "distinct (?r xs)" "distinct (?r ys)" using s by auto
  then have len: "length (?r xs) = length (?r ys)" by (metis distinct_card)
  consider "?r xs = []" | x where "?r xs = [x]" | x y zs where "?r xs = x # y # zs"
    by (meson remdups_adj.cases)
  then show ?thesis
  proof cases
    case 1
    with len show ?thesis by (simp add: summarise_def)
  next
    case (2 x)
    with len eq have "?r ys = [x]" by (cases "?r ys") auto
    with 2 show ?thesis by (simp add: summarise_def)
  next
    case (3 x y zs)
    with len obtain u v w where "?r ys = u # v # w" by (metis Suc_length_conv length_Cons)
    with 3 show ?thesis by (simp add: summarise_def)
  qed
qed

locale flat_merge =
  fixes none both :: 'a and merge :: "'a \<Rightarrow> 'a \<Rightarrow> 'a"
  assumes merge_eq: "merge a b = (if a = none then b else if b \<noteq> none \<and> a \<noteq> b then both else a)"
    and none_both: "none \<noteq> both"
begin

lemma merge_comm: "merge a b = merge b a"
  by (auto simp: merge_eq)

lemma merge_assoc: "merge (merge a b) c = merge a (merge b c)"
  using none_both by (auto simp: merge_eq)

lemma merge_none: "merge none b = b" "merge a none = a"
  by (auto simp: merge_eq)

lemma merge_idem: "merge a a = a"
  by (simp add: merge_eq)

lemma merge_summarise: "merge a (summarise none both xs) = summarise none both (a # xs)"
proof (cases "a = none")
  case True
  then show ?thesis by (simp add: merge_eq summarise_def)
next
  case False
  let ?r = "remdups (filter (\<lambda>x. x \<noteq> none) xs)"
  have r: "set ?r = set xs - {none}" by auto
  consider "?r = []" | x where "?r = [x]" | x y ys where "?r = x # y # ys"
    by (meson remdups_adj.cases)
  then show ?thesis
  proof cases
    case 1
    then have "a \<notin> set xs" using r False by (metis Diff_iff empty_iff list.set(1) singletonD)
    with 1 False show ?thesis by (simp add: merge_eq summarise_def)
  next
    case (2 x)
    then have "x \<noteq> none" "a \<in> set xs \<longleftrightarrow> a = x" using r False by auto
    with 2 False show ?thesis by (simp add: merge_eq summarise_def)
  next
    case (3 x y ys)
    have "length (x # y # ys) \<le> length (remdups (filter (\<lambda>x. x \<noteq> none) (a # xs)))"
      using 3 False by simp
    then obtain u v w where "remdups (filter (\<lambda>x. x \<noteq> none) (a # xs)) = u # v # w"
      by (metis Suc_le_length_iff length_Cons)
    with 3 False show ?thesis using none_both by (simp add: merge_eq summarise_def)
  qed
qed

lemma foldl_merge: "foldl merge a xs = merge a (summarise none both xs)"
proof (induction xs arbitrary: a)
  case Nil
  show ?case by (simp add: summarise_def merge_none)
next
  case (Cons x xs)
  show ?case by (simp add: Cons.IH merge_assoc merge_summarise [symmetric])
qed

lemma foldl_summarise: "foldl merge a xs = summarise none both (a # xs)"
  by (simp add: foldl_merge merge_summarise)

end

interpretation tri: flat_merge TriNil TriUncertain merge_tri
  by unfold_locales (simp_all add: merge_tri_def)

interpretation mode: flat_merge "[]" "''both''" merge_mode
  by unfold_locales (simp_all add: merge_mode_def)

subsection \<open>What the combined row of a resolver holds\<close>

lemma combine_fields:
  "sr_QMIN_enabled (foldl combineResults r rs) = foldl merge_tri (sr_QMIN_enabled r) (map sr_QMIN_enabled rs)"
  "sr_Induction_QMIN (foldl combineResults r rs) = foldl merge_tri (sr_Induction_QMIN r) (map sr_Induction_QMIN rs)"
  "sr_Nx_optimization (foldl combineResults r rs) = foldl merge_tri (sr_Nx_optimization r) (map sr_Nx_optimization rs)"
  "sr_Qmin_mode (foldl combineResults r rs) = foldl merge_mode (sr_Qmin_mode r) (map sr_Qmin_mode rs)"
  "sr_Count (foldl combineResults r rs) = sr_Count r + int (length rs)"
  "sr_Queried_IP (foldl combineResults r rs) = sr_Queried_IP r"
  by (induction rs arbitrary: r) (simp_all add: combineResults_def)

lemma cnt_add: "cnt (add_errors m n) k = cnt m k + cnt n k"
  by (simp add: cnt_def add_errors_def split: option.split)

lemma combine_errors:
  "cnt (sr_Errors (foldl combineResults r rs)) k = cnt (sr_Errors r) k + sum_list (map (\<lambda>r. cnt (sr_Errors r) k) rs)"
  by (induction rs arbitrary: r) (simp_all add: combineResults_def cnt_add)

lemma combine_ips:
  assumes "\<forall>r' \<in> set rs. length (sr_RequestingIPs r') \<le> 1" and "distinct (sr_RequestingIPs r)"
  shows "set (sr_RequestingIPs (foldl combineResults r rs)) = (\<Union>r' \<in> set (r # rs). set (sr_RequestingIPs r')) \<and>
    distinct (sr_RequestingIPs (foldl combineResults r rs))"
  using assms
proof (induction rs arbitrary: r)
  case Nil
  then show ?case by simp
next
  case (Cons x rs)
  have "set (sr_RequestingIPs (combineResults r x)) = set (sr_RequestingIPs r) \<union> set (sr_RequestingIPs x) \<and>
      distinct (sr_RequestingIPs (combineResults r x))"
    using Cons.prems by (cases "sr_RequestingIPs x") (auto simp: combineResults_def)
  moreover have "\<forall>r' \<in> set rs. length (sr_RequestingIPs r') \<le> 1" using Cons.prems(1) by simp
  ultimately show ?case using Cons.IH [of "combineResults r x"] by auto
qed

definition res_key :: "Metadata \<Rightarrow> ScanResultResolver \<Rightarrow> string" where
  "res_key md r = md_Protocol md @ sr_Queried_IP r"

lemma fst_add_row:
  "fst (add_row md (r1, r2) res) = (fst res)(res_key md r1 \<mapsto>
     (case fst res (res_key md r1) of Some tmp \<Rightarrow> combineResults tmp r1 | None \<Rightarrow> r1))"
  by (cases res) (simp add: add_row_def Let_def res_key_def)

lemma fold_add_row:
  "fst (fold (add_row md) evs res) k =
     (case fst res k of
        Some t \<Rightarrow> Some (foldl combineResults t (filter (\<lambda>r. res_key md r = k) (map fst evs)))
      | None \<Rightarrow> (case filter (\<lambda>r. res_key md r = k) (map fst evs) of [] \<Rightarrow> None
          | r # rs \<Rightarrow> Some (foldl combineResults r rs)))"
proof (induction evs arbitrary: res)
  case Nil
  show ?case by (simp split: option.split)
next
  case (Cons e evs)
  obtain r1 r2 where e: "e = (r1, r2)" by (cases e)
  show ?case
  proof (cases "res_key md r1 = k")
    case True
    have "fst (add_row md e res) k = Some (case fst res k of Some tmp \<Rightarrow> combineResults tmp r1 | None \<Rightarrow> r1)"
      by (simp add: e fst_add_row True)
    then show ?thesis using True by (simp add: Cons.IH e split: option.split)
  next
    case False
    then have "fst (add_row md e res) k = fst res k" by (simp add: e fst_add_row)
    with False show ?thesis by (simp add: Cons.IH e split: option.split)
  qed
qed

lemma processRows_fold:
  "processRows db md pm rows res = Ret out \<Longrightarrow>
     \<exists>evs. list_all2 (\<lambda>row ev. evalRow db md pm row = Ret ev) rows evs \<and> out = fold (add_row md) evs res"
proof (induction rows arbitrary: res)
  case Nil
  then show ?case by auto
next
  case (Cons row rows)
  then obtain ev where ev: "evalRow db md pm row = Ret ev" "processRows db md pm rows (add_row md ev res) = Ret out" by auto
  from Cons.IH [OF ev(2)] obtain evs where "list_all2 (\<lambda>row ev. evalRow db md pm row = Ret ev) rows evs"
    "out = fold (add_row md) evs (add_row md ev res)" by blast
  with ev(1) show ?case by (intro exI [of _ "ev # evs"]) simp
qed

definition evaluated :: "geo_db \<Rightarrow> Metadata \<Rightarrow> bool \<Rightarrow> ParquetQueryResult list \<Rightarrow> (ScanResultResolver \<times> ScanResolverPair option) list" where
  "evaluated db md pm rows = concat (map (\<lambda>row. case evalRow db md pm row of Ret e \<Rightarrow> [e] | Panic _ \<Rightarrow> []) rows)"

definition resolver_rows :: "geo_db \<Rightarrow> Metadata \<Rightarrow> bool \<Rightarrow> ParquetQueryResult list \<Rightarrow> string \<Rightarrow> ScanResultResolver list" where
  "resolver_rows db md pm rows k = filter (\<lambda>r. res_key md r = k) (map fst (evaluated db md pm rows))"

lemma evaluated_list_all2:
  "list_all2 (\<lambda>row ev. evalRow db md pm row = Ret ev) rows evs \<Longrightarrow> evs = evaluated db md pm rows"
  by (induction rule: list_all2_induct) (simp_all add: evaluated_def)

lemma processRows_at:
  assumes "processRows db md pm rows (Map.empty, Map.empty) = Ret (res1, res2)"
  shows "res1 k = (case resolver_rows db md pm rows k of [] \<Rightarrow> None | r # rs \<Rightarrow> Some (foldl combineResults r rs))"
proof -
  from processRows_fold [OF assms] have "(res1, res2) = fold (add_row md) (evaluated db md pm rows) (Map.empty, Map.empty)"
    using evaluated_list_all2 by blast
  then have "res1 k = fst (fold (add_row md) (evaluated db md pm rows) (Map.empty, Map.empty)) k" by (metis fst_conv)
  then show ?thesis by (simp add: fold_add_row resolver_rows_def)
qed

lemma eval_simple_row:
  "eval_simple row r1 = Some r \<Longrightarrow> sr_RequestingIPs r1 = [] \<Longrightarrow>
     sr_Queried_IP r = sr_Queried_IP r1 \<and> sr_Count r = sr_Count r1 \<and> length (sr_RequestingIPs r) \<le> 1"
  by (auto simp: eval_simple_def Let_def split: if_splits)

lemma evalRow_row:
  assumes "evalRow db md pm row = Ret (r, p)"
  shows "sr_Queried_IP r = pq_ResolverIP row \<and> sr_Count r = 1 \<and> length (sr_RequestingIPs r) \<le> 1"
proof -
  from assms obtain asn cc where c: "(case eval_simple row (new_result row md asn cc) of Some r \<Rightarrow> Ret (r, None) | None \<Rightarrow>
      bindO (analyzePattern (pq_Response row) md) (\<lambda>(qmin, pat, mx, mn).
        case netip_ParseAddr (pq_RequestingIP row) of
          None \<Rightarrow> Ret ((new_result row md asn cc)\<lparr>sr_RequestingIPs := [pq_RequestingIP row]\<rparr>, None)
        | Some rip \<Rightarrow> bindO (fatal_err (gd_asn db rip asn)) (\<lambda>asn2. bindO (fatal_err (gd_country db rip cc)) (\<lambda>cc2.
            Ret ((new_result row md asn cc)\<lparr>sr_RequestingIPs := [pq_RequestingIP row],
                 sr_QMIN_enabled := (if qmin then TriTrue else TriFalse)\<rparr>, p))))) = Ret (r, p)"
    by (fastforce simp: evalRow_def Let_def split: option.splits prod.splits)
  show ?thesis
  proof (cases "eval_simple row (new_result row md asn cc)")
    case (Some r')
    with c eval_simple_row [OF Some] show ?thesis by (simp add: new_result_def)
  next
    case None
    with c show ?thesis by (auto simp: new_result_def split: option.splits prod.splits)
  qed
qed

lemma evaluated_row:
  assumes "r \<in> set (resolver_rows db md pm rows k)"
  shows "sr_Count r = 1 \<and> length (sr_RequestingIPs r) \<le> 1"
proof -
  from assms obtain row p where "evalRow db md pm row = Ret (r, p)"
    by (auto simp: resolver_rows_def evaluated_def split: outcome.splits; metis)
  from evalRow_row [OF this] show ?thesis by simp
qed

lemma resolver_fields:
  assumes "processRows db md pm rows (Map.empty, Map.empty) = Ret (res1, res2)"
  shows "let rs = resolver_rows db md pm rows k in
    if rs = [] then res1 k = None
    else \<exists>r. res1 k = Some r \<and>
      sr_QMIN_enabled r = summarise TriNil TriUncertain (map sr_QMIN_enabled rs) \<and>
      sr_Induction_QMIN r = summarise TriNil TriUncertain (map sr_Induction_QMIN rs) \<and>
      sr_Nx_optimization r = summarise TriNil TriUncertain (map sr_Nx_optimization rs) \<and>
      sr_Qmin_mode r = summarise [] ''both'' (map sr_Qmin_mode rs) \<and>
      set (sr_RequestingIPs r) = (\<Union>x \<in> set rs. set (sr_RequestingIPs x)) \<and> distinct (sr_RequestingIPs r) \<and>
      sr_Count r = int (length rs) \<and> (\<forall>e. cnt (sr_Errors r) e = sum_list (map (\<lambda>x. cnt (sr_Errors x) e) rs))"
proof (cases "resolver_rows db md pm rows k")
  case Nil
  with processRows_at [OF assms, of k] show ?thesis by simp
next
  case (Cons r rs)
  have row: "sr_Count x = 1 \<and> length (sr_RequestingIPs x) \<le> 1" if "x \<in> set (r # rs)" for x
    using evaluated_row that Cons by metis
  then have "\<forall>x \<in> set rs. length (sr_RequestingIPs x) \<le> 1" and r: "length (sr_RequestingIPs r) \<le> 1" "sr_Count r = 1" by auto
  from r have "distinct (sr_RequestingIPs r)" by (cases "sr_RequestingIPs r") auto
  with \<open>\<forall>x \<in> set rs. length (sr_RequestingIPs x) \<le> 1\<close>
  have "set (sr_RequestingIPs (foldl combineResults r rs)) = (\<Union>x \<in> set (r # rs). set (sr_RequestingIPs x)) \<and>
      distinct (sr_RequestingIPs (foldl combineResults r rs))" by (rule combine_ips)
  moreover have "res1 k = Some (foldl combineResults r rs)" using processRows_at [OF assms, of k] Cons by simp
  ultimately show ?thesis using r(2)
    by (simp add: Cons combine_fields combine_errors tri.foldl_summarise mode.foldl_summarise)
qed

text \<open>
  C5. The combined entry of a resolver is the summary of its rows: each of the three flags is unset if
  no row sets it, the common value if the rows agree, and uncertain if they contradict; the mode is
  summarised the same way; the requesting addresses are those of the rows, each once; the error
  counts are added up and the count is the number of rows.
\<close>
theorem resolver_summary:
  assumes "processRows db md pm rows (Map.empty, Map.empty) = Ret (res1, res2)"
  shows "let rs = resolver_rows db md pm rows k in
    if rs = [] then res1 k = None
    else \<exists>r. res1 k = Some r \<and>
      sr_QMIN_enabled r = summarise TriNil TriUncertain (map sr_QMIN_enabled rs) \<and>
      sr_Induction_QMIN r = summarise TriNil TriUncertain (map sr_Induction_QMIN rs) \<and>
      sr_Nx_optimization r = summarise TriNil TriUncertain (map sr_Nx_optimization rs) \<and>
      sr_Qmin_mode r = summarise [] ''both'' (map sr_Qmin_mode rs) \<and>
      set (sr_RequestingIPs r) = (\<Union>x \<in> set rs. set (sr_RequestingIPs x)) \<and> distinct (sr_RequestingIPs r) \<and>
      sr_Count r = int (length rs) \<and> (\<forall>e. cnt (sr_Errors r) e = sum_list (map (\<lambda>x. cnt (sr_Errors x) e) rs))"
  by (rule resolver_fields [OF assms])

definition ex_db :: geo_db where
  "ex_db = \<lparr>gd_asn = (\<lambda>ip r. Inr (if ip = [192, 0, 2, 1] then \<lparr>as_Number = 64500, as_Organization = ''ORG''\<rparr> else r)),
     gd_country = (\<lambda>ip r. Inr (if ip = [192, 0, 2, 1] then ''DE'' else r))\<rparr>"

definition ex_md :: Metadata where
  "ex_md = \<lparr>md_Protocol = ''udp'', md_LabelDepth = 3, md_Rounds = 1, md_BaseURL = ''q.example''\<rparr>"

definition ex_row :: "string \<Rightarrow> string \<Rightarrow> bool \<Rightarrow> int \<Rightarrow> ParquetQueryResult" where
  "ex_row req res nx v = \<lparr>pq_ResolverIP = ''192.0.2.1'', pq_ResolverType = ''unset'', pq_RequestingIP = req,
     pq_Response = res, pq_InductionIP = [], pq_InducedRes = [], pq_InducedQMINCheck = False, pq_ModeCheck = False,
     pq_NXCheck = nx, pq_NxOptimization = v, pq_FileName = ''in.txt''\<rparr>"

definition ex_rows :: "ParquetQueryResult list" where
  "ex_rows = [ex_row ''NONE'' ''nxdomain'' True 1, ex_row ''NONE'' ''false'' True 0, ex_row ''NONE'' ''timeout'' False (-1),
     ex_row ''198.51.100.7'' ''2_TXT|1_A|c0000201-3-7_A'' False (-1)]"

lemma resolver_summary_witness:
  "\<exists>res1 res2 r. processRows ex_db ex_md True ex_rows (Map.empty, Map.empty) = Ret (res1, res2) \<and>
     res1 ''udp192.0.2.1'' = Some r \<and> sr_Nx_optimization r = TriUncertain \<and> sr_QMIN_enabled r = TriTrue \<and> sr_Count r = 4"
proof -
  have "(case processRows ex_db ex_md True ex_rows (Map.empty, Map.empty) of Ret _ \<Rightarrow> True | Panic _ \<Rightarrow> False)" by code_simp
  then obtain res1 res2 where p: "processRows ex_db ex_md True ex_rows (Map.empty, Map.empty) = Ret (res1, res2)"
    by (auto split: outcome.splits)
  have v: "map sr_QMIN_enabled (resolver_rows ex_db ex_md True ex_rows ''udp192.0.2.1'') = [TriNil, TriNil, TriNil, TriTrue]"
    "map sr_Nx_optimization (resolver_rows ex_db ex_md True ex_rows ''udp192.0.2.1'') = [1, 0, TriNil, TriNil]"
    "length (resolver_rows ex_db ex_md True ex_rows ''udp192.0.2.1'') = 4"
    by code_simp+
  then have "resolver_rows ex_db ex_md True ex_rows ''udp192.0.2.1'' \<noteq> []" by auto
  with resolver_summary [OF p, of "''udp192.0.2.1''"] obtain r where "res1 ''udp192.0.2.1'' = Some r"
    "sr_QMIN_enabled r = summarise TriNil TriUncertain [TriNil, TriNil, TriNil, TriTrue]"
    "sr_Nx_optimization r = summarise TriNil TriUncertain [1, 0, TriNil, TriNil]" "sr_Count r = 4"
    by (auto simp: Let_def v)
  then show ?thesis using p by (auto simp: summarise_def)
qed

lemma mset_concat_map: "mset (concat (map f xs)) = sum_mset (image_mset (\<lambda>x. mset (f x)) (mset xs))"
  by (induction xs) simp_all

lemma mset_evaluated: "mset rows = mset rows' \<Longrightarrow> mset (evaluated db md pm rows) = mset (evaluated db md pm rows')"
  by (simp only: evaluated_def mset_concat_map)

lemma mset_resolver_rows:
  "mset rows = mset rows' \<Longrightarrow> mset (resolver_rows db md pm rows k) = mset (resolver_rows db md pm rows' k)"
  unfolding resolver_rows_def by (simp add: mset_evaluated [of rows rows'])

lemma sum_list_mset: "mset xs = mset ys \<Longrightarrow> sum_list (map f xs) = sum_list (map f ys)" for f :: "'a \<Rightarrow> int"
  by (metis mset_map sum_mset_sum_list)

text \<open>
  What a row says of the resolver itself depends on the address of the resolver only, and combining
  keeps it.
\<close>

definition resolver_id :: "ScanResultResolver \<Rightarrow> string \<times> string \<times> 64 word \<times> string \<times> string" where
  "resolver_id r = (sr_Protocol r, sr_Queried_IP r, sr_Queried_IP_ASN r, sr_Queried_IP_Org r, sr_Queried_IP_Country r)"

lemma eval_simple_id: "eval_simple row r1 = Some r \<Longrightarrow> resolver_id r = resolver_id r1"
  by (auto simp: eval_simple_def resolver_id_def Let_def split: if_splits)

lemma evalRow_id:
  assumes "evalRow db md pm row = Ret (r, p)"
  shows "\<exists>ip asn cc. MustParseAddr (sr_Queried_IP r) = Ret ip \<and>
    fatal_err (gd_asn db ip \<lparr>as_Number = 0, as_Organization = []\<rparr>) = Ret asn \<and> fatal_err (gd_country db ip []) = Ret cc \<and>
    resolver_id r = (md_Protocol md, sr_Queried_IP r, as_Number asn, as_Organization asn, cc)"
proof -
  from assms obtain ip asn cc where
    g: "MustParseAddr (pq_ResolverIP row) = Ret ip"
      "fatal_err (gd_asn db ip \<lparr>as_Number = 0, as_Organization = []\<rparr>) = Ret asn" "fatal_err (gd_country db ip []) = Ret cc"
    by (auto simp: evalRow_def)
  have "sr_Queried_IP r = pq_ResolverIP row \<and> resolver_id r = resolver_id (new_result row md asn cc)"
  proof (cases "eval_simple row (new_result row md asn cc)")
    case (Some r')
    then have "r = r'" using assms by (simp add: evalRow_def g Let_def)
    then show ?thesis using eval_simple_id [OF Some] by (simp add: resolver_id_def new_result_def)
  next
    case None
    then show ?thesis using assms
      by (auto simp: evalRow_def g Let_def resolver_id_def new_result_def split: option.splits prod.splits)
  qed
  with g show ?thesis by (simp add: resolver_id_def new_result_def)
qed

lemma resolver_rows_id:
  assumes "r \<in> set (resolver_rows db md pm rows k)" and "r' \<in> set (resolver_rows db md pm rows' k)"
  shows "resolver_id r = resolver_id r'"
proof -
  from assms obtain row p row' p' where e: "evalRow db md pm row = Ret (r, p)" "evalRow db md pm row' = Ret (r', p')"
    by (auto simp: resolver_rows_def evaluated_def split: outcome.splits; metis)
  have "sr_Queried_IP r = sr_Queried_IP r'" using assms by (auto simp: resolver_rows_def res_key_def)
  with evalRow_id [OF e(1)] evalRow_id [OF e(2)] show ?thesis by auto
qed

lemma combine_id: "resolver_id (foldl combineResults r rs) = resolver_id r"
  by (induction rs arbitrary: r) (simp_all add: combineResults_def resolver_id_def)

lemma processRows_id:
  assumes "processRows db md pm rows (Map.empty, Map.empty) = Ret (res1, res2)" and "res1 k = Some r"
  obtains x where "x \<in> set (resolver_rows db md pm rows k)" "resolver_id r = resolver_id x"
  using processRows_at [OF assms(1), of k] assms(2) combine_id that by (auto split: list.splits)

text \<open>
  C29. The order of the rows does not matter for what is measured: the scanner writes its rows in the
  order the answers arrive, and for every resolver any two orders give the same protocol, address,
  network, organisation and country, the same flags, mode and count, the same error counts and the
  same set of requesting addresses. The resolver type, the file name and the order in which the
  requesting addresses are listed are not among them: they follow the first rows seen.
\<close>
theorem resolver_order_independent:
  assumes "mset rows = mset rows'"
    and "processRows db md pm rows (Map.empty, Map.empty) = Ret (res1, res2)"
    and "processRows db md pm rows' (Map.empty, Map.empty) = Ret (res1', res2')"
  shows "(res1 k = None \<longleftrightarrow> res1' k = None) \<and>
    (\<forall>r r'. res1 k = Some r \<and> res1' k = Some r' \<longrightarrow>
       sr_Protocol r = sr_Protocol r' \<and> sr_Queried_IP r = sr_Queried_IP r' \<and>
       sr_Queried_IP_ASN r = sr_Queried_IP_ASN r' \<and> sr_Queried_IP_Org r = sr_Queried_IP_Org r' \<and>
       sr_Queried_IP_Country r = sr_Queried_IP_Country r' \<and>
       sr_QMIN_enabled r = sr_QMIN_enabled r' \<and> sr_Induction_QMIN r = sr_Induction_QMIN r' \<and>
       sr_Nx_optimization r = sr_Nx_optimization r' \<and> sr_Qmin_mode r = sr_Qmin_mode r' \<and> sr_Count r = sr_Count r' \<and>
       set (sr_RequestingIPs r) = set (sr_RequestingIPs r') \<and> (\<forall>e. cnt (sr_Errors r) e = cnt (sr_Errors r') e))"
proof -
  let ?rs = "resolver_rows db md pm rows k" and ?rs' = "resolver_rows db md pm rows' k"
  have m: "mset ?rs = mset ?rs'" by (rule mset_resolver_rows [OF assms(1)])
  have s: "set ?rs = set ?rs'" and l: "length ?rs = length ?rs'" using m by (metis set_mset_mset, metis size_mset)
  have id: "resolver_id r = resolver_id r'" if "res1 k = Some r" "res1' k = Some r'" for r r'
    using processRows_id [OF assms(2) that(1)] processRows_id [OF assms(3) that(2)] resolver_rows_id by metis
  have s1: "sum_list (map f ?rs) = sum_list (map f ?rs')" for f :: "ScanResultResolver \<Rightarrow> int"
    using m by (rule sum_list_mset)
  have s2: "summarise none both (map f ?rs) = summarise none both (map f ?rs')" for none both :: TriBool and f
    by (rule summarise_set_cong) (simp add: s)
  have s3: "summarise none both (map f ?rs) = summarise none both (map f ?rs')" for none both :: string and f
    by (rule summarise_set_cong) (simp add: s)
  have emp: "?rs = [] \<longleftrightarrow> ?rs' = []" using l by auto
  note F = resolver_fields [OF assms(2), of k, unfolded Let_def] and F' = resolver_fields [OF assms(3), of k, unfolded Let_def]
  show ?thesis
  proof (cases "?rs = []")
    case True
    then show ?thesis using F F' emp by simp
  next
    case False
    then obtain r r' where r: "res1 k = Some r" "res1' k = Some r'" using F F' emp by auto
    have ne: "?rs' \<noteq> []" using False emp by simp
    have "sr_QMIN_enabled r = sr_QMIN_enabled r' \<and> sr_Induction_QMIN r = sr_Induction_QMIN r' \<and>
        sr_Nx_optimization r = sr_Nx_optimization r'" using F F' r False ne s2 by simp
    moreover have "sr_Qmin_mode r = sr_Qmin_mode r' \<and> sr_Count r = sr_Count r'" using F F' r False ne s3 l by simp
    moreover have "set (sr_RequestingIPs r) = set (sr_RequestingIPs r')" using F F' r False ne s by simp
    moreover have "\<forall>e. cnt (sr_Errors r) e = cnt (sr_Errors r') e" using F F' r False ne s1 by simp
    ultimately show ?thesis using r id [OF r] by (simp add: resolver_id_def)
  qed
qed

lemma resolver_order_independent_witness:
  "\<exists>r r'. (case processRows ex_db ex_md True ex_rows (Map.empty, Map.empty) of Ret (m, _) \<Rightarrow> m ''udp192.0.2.1'' | Panic _ \<Rightarrow> None) = Some r \<and>
     (case processRows ex_db ex_md True (rev ex_rows) (Map.empty, Map.empty) of Ret (m, _) \<Rightarrow> m ''udp192.0.2.1'' | Panic _ \<Rightarrow> None) = Some r' \<and>
     sr_Nx_optimization r = sr_Nx_optimization r' \<and> sr_Count r = sr_Count r'"
proof -
  have "(case processRows ex_db ex_md True ex_rows (Map.empty, Map.empty) of Ret (m, _) \<Rightarrow> m ''udp192.0.2.1'' \<noteq> None | Panic _ \<Rightarrow> False)"
    by code_simp
  then obtain m1 n1 r where 1: "processRows ex_db ex_md True ex_rows (Map.empty, Map.empty) = Ret (m1, n1)" "m1 ''udp192.0.2.1'' = Some r"
    by (auto split: outcome.splits)
  have "(case processRows ex_db ex_md True (rev ex_rows) (Map.empty, Map.empty) of Ret (m, _) \<Rightarrow> m ''udp192.0.2.1'' \<noteq> None | Panic _ \<Rightarrow> False)"
    by code_simp
  then obtain m2 n2 r' where 2: "processRows ex_db ex_md True (rev ex_rows) (Map.empty, Map.empty) = Ret (m2, n2)" "m2 ''udp192.0.2.1'' = Some r'"
    by (auto split: outcome.splits)
  from resolver_order_independent [OF _ 1(1) 2(1), of "''udp192.0.2.1''"] 1(2) 2(2)
  show ?thesis by (simp add: 1(1) 2(1))
qed

subsection \<open>The entries of pairs\<close>

definition pair_look :: "Metadata \<Rightarrow> ScanResolverPair \<Rightarrow> string" where
  "pair_look md p = md_Protocol md @ sp_Queried_IP p @ sp_RequestingIP p"

lemma snd_add_row:
  "snd (add_row md (r, None) res) = snd res"
  "snd (add_row md (r, Some p) res) = (snd res)(pair_look md p @ sp_QMIN_pattern p \<mapsto>
     (case snd res (pair_look md p) of Some tmp \<Rightarrow> combineResultsPair tmp p | None \<Rightarrow> p))"
  by (cases res, simp add: add_row_def Let_def pair_look_def)+

text \<open>
  Pairs are stored under the bare concatenation of their two addresses: when the second of two
  different pairs has the same concatenation and pattern, it replaces the first, which is lost.
\<close>
theorem pair_keys_collide:
  assumes "sp_Queried_IP p @ sp_RequestingIP p = sp_Queried_IP p' @ sp_RequestingIP p'"
    and "sp_QMIN_pattern p = sp_QMIN_pattern p'" and "sp_QMIN_pattern p \<noteq> []" and "snd res (pair_look md p) = None"
  shows "snd (add_row md (r', Some p') (add_row md (r, Some p) res)) =
    (snd res)(pair_look md p' @ sp_QMIN_pattern p' \<mapsto> p')"
  using assms by (simp add: snd_add_row pair_look_def)

definition ex_pair :: "string \<Rightarrow> string \<Rightarrow> ScanResolverPair" where
  "ex_pair a b = \<lparr>sp_Protocol = ''udp'', sp_Queried_IP = a, sp_Queried_IP_ASN = 0, sp_Queried_IP_Org = [],
     sp_Queried_IP_Country = [], sp_RequestingIP = b, sp_Requesting_IP_ASN = 0, sp_Requesting_IP_Org = [],
     sp_Requesting_IP_Country = [], sp_Resolver_Type = ''unset'', sp_QMIN_enabled = True, sp_QMIN_pattern = ''26TXT-3A'',
     sp_Resolver_pattern_match = [''unset''], sp_Max_min_rfc_9156 = ''2-1'', sp_Count = 1\<rparr>"

lemma pair_keys_collide_witness:
  "ex_pair ''1.1.1.1'' ''21.1.1.1'' \<noteq> ex_pair ''1.1.1.12'' ''1.1.1.1'' \<and>
   (\<forall>r. snd (add_row ex_md (r, Some (ex_pair ''1.1.1.12'' ''1.1.1.1''))
      (add_row ex_md (r, Some (ex_pair ''1.1.1.1'' ''21.1.1.1'')) (Map.empty, Map.empty))) =
    [''udp1.1.1.121.1.1.126TXT-3A'' \<mapsto> ex_pair ''1.1.1.12'' ''1.1.1.1''])"
proof -
  have "sp_Queried_IP (ex_pair ''1.1.1.1'' ''21.1.1.1'') @ sp_RequestingIP (ex_pair ''1.1.1.1'' ''21.1.1.1'') =
      sp_Queried_IP (ex_pair ''1.1.1.12'' ''1.1.1.1'') @ sp_RequestingIP (ex_pair ''1.1.1.12'' ''1.1.1.1'')"
    by (simp add: ex_pair_def)
  from pair_keys_collide [OF this, of "(Map.empty, Map.empty)" ex_md] show ?thesis
    by (simp add: ex_pair_def pair_look_def ex_md_def)
qed

lemma snd_fold_count:
  assumes "\<forall>k p. snd res k = Some p \<longrightarrow> sp_Count p = 1 \<and> (\<exists>q \<in> P. k = pair_look md q @ sp_QMIN_pattern q)"
    and "\<forall>(r, v) \<in> set evs. \<forall>p. v = Some p \<longrightarrow> p \<in> P \<and> sp_Count p = 1"
    and "\<forall>p \<in> P. \<forall>q \<in> P. pair_look md p \<noteq> pair_look md q @ sp_QMIN_pattern q"
  shows "\<forall>k p. snd (fold (add_row md) evs res) k = Some p \<longrightarrow> sp_Count p = 1"
  using assms(1,2)
proof (induction evs arbitrary: res)
  case Nil
  then show ?case by simp
next
  case (Cons e evs)
  obtain r o' where e: "e = (r, o')" by (cases e)
  have "\<forall>k p. snd (add_row md e res) k = Some p \<longrightarrow> sp_Count p = 1 \<and> (\<exists>q \<in> P. k = pair_look md q @ sp_QMIN_pattern q)"
  proof (cases o')
    case None
    with Cons.prems(1) show ?thesis by (simp add: e snd_add_row)
  next
    case (Some p)
    then have p: "p \<in> P" "sp_Count p = 1" using Cons.prems(2) by (auto simp: e)
    have "snd res (pair_look md p) = None"
      using Cons.prems(1) assms(3) p(1) by (cases "snd res (pair_look md p)") blast+
    then show ?thesis using Cons.prems(1) p by (auto simp: e Some snd_add_row)
  qed
  then show ?case using Cons.IH [of "add_row md e res"] Cons.prems(2) by simp
qed

lemma evalRow_pair: "evalRow db md pm row = Ret (r, Some p) \<Longrightarrow> sp_Count p = 1"
  by (auto simp: evalRow_def Let_def split: option.splits prod.splits)

lemma evaluated_pair:
  assumes "(r, Some p) \<in> set (evaluated db md pm rows)"
  shows "sp_Count p = 1"
proof -
  from assms obtain row where "evalRow db md pm row = Ret (r, Some p)"
    by (auto simp: evaluated_def split: outcome.splits; metis)
  then show ?thesis by (rule evalRow_pair)
qed

text \<open>
  The count of a pair is never raised: its entry is looked up under the two addresses and stored
  under the addresses and the pattern, so however many rows show the same pair and pattern, the
  count is 1, unless the addresses of one pair spell those of another with a pattern behind.
\<close>
theorem pair_count_never_raised:
  assumes "processRows db md pm rows (Map.empty, Map.empty) = Ret (res1, res2)"
    and "\<forall>r p r' p'. (r, Some p) \<in> set (evaluated db md pm rows) \<longrightarrow> (r', Some p') \<in> set (evaluated db md pm rows) \<longrightarrow>
      pair_look md p \<noteq> pair_look md p' @ sp_QMIN_pattern p'"
    and "res2 k = Some p"
  shows "sp_Count p = 1"
proof -
  let ?evs = "evaluated db md pm rows"
  let ?P = "{p. \<exists>r. (r, Some p) \<in> set ?evs}"
  have fold: "(res1, res2) = fold (add_row md) ?evs (Map.empty, Map.empty)"
    using processRows_fold [OF assms(1)] evaluated_list_all2 by blast
  have one: "\<forall>(r, v) \<in> set ?evs. \<forall>p. v = Some p \<longrightarrow> p \<in> ?P \<and> sp_Count p = 1"
    using evaluated_pair by blast
  have "\<forall>p \<in> ?P. \<forall>q \<in> ?P. pair_look md p \<noteq> pair_look md q @ sp_QMIN_pattern q" using assms(2) by blast
  from snd_fold_count [of "(Map.empty, Map.empty)" ?P, OF _ one this] have "\<forall>k p. snd (fold (add_row md) ?evs (Map.empty, Map.empty)) k = Some p \<longrightarrow> sp_Count p = 1"
    by simp
  then show ?thesis using assms(3) by (metis fold snd_conv)
qed

lemma pair_count_never_raised_witness:
  "\<exists>res1 res2 p. processRows ex_db ex_md True (ex_rows @ ex_rows) (Map.empty, Map.empty) = Ret (res1, res2) \<and>
     res2 ''udp192.0.2.1198.51.100.75TXT-4A-3A'' = Some p \<and> sp_Count p = 1"
proof -
  have "(case processRows ex_db ex_md True (ex_rows @ ex_rows) (Map.empty, Map.empty) of
      Ret (_, m) \<Rightarrow> m ''udp192.0.2.1198.51.100.75TXT-4A-3A'' \<noteq> None | Panic _ \<Rightarrow> False)" by code_simp
  then obtain m1 m2 p where r: "processRows ex_db ex_md True (ex_rows @ ex_rows) (Map.empty, Map.empty) = Ret (m1, m2)"
    "m2 ''udp192.0.2.1198.51.100.75TXT-4A-3A'' = Some p" by (auto split: outcome.splits)
  have "list_all (\<lambda>(r, v). list_all (\<lambda>(r', v'). case v of None \<Rightarrow> True | Some p \<Rightarrow> (case v' of None \<Rightarrow> True
      | Some p' \<Rightarrow> pair_look ex_md p \<noteq> pair_look ex_md p' @ sp_QMIN_pattern p'))
      (evaluated ex_db ex_md True (ex_rows @ ex_rows))) (evaluated ex_db ex_md True (ex_rows @ ex_rows))" by code_simp
  then have "\<forall>r p r' p'. (r, Some p) \<in> set (evaluated ex_db ex_md True (ex_rows @ ex_rows)) \<longrightarrow>
      (r', Some p') \<in> set (evaluated ex_db ex_md True (ex_rows @ ex_rows)) \<longrightarrow>
      pair_look ex_md p \<noteq> pair_look ex_md p' @ sp_QMIN_pattern p'" by (fastforce simp: list_all_iff)
  from pair_count_never_raised [OF r(1) this r(2)] r show ?thesis by blast
qed

subsection \<open>Stale and unreadable records\<close>

text \<open>
  The record of the requesting address is decoded into the variables that still hold the record of
  the queried address: when the databases know nothing of the requesting address, the pair shows the
  AS number, organisation and country of the queried one as its own.
\<close>
theorem requesting_asn_stale:
  assumes "evalRow db md pm row = Ret (r, Some p)" and "netip_ParseAddr (pq_RequestingIP row) = Some rip"
    and "\<forall>a. gd_asn db rip a = Inr a" and "\<forall>c. gd_country db rip c = Inr c"
  shows "sp_Requesting_IP_ASN p = sr_Queried_IP_ASN r \<and> sp_Requesting_IP_Org p = sr_Queried_IP_Org r \<and>
    sp_Requesting_IP_Country p = sr_Queried_IP_Country r"
  using assms by (auto simp: evalRow_def Let_def fatal_err_def new_result_def split: option.splits prod.splits)

lemma requesting_asn_stale_witness:
  "\<exists>r p. evalRow ex_db ex_md False (ex_row ''198.51.100.7'' ''2_TXT|1_A|c0000201-3-7_A'' False (-1)) = Ret (r, Some p) \<and>
     sp_Requesting_IP_ASN p = 64500 \<and> sp_Requesting_IP_Country p = ''DE''"
proof -
  let ?row = "ex_row ''198.51.100.7'' ''2_TXT|1_A|c0000201-3-7_A'' False (-1)"
  have "(case evalRow ex_db ex_md False ?row of Ret (r, Some p) \<Rightarrow> sr_Queried_IP_ASN r = 64500 \<and> sr_Queried_IP_Country r = ''DE'' | _ \<Rightarrow> False)"
    by code_simp
  then obtain r p where e: "evalRow ex_db ex_md False ?row = Ret (r, Some p)" "sr_Queried_IP_ASN r = 64500" "sr_Queried_IP_Country r = ''DE''"
    by (auto split: outcome.splits option.splits)
  have "netip_ParseAddr (pq_RequestingIP ?row) = Some [198, 51, 100, 7]" by code_simp
  from requesting_asn_stale [OF e(1) this] e show ?thesis by (simp add: ex_db_def)
qed

lemma netip_ParseAddr_http: "netip_ParseAddr (CHR ''h'' # s) = None"
proof -
  have h: "hex_val CHR ''h'' = None" "\<not> is_digit CHR ''h''" by code_simp+
  then have "parse_ipv6 (CHR ''h'' # t) = None" for t
    by (simp add: parse_ipv6_def eval_nat_numeral)
  moreover have "parse_ipv4_fields (CHR ''h'' # s) = None"
  proof -
    obtain t ts where "split_on CHR ''.'' (CHR ''h'' # s) = (CHR ''h'' # t) # ts"
      by (cases "split_on CHR ''.'' s") auto
    moreover have "parse_octet (CHR ''h'' # t) = None" for t using h(2) by (simp add: parse_octet_def parse_nat_def)
    ultimately show ?thesis by (simp add: parse_ipv4_fields_def)
  qed
  ultimately show ?thesis by (simp add: netip_ParseAddr_def split: option.split)
qed

lemma dnsQuery_doh_names_url:
  assumes "qc_Protocol cfg = ''doh''" and "dnsQuery net cfg d server ty w = Ret q"
  shows "\<exists>s. qr_resolverIP q = CHR ''h'' # s"
proof -
  define u where "u = (if \<not> has_prefix server ''https://'' \<and> \<not> has_prefix server ''http://'' then ''https://'' @ server else server)"
  have u: "\<exists>s. u = CHR ''h'' # s"
  proof (cases "has_prefix server ''https://'' \<or> has_prefix server ''http://''")
    case True
    then have "u = server" "take 1 server = ''h''" by (auto simp: u_def has_prefix_def take_Suc_conv_app_nth split: if_splits) (cases server; simp)+
    then show ?thesis by (cases server) auto
  next
    case False
    then show ?thesis by (simp add: u_def)
  qed
  have resp: "evalResponse u r = Ret q \<Longrightarrow> qr_resolverIP q = u" for r
  proof -
    have ans: "evalAnswers u as = Ret q \<Longrightarrow> qr_resolverIP q = u" for as
      by (induction u as rule: evalAnswers.induct)
        (use classified_evalTXT in \<open>auto simp: classified_def\<close>)
    show "evalResponse u r = Ret q \<Longrightarrow> qr_resolverIP q = u"
      using ans by (auto simp: evalResponse_def split: if_splits)
  qed
  have "qr_resolverIP q = u"
    using assms resp classified_evalCommError [of u]
    by (auto simp: dnsQuery_def Let_def u_def [symmetric] classified_def split: sum.splits if_splits prod.splits)
  with u show ?thesis by simp
qed

lemma dnsQueryRoutine_doh:
  assumes "qc_Protocol cfg = ''doh''"
    and "dnsQueryRoutine cfg n1 n2 r1 r2 depth resolver wt wr ty ind mode = Ret q"
  shows "\<exists>s. qr_resolverIP q = CHR ''h'' # s"
proof -
  obtain n d w q1 where "dnsQuery n cfg d (Queried_ip resolver) ty w = Ret q1" and q: "qr_resolverIP q = qr_resolverIP q1"
    using assms(2) by (fastforce simp: dnsQueryRoutine_def Let_def split: if_splits)
  with dnsQuery_doh_names_url [OF assms(1) this(1)] show ?thesis by simp
qed

lemma nx_query_doh:
  assumes "qc_Protocol cfg = ''doh''" and "nx_query cfg n1 n2 d resolver wt wr ty = Ret q"
  shows "\<exists>s. qr_resolverIP q = CHR ''h'' # s"
proof -
  obtain n w q1 where "dnsQuery n cfg d (Queried_ip resolver) ty w = Ret q1" and q: "qr_resolverIP q = qr_resolverIP q1"
    using assms(2) by (fastforce simp: nx_query_def split: if_splits)
  with dnsQuery_doh_names_url [OF assms(1) this(1)] show ?thesis by simp
qed

lemma nxOptiRoutine_doh:
  assumes "qc_Protocol cfg = ''doh''" and "nxOptiRoutine cfg net rnd resolver wt wr ty = Ret q"
  shows "\<exists>s. qr_resolverIP q = CHR ''h'' # s"
proof -
  note nx = nx_query_doh [OF assms(1)]
  obtain d res where a: "nx_query cfg (net 0) (net 1) (''a.'' @ d) resolver wt wr ty = Ret res"
    and rest: "(if qr_status res \<noteq> 4 then Ret (res\<lparr>qr_nxopti := -1\<rparr>)
       else bindO (nx_query cfg (net 2) (net 3) (''b.'' @ d) resolver wt wr ty) (\<lambda>res2.
         if qr_status res2 \<noteq> 4 \<and> qr_status res2 \<noteq> 0 then Ret (res\<lparr>qr_nxopti := -1\<rparr>)
         else if qr_status res2 = 4 then Ret (res2\<lparr>qr_nxopti := 1\<rparr>)
         else if qr_Res res2 = ''false'' then Ret (res2\<lparr>qr_nxopti := 0\<rparr>)
         else Ret res2)) = Ret q"
    using assms(2) unfolding nxOptiRoutine_def by auto
  show ?thesis
  proof (cases "qr_status res = 4")
    case True
    with rest obtain res2 where b: "nx_query cfg (net 2) (net 3) (''b.'' @ d) resolver wt wr ty = Ret res2"
      and "qr_resolverIP q = qr_resolverIP res \<or> qr_resolverIP q = qr_resolverIP res2" by (auto split: if_splits)
    then show ?thesis using nx [OF a] nx [OF b] by auto
  next
    case False
    with rest nx [OF a] show ?thesis by auto
  qed
qed

text \<open>
  C38. The results of a DoH scan cannot be evaluated: the scanner stores the URL it asked as the address
  of the resolver, and evaluating a row of any of the four routines that are started for a resolver
  (the three queries and the NXDOMAIN test) panics in \<open>MustParseAddr\<close>.
\<close>
theorem doh_results_panic:
  assumes "qc_Protocol cfg = ''doh''"
    and "Ret q \<in> set (resolver_routines cfg net rnd tokenDepth timeout retryTimeout resolver)"
  shows "evalRow db md pm (result_row f q) = Panic (PanicError ''ParseAddr'')"
proof -
  have "\<exists>s. qr_resolverIP q = CHR ''h'' # s"
    using assms(2) dnsQueryRoutine_doh [OF assms(1)] nxOptiRoutine_doh [OF assms(1)]
    by (auto simp: resolver_routines_def split: if_splits)
  then show ?thesis by (auto simp: evalRow_def MustParseAddr_def result_row_def netip_ParseAddr_http)
qed

lemma all_Ret: "list_all (\<lambda>r. case r of Ret _ \<Rightarrow> True | Panic _ \<Rightarrow> False) os \<Longrightarrow> \<exists>qs. map Ret qs = os"
proof (induction os)
  case (Cons r os)
  then obtain q qs where "r = Ret q" "map Ret qs = os" by (cases r) auto
  then show ?case by (intro exI [of _ "q # qs"]) simp
qed simp

lemma doh_results_panic_witness:
  "\<exists>qs. map Ret qs = resolver_routines (ex_qcfg\<lparr>qc_Protocol := ''doh''\<rparr>) (\<lambda>_. net_of (Inl [])) (\<lambda>_. 1) 3 1000 2000
       \<lparr>Queried_ip = ''192.0.2.1'', Resolver_type = ''doh''\<rparr> \<and> length qs = 4 \<and>
     (\<forall>q \<in> set qs. evalRow ex_db ex_md True (result_row ''in.txt'' q) = Panic (PanicError ''ParseAddr''))"
proof -
  let ?c = "ex_qcfg\<lparr>qc_Protocol := ''doh''\<rparr>"
  let ?os = "resolver_routines ?c (\<lambda>_. net_of (Inl [])) (\<lambda>_. 1) 3 1000 2000
       \<lparr>Queried_ip = ''192.0.2.1'', Resolver_type = ''doh''\<rparr>"
  have "list_all (\<lambda>r. case r of Ret _ \<Rightarrow> True | Panic _ \<Rightarrow> False) ?os \<and> length ?os = 4" by code_simp
  then have l: "list_all (\<lambda>r. case r of Ret _ \<Rightarrow> True | Panic _ \<Rightarrow> False) ?os" "length ?os = 4" by blast+
  from all_Ret [OF l(1)] obtain qs where m: "map Ret qs = ?os" by blast
  have "length (map Ret qs) = 4" unfolding m by (rule l(2))
  with m have qs: "map Ret qs = ?os" "length qs = 4" unfolding length_map by blast+
  have "evalRow ex_db ex_md True (result_row ''in.txt'' q) = Panic (PanicError ''ParseAddr'')" if "q \<in> set qs" for q
  proof (rule doh_results_panic)
    show "qc_Protocol ?c = ''doh''" by simp
    show "Ret q \<in> set ?os" unfolding qs(1) [symmetric] using that by simp
  qed
  with qs show ?thesis by blast
qed

subsection \<open>Files and directories\<close>

text \<open>
  The file system as the code sees it: whether \<open>os.Stat\<close> says a path does not exist, the directories
  \<open>WalkDir\<close> visits (\<open>None\<close> if the root cannot be read), and the contents of the two files.
\<close>

record file_system =
  fs_notexist :: "string \<Rightarrow> bool"
  fs_walk :: "string \<Rightarrow> string list option"
  fs_metadata :: "string \<Rightarrow> string + Metadata"
  fs_rows :: "string \<Rightarrow> string + ParquetQueryResult list"

definition getValidInputDirectories :: "file_system \<Rightarrow> string \<Rightarrow> bool \<Rightarrow> string list outcome" where
  "getValidInputDirectories fs basePath skipMetadataCondition =
     (case fs_walk fs basePath of
        None \<Rightarrow> Panic (PanicError ''nil pointer dereference'')
      | Some dirs \<Rightarrow> Ret (filter (\<lambda>path. \<not> fs_notexist fs (path @ ''/result.parquet'') \<and>
            (skipMetadataCondition \<or> \<not> fs_notexist fs (path @ ''/metadata.json''))) dirs))"

definition processFile ::
  "file_system \<Rightarrow> geo_db \<Rightarrow> bool \<Rightarrow> string \<Rightarrow> string \<Rightarrow> results \<Rightarrow> (results \<times> Metadata) outcome" where
  "processFile fs db pm dirPath metadata_path res =
     bindO (fatal_err (fs_rows fs (dirPath @ ''/result.parquet''))) (\<lambda>rows.
     bindO (fatal_err (fs_metadata fs (if metadata_path = [] then dirPath @ ''/metadata.json'' else metadata_path))) (\<lambda>md.
     bindO (processRows db md pm rows res) (\<lambda>res'. Ret (res', md))))"

fun processFiles :: "file_system \<Rightarrow> geo_db \<Rightarrow> bool \<Rightarrow> string list \<Rightarrow> string \<Rightarrow> results \<Rightarrow> results outcome" where
  "processFiles fs db pm [] metadata_path res = Ret res"
| "processFiles fs db pm (d # ds) metadata_path res =
     bindO (processFile fs db pm d metadata_path res) (\<lambda>(res', _). processFiles fs db pm ds metadata_path res')"

text \<open>\<open>None\<close>: the directory is skipped and nothing is written.\<close>

definition startFileProcessing ::
  "file_system \<Rightarrow> geo_db \<Rightarrow> bool \<Rightarrow> bool \<Rightarrow> string \<Rightarrow> string \<Rightarrow> (results \<times> Metadata option) option outcome" where
  "startFileProcessing fs db pm combine metadata_path inputPath =
     (if combine then
        bindO (getValidInputDirectories fs inputPath (metadata_path \<noteq> [])) (\<lambda>dirs.
        bindO (processFiles fs db pm dirs metadata_path (Map.empty, Map.empty)) (\<lambda>res. Ret (Some (res, None))))
      else if fs_notexist fs (inputPath @ ''/result.parquet'') then Ret None
      else if fs_notexist fs metadata_path then Ret None
      else bindO (processFile fs db pm inputPath metadata_path (Map.empty, Map.empty)) (\<lambda>(res, md). Ret (Some (res, Some md))))"

text \<open>The runs of \<open>StartPostProcessing\<close>: the output directory of each, and what is written there.\<close>

definition StartPostProcessing ::
  "file_system \<Rightarrow> geo_db \<Rightarrow> string \<Rightarrow> string \<Rightarrow> bool \<Rightarrow> string \<Rightarrow> bool \<Rightarrow> bool \<Rightarrow> string \<Rightarrow>
     (string \<times> (results \<times> Metadata option) option) list outcome" where
  "StartPostProcessing fs db fileName inputPath recursive outpath pm combine metadata_path =
     (let outputPath = (if outpath \<noteq> [] then (if has_suffix outpath ''/'' then outpath else outpath @ ''/'')
                        else ''./data/processed/qmin/'') in
      if recursive \<and> \<not> combine then
        bindO (getValidInputDirectories fs inputPath (metadata_path \<noteq> [])) (\<lambda>dirs.
          sequenceO (map (\<lambda>dir. bindO (startFileProcessing fs db pm False metadata_path dir)
            (\<lambda>r. Ret (outputPath @ fileName @ ''/'' @ last (split_on CHR ''/'' dir), r))) dirs))
      else bindO (startFileProcessing fs db pm combine metadata_path inputPath)
             (\<lambda>r. Ret [(outputPath @ fileName, r)]))"

text \<open>
  Without an explicit metadata file nothing is processed unless directories are combined: the
  default \<open>metadata.json\<close> of a directory is only filled in by \<open>processFile\<close>, behind the test
  whether the empty path exists. Every run is skipped, whatever the directories hold.
\<close>
theorem default_metadata_skips:
  assumes "fs_notexist fs []"
    and "StartPostProcessing fs db fileName inputPath recursive outpath pm False [] = Ret outs"
  shows "\<forall>(dir, written) \<in> set outs. written = None"
proof -
  have s: "startFileProcessing fs db pm False [] d = Ret None" for d
    using assms(1) by (simp add: startFileProcessing_def)
  have h: "sequenceO (map (\<lambda>d. Ret (g d, None)) ds) = Ret outs \<Longrightarrow> (a, b) \<in> set outs \<Longrightarrow> b = None"
    for g :: "string \<Rightarrow> string" and ds and a :: string and b :: "(results \<times> Metadata option) option" and outs
    by (induction ds arbitrary: outs) auto
  show ?thesis using assms(2) by (auto simp: StartPostProcessing_def s Let_def split: if_splits intro: h)
qed

definition ex_fs :: file_system where
  "ex_fs = \<lparr>fs_notexist = (\<lambda>p. p = []), fs_walk = (\<lambda>_. Some [''d'', ''d/test1'']), fs_metadata = (\<lambda>_. Inr ex_md),
     fs_rows = (\<lambda>_. Inr ex_rows)\<rparr>"

lemma default_metadata_skips_witness:
  "\<exists>outs. StartPostProcessing ex_fs ex_db ''now'' ''d'' True [] True False [] = Ret outs \<and> length outs = 2 \<and>
     (\<forall>(dir, written) \<in> set outs. written = None)"
proof -
  have "StartPostProcessing ex_fs ex_db ''now'' ''d'' True [] True False [] =
      Ret [(''./data/processed/qmin/now/d'', None), (''./data/processed/qmin/now/test1'', None)]"
    by (simp add: StartPostProcessing_def startFileProcessing_def getValidInputDirectories_def ex_fs_def)
  with default_metadata_skips [OF _ this] show ?thesis by (simp add: ex_fs_def)
qed

end
