(* ===== verification/QminEndToEnd.thy ===== *)
theory QminEndToEnd
  imports QminExchange PostProc
begin

section \<open>The QMIN measurement from the name to the pattern\<close>

text \<open>
  The three programs of the measurement together: the scanner makes a name, the name server records
  how a resolver asks for it, the scanner takes the record out of the answer, and the
  post-processing turns it into a pattern.
\<close>

subsection \<open>The name of a probe\<close>

lemma hex_char_token: "d < 16 \<Longrightarrow> hex_char d \<notin> {CHR ''-'', CHR ''.'', CHR ''_'', CHR '','', CHR ''|''}"
proof -
  assume "d < 16"
  then have "(of_char (hex_char d) :: nat) \<in> {48..57} \<union> {97..102}" by (auto simp: hex_char_def)
  moreover have "(of_char CHR ''-'' :: nat) = 45" "(of_char CHR ''.'' :: nat) = 46" "(of_char CHR ''_'' :: nat) = 95"
    "(of_char CHR '','' :: nat) = 44" "(of_char CHR ''|'' :: nat) = 124" by simp_all
  ultimately show ?thesis by auto
qed

lemma unat_u8_div16: "unat (b :: u8) div 16 < 16"
  using unsigned_less [of b, where ?'a = nat] by simp

lemma hex2_chars: "c \<in> set (hex2 b) \<Longrightarrow> c \<notin> {CHR ''-'', CHR ''.'', CHR ''_'', CHR '','', CHR ''|''}"
  unfolding hex2_def using hex_char_token [OF unat_u8_div16 [of b]] hex_char_token [of "unat b mod 16"] by auto

definition clean :: "string \<Rightarrow> bool" where
  "clean s \<longleftrightarrow> set s \<inter> {CHR ''.'', CHR ''_'', CHR '','', CHR ''|''} = {}"

definition hex_ip :: "ip \<Rightarrow> string" where
  "hex_ip a = concat (map hex2 a)"

lemma hex_ip_token:
  assumes "length a = 4"
  shows "token_part (hex_ip a)" "clean (hex_ip a)" "length (hex_ip a) = 8"
proof -
  obtain b1 b2 b3 b4 where a: "a = [b1, b2, b3, b4]" using assms by (auto simp: numeral_eq_Suc length_Suc_conv)
  have c: "c \<in> set (hex_ip a) \<Longrightarrow> c \<notin> {CHR ''-'', CHR ''.'', CHR ''_'', CHR '','', CHR ''|''}" for c
    unfolding hex_ip_def a using hex2_chars by fastforce
  show "length (hex_ip a) = 8" by (simp add: hex_ip_def a hex2_def)
  then show "token_part (hex_ip a)" using c unfolding token_part_def by fastforce
  show "clean (hex_ip a)" using c unfolding clean_def by blast
qed

lemma itoa_token: "0 \<le> i \<Longrightarrow> token_part (itoa i) \<and> clean (itoa i)"
proof -
  assume i: "0 \<le> i"
  have "\<not> is_digit CHR ''.''" "\<not> is_digit CHR ''_''" "\<not> is_digit CHR ''-''" "\<not> is_digit CHR '',''" "\<not> is_digit CHR ''|''"
    by (simp_all add: is_digit_def)
  then have "set (itoa i) \<inter> {CHR ''-'', CHR ''.'', CHR ''_'', CHR '','', CHR ''|''} = {}" using itoa_chars [OF i] by auto
  then show ?thesis using itoa_label [OF i] by (auto simp: token_part_def clean_def)
qed

definition probe_token :: "ip \<Rightarrow> nat \<Rightarrow> int \<Rightarrow> string" where
  "probe_token a d r = id_token (hex_ip a) (itoa (int d)) (itoa r)"

definition probe_labels :: "ip \<Rightarrow> nat \<Rightarrow> int \<Rightarrow> string list" where
  "probe_labels a d r = numbers (d - 1) @ [probe_token a d r]"

lemma probe_token_facts:
  assumes "length a = 4" and "0 \<le> r"
  shows "10 \<le> length (probe_token a d r)" "clean (probe_token a d r)" "CHR ''-'' \<in> set (probe_token a d r)"
    "split_on CHR ''-'' (probe_token a d r) = [hex_ip a, itoa (int d), itoa r]"
    "token_part (hex_ip a)" "token_part (itoa (int d))" "token_part (itoa r)"
proof -
  note h = hex_ip_token [OF assms(1)] and d = itoa_token [of "int d"] and r = itoa_token [OF assms(2)]
  show "token_part (hex_ip a)" "token_part (itoa (int d))" "token_part (itoa r)" using h d r by simp_all
  then show "split_on CHR ''-'' (probe_token a d r) = [hex_ip a, itoa (int d), itoa r]"
    unfolding probe_token_def by (rule split_id_token(1))
  show "CHR ''-'' \<in> set (probe_token a d r)" by (simp add: probe_token_def id_token_def)
  show "10 \<le> length (probe_token a d r)" by (simp add: probe_token_def id_token_def h(3))
  show "clean (probe_token a d r)" using h(2) d r by (auto simp: clean_def probe_token_def id_token_def)
qed

lemma parse_int_val_itoa: "0 \<le> i \<Longrightarrow> i < 2 ^ 63 \<Longrightarrow> parse_int_val (itoa i) = i"
proof -
  assume i: "0 \<le> i" "i < 2 ^ 63"
  have it: "itoa i = nat_digits (nat i)" using i by (simp add: itoa_def)
  obtain c t where ct: "nat_digits (nat i) = c # t" by (meson nat_digits_neq_Nil list.exhaust)
  then have "is_digit c" using nat_digits_chars [of c "nat i"] by simp
  from is_digit_not_sign [OF this] have "c \<noteq> CHR ''-''" "c \<noteq> CHR ''+''" by simp_all
  moreover have "parse_nat (c # t) = Some (nat i)" using parse_nat_nat_digits [of "nat i"] by (simp only: ct)
  ultimately show ?thesis using i by (simp add: parse_int_val_def it ct)
qed

lemma probe_labels_token:
  assumes "length a = 4" and "0 \<le> r" and "1 \<le> d" and "int d < 2 ^ 63"
  shows "good_labels (probe_labels a d r)" "token_of (probe_labels a d r) (int (length (probe_labels a d r))) False"
    "length (probe_labels a d r) = d" "last (probe_labels a d r) = probe_token a d r"
proof -
  note t = probe_token_facts [OF assms(1,2)]
  obtain e where e: "d = Suc e" using assms(3) by (cases d) auto
  note gl = id_token_labels [OF t(5-7) t(1) [unfolded probe_token_def]]
  have p: "parse_int_val (itoa (int d)) = int (Suc e)" using parse_int_val_itoa [of "int d"] assms(4) e by simp
  show "good_labels (probe_labels a d r)" using gl(1) [OF p] by (simp add: probe_labels_def probe_token_def e)
  show "token_of (probe_labels a d r) (int (length (probe_labels a d r))) False"
    using gl(3) [OF p] by (simp add: probe_labels_def probe_token_def e)
  show "length (probe_labels a d r) = d" "last (probe_labels a d r) = probe_token a d r"
    using assms(3) by (simp_all add: probe_labels_def)
qed

lemma domainAssembly_probe:
  assumes "netip_ParseAddr server = Some a" and "length a = 4" and "0 < qc_RandMax cfg"
  shows "domainAssembly cfg rnd server (int d) False False False =
    Ret (join_with ''.'' (probe_labels a d (rnd mod qc_RandMax cfg)) @ ''.'' @ qc_BaseURL cfg)"
proof -
  have "nat (int d - 1) = d - 1" by simp
  then show ?thesis using assms
    by (simp add: domainAssembly_def targetToHex_def rand_Intn_def Let_def probe_labels_def probe_token_def id_token_def
        hex_ip_def countdown_join [symmetric])
qed

subsection \<open>The pattern of a recorded sequence\<close>

lemma count_split: "count_list s c = length (split_on c s) - 1"
  by (simp add: length_split_on)

lemma count_list_append: "count_list (xs @ ys) c = count_list xs c + count_list ys c"
  by (induction xs) auto

lemma count_list_absent: "c \<notin> set xs \<Longrightarrow> count_list xs c = 0"
  by (induction xs) auto

lemma low_probe:
  assumes "1 \<le> n" and "n \<le> d"
  shows "low (probe_labels a d r) n = numbers (n - 1) @ [probe_token a d r]"
proof -
  have "drop (k - j) (numbers k) = numbers j" if "j \<le> k" for j k
    using that by (induction k) (auto simp: Suc_diff_le le_Suc_eq)
  from this [of "n - 1" "d - 1"] assms show ?thesis by (simp add: low_def probe_labels_def)
qed

lemma numbers_take: "set (take k (numbers n)) \<subseteq> itoa ` {0..}"
proof -
  have "set (numbers n) \<subseteq> itoa ` {0..}" by (induction n) (auto simp del: of_nat_Suc)
  then show ?thesis using set_take_subset by fastforce
qed

text \<open>The labels a query adds: numbers from \<open>n - 1\<close> down, and the id token in the first one.\<close>

lemma added_labels:
  assumes "i < n" and "n \<le> d"
  shows "take (n - i) (low (probe_labels a d r) n) =
      (if n = 1 then [probe_token a d r]
       else itoa (int (n - 1)) # take (n - i - 1) (numbers (n - 2)) @ (if i = 0 then [probe_token a d r] else []))"
proof -
  have low: "low (probe_labels a d r) n = numbers (n - 1) @ [probe_token a d r]" by (rule low_probe) (use assms in auto)
  show ?thesis
  proof (cases "n = 1")
    case True
    with assms low show ?thesis by simp
  next
    case False
    then have "n = Suc (Suc (n - 2))" using assms(1) by arith
    then obtain m where m: "n = Suc (Suc m)" by blast
    have "take (n - i) (numbers (Suc m) @ [probe_token a d r]) =
        itoa (int (Suc m)) # take (n - i - 1) (numbers m @ [probe_token a d r])"
      using assms(1) m by (cases "n - i") auto
    moreover have "take (n - i - 1) (numbers m @ [probe_token a d r]) =
        take (n - i - 1) (numbers m) @ (if i = 0 then [probe_token a d r] else [])"
      using assms(1) m by auto
    ultimately show ?thesis using False low m by (simp del: of_nat_Suc numbers.simps)
  qed
qed

definition clean_types :: "dns_pkg \<Rightarrow> bool" where
  "clean_types pkg \<longleftrightarrow> (\<forall>t. clean (type_to_string pkg t))"

lemma added_clean:
  assumes "length a = 4" and "0 \<le> r" and "i < n" and "n \<le> d"
  shows "\<forall>x \<in> set (take (n - i) (low (probe_labels a d r) n)). clean x"
    "take (n - i) (low (probe_labels a d r) n) \<noteq> []"
proof -
  have "clean (itoa (int k))" for k using itoa_token [of "int k"] by simp
  moreover have "clean x" if "x \<in> set (take k (numbers j))" for x k j
    using that numbers_take [of k j] itoa_token by fastforce
  moreover have "clean (probe_token a d r)" by (rule probe_token_facts(2) [OF assms(1,2)])
  ultimately show "\<forall>x \<in> set (take (n - i) (low (probe_labels a d r) n)). clean x"
    unfolding added_labels [OF assms(3,4)] by auto
  show "take (n - i) (low (probe_labels a d r) n) \<noteq> []" unfolding added_labels [OF assms(3,4)] by simp
qed

lemma piece_splits:
  fixes ty :: u16
  assumes "length a = 4" and "0 \<le> r" and "i < n" and "n \<le> d" and "clean_types pkg"
  defines "ls \<equiv> take (n - i) (low (probe_labels a d r) n)"
  defines "p \<equiv> piece pkg (probe_labels a d r) i n ty"
  shows "split_on CHR ''_'' p = [join_with ''.'' ls, type_to_string pkg ty]"
    "split_on CHR ''.'' (join_with ''.'' ls) = ls" "count_list p CHR ''.'' = length ls - 1"
    "CHR ''|'' \<notin> set p" "CHR '','' \<notin> set p"
proof -
  note cl = added_clean [OF assms(1-4), folded ls_def]
  have T: "clean (type_to_string pkg ty)" using assms(5) by (simp add: clean_types_def)
  have p: "p = join_with ''.'' ls @ ''_'' @ type_to_string pkg ty" by (simp add: p_def piece_def ls_def)
  have j: "c \<notin> set (join_with ''.'' ls)" if "c \<in> {CHR ''_'', CHR '','', CHR ''|''}" for c
  proof
    assume "c \<in> set (join_with ''.'' ls)"
    with set_join_with [OF this] that cl(1) show False by (auto simp: clean_def)
  qed
  show "split_on CHR ''_'' p = [join_with ''.'' ls, type_to_string pkg ty]"
    using j T by (simp add: p split_on_append_sep split_on_no_sep clean_def)
  show s: "split_on CHR ''.'' (join_with ''.'' ls) = ls"
    using cl by (intro split_on_join) (auto simp: clean_def)
  show "count_list p CHR ''.'' = length ls - 1"
    using T by (simp add: p count_list_append count_split [of "join_with ''.'' ls"] s count_list_absent clean_def)
  show "CHR ''|'' \<notin> set p" "CHR '','' \<notin> set p" using j T by (auto simp: p clean_def)
qed

lemma atoi_itoa_nat: "int k < 2 ^ 63 \<Longrightarrow> atoi (itoa (int k)) = Some (int k)"
  by (rule atoi_itoa) simp_all

lemma pattern_part_number:
  assumes "split_on CHR ''_'' p = [jl, ty]" and "split_on CHR ''.'' jl = itoa (int k) # ls" and "int k < 2 ^ 63"
  shows "pattern_part base p (pat, mn, rch) = Ret (itoa (int k + 1 + int base) @ ty @ ''-'' @ pat,
    if \<not> rch \<and> count_list p CHR ''.'' = 0 then mn + 1 else mn, rch \<or> count_list p CHR ''.'' \<noteq> 0)"
proof -
  have "CHR ''-'' \<notin> set (itoa (int k))" using itoa_token [of "int k"] by (simp add: token_part_def)
  then show ?thesis using assms atoi_itoa_nat [OF assms(3)] by (simp add: pattern_part_def Let_def)
qed

lemma pattern_part_token:
  assumes "split_on CHR ''_'' p = [jl, ty]" and "split_on CHR ''.'' jl = [t]" and "CHR ''-'' \<in> set t"
  shows "pattern_part base p (pat, mn, rch) = Ret (itoa (1 + int base) @ ty,
    if \<not> rch \<and> count_list p CHR ''.'' = 0 then mn + 1 else mn, rch \<or> count_list p CHR ''.'' \<noteq> 0)"
  using assms by (simp add: pattern_part_def Let_def)

text \<open>What the loop of \<open>analyzePattern\<close> does with one recorded query.\<close>

lemma pattern_part_piece:
  assumes "length a = 4" and "0 \<le> r" and "i < n" and "n \<le> d" and "clean_types pkg" and "int d < 2 ^ 63"
  shows "pattern_part base (piece pkg (probe_labels a d r) i n ty) (pat, mn, rch) =
    Ret (itoa (int n + int base) @ type_to_string pkg ty @ (if n = 1 then [] else ''-'' @ pat),
         if \<not> rch \<and> n = Suc i then mn + 1 else mn, rch \<or> n \<noteq> Suc i)"
proof -
  let ?ls = "take (n - i) (low (probe_labels a d r) n)"
  note s = piece_splits [OF assms(1-5)]
  have len: "length ?ls = n - i" using assms(3,4) low_probe [of n d a r] by simp
  have single: "count_list (piece pkg (probe_labels a d r) i n ty) CHR ''.'' = 0 \<longleftrightarrow> n = Suc i"
    using s(3) len assms(3) by auto
  show ?thesis
  proof (cases "n = 1")
    case True
    then have ls: "?ls = [probe_token a d r]" using added_labels [OF assms(3,4)] by simp
    have "split_on CHR ''.'' (join_with ''.'' ?ls) = [probe_token a d r]" using s(2) unfolding ls .
    with probe_token_facts(3) [OF assms(1,2)]
    have "pattern_part base (piece pkg (probe_labels a d r) i n ty) (pat, mn, rch) =
      Ret (itoa (1 + int base) @ type_to_string pkg ty, if \<not> rch \<and> n = Suc i then mn + 1 else mn, rch \<or> n \<noteq> Suc i)"
      using pattern_part_token [OF s(1) [of ty], unfolded single] by blast
    with True show ?thesis by simp
  next
    case False
    then obtain ls' where ls: "?ls = itoa (int (n - 1)) # ls'" using added_labels [OF assms(3,4)] by simp
    have "int (n - 1) < 2 ^ 63" using assms(4,6) by simp
    moreover have "split_on CHR ''.'' (join_with ''.'' ?ls) = itoa (int (n - 1)) # ls'" using s(2) ls by argo
    ultimately have "pattern_part base (piece pkg (probe_labels a d r) i n ty) (pat, mn, rch) =
      Ret (itoa (int (n - 1) + 1 + int base) @ type_to_string pkg ty @ ''-'' @ pat,
        if \<not> rch \<and> n = Suc i then mn + 1 else mn, rch \<or> n \<noteq> Suc i)"
      using pattern_part_number [OF s(1) [of ty], unfolded single] by blast
    with False
    show ?thesis unfolding single using assms(3) by (simp add: of_nat_diff)
  qed
qed

text \<open>
  The pattern a sequence of queries should give: per query its number of labels, those of the base
  domain included, and its type, the last query first. The loop of the code leaves a dash behind
  a first query that is longer than the id token. The estimate \<open>min\<close> is the number of leading queries
  that add one label each.
\<close>

definition stages :: "dns_pkg \<Rightarrow> nat \<Rightarrow> steps \<Rightarrow> string list" where
  "stages pkg base sts = map (\<lambda>(t, q, n). itoa (int n + int base) @ type_to_string pkg (qn_type q)) sts"

definition pattern_of :: "dns_pkg \<Rightarrow> nat \<Rightarrow> steps \<Rightarrow> string" where
  "pattern_of pkg base sts = join_with ''-'' (rev (stages pkg base sts)) @ (if snd (snd (hd sts)) = 1 then [] else ''-'')"

fun singles :: "nat \<Rightarrow> steps \<Rightarrow> nat" where
  "singles i [] = 0"
| "singles i ((t, q, n) # r) = (if n = Suc i then Suc (singles n r) else 0)"

lemma join_dash: "join_with ''-'' (rev xs @ [x]) = concat (map (\<lambda>s. s @ ''-'') (rev xs)) @ x"
proof (induction xs rule: rev_induct)
  case Nil
  then show ?case by simp
next
  case (snoc y xs)
  then show ?case by (simp add: join_with_Cons)
qed

lemma pattern_parts_steps:
  assumes "length a = 4" and "0 \<le> r" and "clean_types pkg" and "int d < 2 ^ 63"
    and "ascending srv (probe_labels a d r) i sts" and "reaches i sts \<le> d" and "1 \<le> i"
  shows "\<exists>rch'. pattern_parts base (rev (pieces pkg (probe_labels a d r) i sts)) (pat, mn, rch) =
    Ret (concat (map (\<lambda>s. s @ ''-'') (rev (stages pkg base sts))) @ pat, if rch then mn else mn + int (singles i sts), rch')"
  using assms(5-7)
proof (induction sts arbitrary: i pat mn rch)
  case Nil
  then show ?case by (simp add: stages_def)
next
  case (Cons st sts)
  obtain t q n where st: "st = (t, q, n)" by (cases st)
  let ?L = "probe_labels a d r"
  have i: "i < n" and asc: "ascending srv ?L n sts" and re: "reaches n sts \<le> d" using Cons.prems by (simp_all add: st)
  have n: "n \<le> d" "1 \<le> n" "n \<noteq> 1" using ascending_reaches [OF asc] re i Cons.prems(3) by auto
  let ?pat = "itoa (int n + int base) @ type_to_string pkg (qn_type q) @ ''-'' @ pat"
  have p: "pattern_part base (piece pkg ?L i n (qn_type q)) (pat, mn, rch) =
      Ret (?pat, if \<not> rch \<and> n = Suc i then mn + 1 else mn, rch \<or> n \<noteq> Suc i)"
    using pattern_part_piece [OF assms(1,2) i n(1) assms(3,4)] n(3) by simp
  obtain rch' where "pattern_parts base (rev (pieces pkg ?L n sts))
      (?pat, if \<not> rch \<and> n = Suc i then mn + 1 else mn, rch \<or> n \<noteq> Suc i) =
      Ret (concat (map (\<lambda>s. s @ ''-'') (rev (stages pkg base sts))) @ ?pat,
        if rch \<or> n \<noteq> Suc i then (if \<not> rch \<and> n = Suc i then mn + 1 else mn)
        else (if \<not> rch \<and> n = Suc i then mn + 1 else mn) + int (singles n sts), rch')"
    using Cons.IH [OF asc re n(2)] by blast
  then show ?case using p by (auto simp: st stages_def)
qed

lemma pieces_no_bar:
  assumes "length a = 4" and "0 \<le> r" and "clean_types pkg"
    and "ascending srv (probe_labels a d r) i sts" and "reaches i sts \<le> d"
  shows "\<forall>p \<in> set (pieces pkg (probe_labels a d r) i sts). CHR ''|'' \<notin> set p \<and> CHR '','' \<notin> set p"
  using assms(4,5)
proof (induction sts arbitrary: i)
  case Nil
  then show ?case by simp
next
  case (Cons st sts)
  obtain t q n where st: "st = (t, q, n)" by (cases st)
  have i: "i < n" and asc: "ascending srv (probe_labels a d r) n sts" and re: "reaches n sts \<le> d"
    using Cons.prems by (simp_all add: st)
  have "n \<le> d" using ascending_reaches [OF asc] re by simp
  with Cons.IH [OF asc re] piece_splits(4,5) [OF assms(1,2) i _ assms(3)] show ?case by (auto simp: st)
qed

lemma length_pieces [simp]: "length (pieces pkg L i sts) = length sts"
  by (induction pkg L i sts rule: pieces.induct) auto

lemma pattern_of_steps:
  assumes "length a = 4" and "0 \<le> r" and "clean_types pkg" and "int d < 2 ^ 63"
    and "ascending srv (probe_labels a d r) 0 sts" and "reaches 0 sts \<le> d" and "2 \<le> length sts"
  shows "analyzePattern (join_with ''|'' (pieces pkg (probe_labels a d r) 0 sts)) md =
    Ret (True, pattern_of pkg (baseDomainLabelCount (md_BaseURL md)) sts, int (length sts), int (singles 0 sts))"
proof -
  let ?L = "probe_labels a d r" and ?base = "baseDomainLabelCount (md_BaseURL md)"
  obtain t q n r' where sts: "sts = (t, q, n) # r'" using assms(7) by (cases sts) auto
  have n: "0 < n" and asc: "ascending srv ?L n r'" and re: "reaches n r' \<le> d" using assms(5,6) by (simp_all add: sts)
  have nd: "n \<le> d" using ascending_reaches [OF asc] re by simp
  have ne: "pieces pkg ?L 0 sts \<noteq> []" by (simp add: sts)
  have split: "split_on CHR ''|'' (join_with ''|'' (pieces pkg ?L 0 sts)) = pieces pkg ?L 0 sts"
    using split_on_join [OF ne] pieces_no_bar [OF assms(1-3,5,6)] by blast
  have bars: "count_list (join_with ''|'' (pieces pkg ?L 0 sts)) CHR ''|'' = length sts - 1"
    by (simp add: count_split split)
  then have bar: "CHR ''|'' \<in> set (join_with ''|'' (pieces pkg ?L 0 sts))"
    using assms(7) by (metis count_list_absent Suc_1 diff_is_0_eq not_less_eq_eq)
  have first: "pattern_part ?base (piece pkg ?L 0 n (qn_type q)) ([], 0, False) =
      Ret (itoa (int n + int ?base) @ type_to_string pkg (qn_type q) @ (if n = 1 then [] else ''-''),
        if n = 1 then 1 else 0, n \<noteq> 1)"
    using pattern_part_piece [OF assms(1,2) n nd assms(3,4)] by simp
  obtain rch' where rest: "pattern_parts ?base (rev (pieces pkg ?L n r'))
      (itoa (int n + int ?base) @ type_to_string pkg (qn_type q) @ (if n = 1 then [] else ''-''), if n = 1 then 1 else 0, n \<noteq> 1) =
    Ret (concat (map (\<lambda>s. s @ ''-'') (rev (stages pkg ?base r'))) @ itoa (int n + int ?base) @ type_to_string pkg (qn_type q) @
        (if n = 1 then [] else ''-''),
      if n \<noteq> 1 then (if n = 1 then 1 else 0) else (if n = 1 then 1 else 0) + int (singles n r'), rch')"
    using pattern_parts_steps [OF assms(1-4) asc re] n by (metis One_nat_def Suc_leI)
  have pat: "pattern_of pkg ?base sts = concat (map (\<lambda>s. s @ ''-'') (rev (stages pkg ?base r'))) @
      itoa (int n + int ?base) @ type_to_string pkg (qn_type q) @ (if n = 1 then [] else ''-'')"
    by (simp add: pattern_of_def sts stages_def join_dash [unfolded stages_def])
  have len: "int (length sts - 1) + 1 = int (length sts)" using assms(7) by simp
  have "rev (pieces pkg ?L 0 sts) = piece pkg ?L 0 n (qn_type q) # rev (pieces pkg ?L n r')" by (simp add: sts)
  then have "pattern_parts ?base (rev (pieces pkg ?L 0 sts)) ([], 0, False) =
      Ret (pattern_of pkg ?base sts, int (singles 0 sts), rch')"
    using rest unfolding pat by (simp add: first) (simp add: sts)
  then show ?thesis using bar len unfolding analyzePattern_def Let_def split bars by simp
qed

lemma pattern_of_single:
  assumes "length a = 4" and "0 \<le> r" and "clean_types pkg" and "2 \<le> d"
  shows "analyzePattern (piece pkg (probe_labels a d r) 0 d ty) md =
    Ret (False, itoa (int d + int (baseDomainLabelCount (md_BaseURL md))) @ type_to_string pkg ty, 1, 1)"
proof -
  have d: "0 < d" using assms(4) by simp
  note s = piece_splits [OF assms(1,2) d order_refl assms(3)]
  have len: "length (take (d - 0) (low (probe_labels a d r) d)) = d" using low_probe [of d d a r] d by simp
  have c: "count_list (piece pkg (probe_labels a d r) 0 d ty) CHR ''.'' = d - 1" using s(3) len by simp
  then have dot: "CHR ''.'' \<in> set (piece pkg (probe_labels a d r) 0 d ty)"
    using assms(4) by (metis count_list_absent Suc_1 diff_is_0_eq not_less_eq_eq)
  have "int (d - 1) + 1 = int d" using d by simp
  then show ?thesis using dot s(4) unfolding analyzePattern_def Let_def s(1) c by simp
qed

lemma evalTXT_fields:
  assumes "CHR '','' \<notin> set r" and "CHR '','' \<notin> set p"
  shows "evalTXT server (r @ '','' @ p @ '',NULL,NULL'') = (none_result server 0 p)\<lparr>qr_requestingIP := r,
    qr_inductionRequester := ''NULL'', qr_inductionPattern := ''NULL''\<rparr>"
proof -
  have "split_on CHR '','' (r @ '','' @ p @ '',NULL,NULL'') = [r, p, ''NULL'', ''NULL'']"
    using assms by (simp add: split_on_append_sep split_on_no_sep)
  moreover have "r @ '','' @ p @ '',NULL,NULL'' \<noteq> ''false,,,''"
  proof
    assume "r @ '','' @ p @ '',NULL,NULL'' = ''false,,,''"
    then have "rev (r @ '','' @ p @ '',NULL,NULL'') = rev ''false,,,''" by simp
    then show False by simp
  qed
  ultimately show ?thesis by (simp add: evalTXT_def Let_def)
qed

lemma reaches_snoc: "reaches i (sts @ [(now, q, n)]) = n"
  by (induction i sts rule: reaches.induct) auto

text \<open>The pattern of the recorded pieces of a probe, with one query or several.\<close>

lemma pattern_of_probe:
  assumes "length a = 4" and "0 \<le> r" and "clean_types pkg" and "2 \<le> d" and "int d < 2 ^ 63"
    and "all = sts @ [(now, q, d)]" and "ascending srv (probe_labels a d r) 0 all" and "qn_type q = DNSTypeTXT"
  shows "analyzePattern (join_with ''|'' (pieces pkg (probe_labels a d r) 0 all)) md =
      (if sts = [] then Ret (False, itoa (int d + int (baseDomainLabelCount (md_BaseURL md))) @ type_to_string pkg DNSTypeTXT, 1, 1)
       else Ret (True, pattern_of pkg (baseDomainLabelCount (md_BaseURL md)) all, int (length all), int (singles 0 all)))"
proof (cases "sts = []")
  case True
  then have "join_with ''|'' (pieces pkg (probe_labels a d r) 0 all) = piece pkg (probe_labels a d r) 0 d DNSTypeTXT"
    by (simp add: assms(6,8))
  with True pattern_of_single [OF assms(1-4)] show ?thesis by simp
next
  case False
  then have "2 \<le> length all" by (cases sts) (simp_all add: assms(6))
  moreover have "reaches 0 all = d" using reaches_snoc assms(6) by simp
  ultimately show ?thesis using False pattern_of_steps [OF assms(1-3,5)] assms(7) by simp
qed



subsection \<open>The NXDOMAIN test\<close>

lemma to_lower_id: "\<forall>c \<in> set s. \<not> (65 \<le> (of_char c :: nat) \<and> (of_char c :: nat) \<le> 90) \<Longrightarrow> to_lower s = s"
  by (induction s) (auto simp: to_lower_def to_lower_char_def)

lemma hex_char_lower: "d < 16 \<Longrightarrow> (of_char (hex_char d) :: nat) \<in> {48..57} \<union> {97..102}"
  by (auto simp: hex_char_def)

lemma to_lower_hex_ip: "to_lower (hex_ip a) = hex_ip a"
proof (rule to_lower_id, rule ballI)
  fix c assume "c \<in> set (hex_ip a)"
  then obtain b where "c \<in> set (hex2 b)" by (auto simp: hex_ip_def)
  then have "c = hex_char (unat b div 16) \<or> c = hex_char (unat b mod 16)" by (simp add: hex2_def)
  then have "(of_char c :: nat) \<in> {48..57} \<union> {97..102}"
    using hex_char_lower [OF unat_u8_div16 [of b]] hex_char_lower [of "unat b mod 16"] by auto
  then show "\<not> (65 \<le> (of_char c :: nat) \<and> (of_char c :: nat) \<le> 90)" by auto
qed

lemma to_lower_itoa: "0 \<le> i \<Longrightarrow> to_lower (itoa i) = itoa i"
  using itoa_chars [of i] by (intro to_lower_id) (fastforce simp: is_digit_def)

lemma to_lower_append: "to_lower (s @ t) = to_lower s @ to_lower t"
  by (simp add: to_lower_def)

lemma hd_hex_ip: "length a = 4 \<Longrightarrow> hd (hex_ip a) = CHR ''b'' \<longleftrightarrow> unat (a ! 0) div 16 = 11"
proof -
  assume "length a = 4"
  then obtain b t where a: "a = b # t" by (cases a) auto
  have "hex_char d = CHR ''b'' \<longleftrightarrow> d = 11" if "d < 16" for d
  proof
    assume "hex_char d = CHR ''b''"
    then have "(of_char (hex_char d) :: nat) = 98" by simp
    with that show "d = 11" by (auto simp: hex_char_def split: if_splits)
  next
    have "hex_char 11 = CHR ''b''" by code_simp
    moreover assume "d = 11"
    ultimately show "hex_char d = CHR ''b''" by simp
  qed
  from this [OF unat_u8_div16 [of b]] show ?thesis by (simp add: hex_ip_def hex2_def a)
qed

text \<open>
  C39. The NXDOMAIN test gives wrong results for a sixteenth of the address space: the server answers
  every query of the test with NXDOMAIN, except one whose name begins with the letter b, which is
  meant for the second name of the test. The name both tests share, which a minimising resolver
  asks for in between, begins with the address of the resolver in hex: for 176.0.0.0 to
  191.255.255.255 it begins with b, and the answer is a TXT record instead of NXDOMAIN.
\<close>
theorem nx_test_wrong_for_176_to_191:
  assumes "netip_ParseAddr server = Some a" and "length a = 4" and "qc_BaseURL cfg = qs_baseURL srv"
    and "to_lower (qs_baseURL srv) = qs_baseURL srv"
    and "domainAssembly cfg rnd server 1 False False True = Ret dn" and "qn_name q = dn"
    and "qs_records srv dn = None" and "m = Map.empty"
  shows "\<exists>m'. requestResponse pkg srv now q m = Ret (m',
    if unat (a ! 0) div 16 = 11 then txt_reply pkg dn ''false,,,'' else rcode_reply RcodeNameError)"
proof -
  let ?r = "rnd mod qc_RandMax cfg"
  let ?tok = "probe_token a 1 ?r @ ''-nxopti''"
  have max: "0 < qc_RandMax cfg" using assms(5) by (auto simp: domainAssembly_def rand_Intn_def Let_def split: if_splits)
  then have r: "0 \<le> ?r" by simp
  note t = probe_token_facts [OF assms(2) r]
  have dn: "dn = ?tok @ ''.'' @ qs_baseURL srv"
    using assms(1-3,5) max by (simp add: domainAssembly_def targetToHex_def rand_Intn_def Let_def probe_token_def id_token_def hex_ip_def)
  have low: "to_lower dn = dn"
    unfolding dn probe_token_def id_token_def to_lower_append to_lower_hex_ip assms(4)
    using to_lower_itoa [of "int 1"] to_lower_itoa [OF r] by (simp add: to_lower_def to_lower_char_def)
  have meta: "split_on CHR ''-'' ?tok = [hex_ip a, itoa (int 1), itoa ?r, ''nxopti'']"
    unfolding probe_token_def using split_id_token(2) [OF t(5) t(6) [of 1] t(7), of "''nxopti''"] by simp
  have c: "clean (probe_token a 1 ?r)" by (rule t(2))
  then have gl: "good_labels [?tok]" by (auto simp: good_labels_def clean_def)
  have q: "query_for (qs_baseURL srv) [?tok] 1 q" by (simp add: query_for_def low_def assms(6) low) (simp add: dn)
  have len: "10 \<le> length (last [?tok])" "3 \<le> length (split_on CHR ''-'' (last [?tok]))"
    using t(1) [of 1] unfolding list.sel last.simps if_True simp_thms meta by simp_all
  have rec: "qs_records srv (to_lower (qn_name q)) = None" by (simp add: assms(6,7) low)
  have dn_ne: "dn \<noteq> []" by (simp add: dn)
  have "hd dn = hd (hex_ip a)" using t(5) by (auto simp: dn probe_token_def id_token_def token_part_def hd_append)
  then have b: "hd dn = CHR ''b'' \<longleftrightarrow> unat (a ! 0) div 16 = 11" using hd_hex_ip [OF assms(2)] by simp
  let ?meta = "split_on CHR ''-'' (last [?tok])" and ?ts = "join_with ''.'' (low [?tok] 1)"
  let ?p = "probe_of pkg now q ?ts (low [?tok] 1) ?meta"
  have rp: "record_probe pkg now q ?ts (low [?tok] 1) (last [?tok]) ?meta m = Ret (last [?tok], ?p)"
    unfolding record_probe_def assms(8) using len(2) by (simp add: new_probe_eq)
  have m3: "nth_is ?meta 3 ''nxopti''" "\<not> nth_is ?meta 3 ''induction''" using meta by (simp_all add: nth_is_def)
  have reply: "reply_of pkg srv q ?meta ?p = (if hd dn = CHR ''b'' then txt_reply pkg dn ''false,,,'' else rcode_reply RcodeNameError)"
    using m3 dn_ne unfolding reply_of_def probe_reply_def Let_def assms(6) by (simp add: probe_of_def index_def hd_conv_nth)
  show ?thesis
    unfolding requestResponse_below [OF gl q rec len] rp bindO.simps prod.case reply b by blast
qed

lemma nx_test_wrong_for_176_to_191_witness:
  "\<exists>m'. requestResponse ex_pkg ex_srv 5 \<lparr>qn_name = ''b0000001-1-7-nxopti.q.example.'', qn_type = DNSTypeA, qn_remote = ''192.0.2.1:53''\<rparr> Map.empty =
     Ret (m', txt_reply ex_pkg ''b0000001-1-7-nxopti.q.example.'' ''false,,,'')"
proof -
  have h: "netip_ParseAddr ''176.0.0.1'' = Some [176, 0, 0, 1]" "qc_BaseURL ex_qcfg = qs_baseURL ex_srv"
    "to_lower (qs_baseURL ex_srv) = qs_baseURL ex_srv"
    "domainAssembly ex_qcfg 7 ''176.0.0.1'' 1 False False True = Ret ''b0000001-1-7-nxopti.q.example.''"
    "unat ([176, 0, 0, 1 :: u8] ! 0) div 16 = 11" by code_simp+
  have n: "qs_records ex_srv ''b0000001-1-7-nxopti.q.example.'' = None" by (simp add: ex_srv_def)
  show ?thesis
    using nx_test_wrong_for_176_to_191 [OF h(1) _ h(2-4) _ n refl, of "\<lparr>qn_name = ''b0000001-1-7-nxopti.q.example.'',
      qn_type = DNSTypeA, qn_remote = ''192.0.2.1:53''\<rparr>" ex_pkg 5]
    unfolding h(5) by simp
qed

end
