(* ===== verification/Traceroute.thy ===== *)
theory Traceroute
  imports BaseScanner
begin

section \<open>The DNS traceroute over TCP (traceroute/traceroute_tcp.go)\<close>

text \<open>
  Each routine owns a block of 32 source ports and one object \<open>tracert_param\<close>. The object of a
  block is made once and never replaced, so the pointer to it is modelled by its key in the map
  \<open>tracert_params\<close>, the first port of the block. A SYN, a query and the answer to them carry their TTL in the distance of a
  16-bit field (source port, IP id, DNS id) to that port.
\<close>

subsection \<open>State\<close>

record tracert_hop =
  hop_count :: int
  hop_ts :: time
  response_ip :: ip

record tracert_param =
  all_syns_sent :: int
  all_dns_packets_sent :: int
  syn_ack_received :: int
  dns_reply_received :: int
  initial_ip :: ip
  first_to_syn_ack :: ip
  dns_traceroute_port :: u16
  finished :: int
  written :: bool
  syntr_hops :: "tracert_hop list"
  dnstr_hops :: "tracert_hop list"
  dns_answers :: "ip list"

text \<open>The object as \<open>init_traceroute\<close> makes it: Go's zero values, \<open>finished\<close> set to -1.\<close>

definition new_param :: tracert_param where
  "new_param = \<lparr>all_syns_sent = 0, all_dns_packets_sent = 0, syn_ack_received = 0,
     dns_reply_received = 0, initial_ip = [], first_to_syn_ack = [], dns_traceroute_port = 0,
     finished = -1, written = False, syntr_hops = [], dnstr_hops = [], dns_answers = []\<rparr>"

definition zero_param :: "tracert_param \<Rightarrow> tracert_param" where
  "zero_param p = p\<lparr>all_dns_packets_sent := -1, all_syns_sent := -1, syn_ack_received := -1,
     dns_reply_received := -1, written := False, finished := -1, dns_traceroute_port := 0,
     syntr_hops := [], dnstr_hops := [], dns_answers := [], initial_ip := []\<rparr>"

type_synonym trt_packet = "ipv4_layer \<times> tcp_layer \<times> u8 list"

record trt_state =
  tt_params :: "int \<rightharpoonup> tracert_param"
  tt_lowest_port :: u16
  tt_highest_port :: u16
  tt_init_finished :: "bool list"
  tt_waiting_to_end :: bool
  tt_write :: "int list"
  tt_sent :: "trt_packet list"
  tt_files :: "string \<rightharpoonup> string"

definition trt_init :: "Cfg_db \<Rightarrow> trt_state" where
  "trt_init cfg = \<lparr>tt_params = Map.empty, tt_lowest_port = 61024,
     tt_highest_port = 61024 + 32 * Number_routines cfg,
     tt_init_finished = replicate (unat (Number_routines cfg)) False, tt_waiting_to_end = False,
     tt_write = [], tt_sent = [], tt_files = Map.empty\<rparr>"

definition trt_start_ports :: "Cfg_db \<Rightarrow> u16 list" where
  "trt_start_ports cfg = map (\<lambda>i. 61024 + 32 * of_nat i) [0..<unat (Number_routines cfg)]"

definition calc_start_port :: "u16 \<Rightarrow> int" where
  "calc_start_port port = uint (port - port mod 32)"

definition id_from_port :: "u16 \<Rightarrow> u16 \<Rightarrow> nat" where
  "id_from_port lowest port = unat (port - lowest) div 32"

definition upd_param :: "int \<Rightarrow> (tracert_param \<Rightarrow> tracert_param) \<Rightarrow> trt_state \<Rightarrow> trt_state" where
  "upd_param k f s = s\<lparr>tt_params := (tt_params s)(k := map_option f (tt_params s k))\<rparr>"

definition trt_emit :: "trt_packet \<Rightarrow> trt_state \<Rightarrow> trt_state" where
  "trt_emit p s = s\<lparr>tt_sent := tt_sent s @ [p]\<rparr>"

subsection \<open>Packets\<close>

definition trt_query_msg :: "Cfg_db \<Rightarrow> u16 \<Rightarrow> u8 \<Rightarrow> dns_msg" where
  "trt_query_msg cfg src_port ttl =
     \<lparr>dns_ID = ucast (word_of_int (calc_start_port src_port) + ucast ttl :: u32), dns_RD = True,
      dns_OpCode = 0, dns_ResponseCode = 0, dns_QDCount = 1, dns_ARCount = 0,
      dns_Questions = [\<lparr>q_Name = Dns_query cfg, q_Type = DNSTypeA, q_Class = DNSClassIN\<rparr>],
      dns_Answers = [], dns_Additionals = []\<rparr>"

definition trt_build_ack_with_dns ::
  "Cfg_db \<Rightarrow> gopacket \<Rightarrow> ip \<Rightarrow> u16 \<Rightarrow> u32 \<Rightarrow> u32 \<Rightarrow> u8 \<Rightarrow> trt_packet" where
  "trt_build_ack_with_dns cfg gp dst_ip src_port seq_num ack_num ttl =
     (\<lparr>ip_TTL = ttl, ip_SrcIP = parse_ip (Iface_ip cfg), ip_DstIP = dst_ip,
        ip_Protocol = IPProtocolTCP, ip_Id = word_of_int (calc_start_port src_port) + ucast ttl\<rparr>,
      \<lparr>tcp_SrcPort = src_port, tcp_DstPort = Dst_port cfg, tcp_Seq = ack_num, tcp_Ack = seq_num + 1,
        tcp_flags = \<lparr>FIN = False, SYN = False, RST = False, PSH = True, ACK = True\<rparr>,
        tcp_Window = 8192\<rparr>,
      prepend_size (gp_encode gp (trt_query_msg cfg src_port ttl)))"

definition trt_syn_packet :: "Cfg_db \<Rightarrow> u32 \<Rightarrow> ip \<Rightarrow> u8 \<Rightarrow> u16 \<Rightarrow> trt_packet" where
  "trt_syn_packet cfg i dst_ip ttl start_port =
     (\<lparr>ip_TTL = ttl, ip_SrcIP = parse_ip (Iface_ip cfg), ip_DstIP = dst_ip,
        ip_Protocol = IPProtocolTCP, ip_Id = start_port + ucast ttl\<rparr>,
      \<lparr>tcp_SrcPort = start_port + ucast ttl, tcp_DstPort = 53, tcp_Seq = (i AND 0x1FFFFF) * 2048,
        tcp_Ack = 0, tcp_flags = \<lparr>FIN = False, SYN = True, RST = False, PSH = False, ACK = False\<rparr>,
        tcp_Window = 0\<rparr>,
      [])"

definition trt_send_syn :: "Cfg_db \<Rightarrow> u32 \<Rightarrow> ip \<Rightarrow> u8 \<Rightarrow> u16 \<Rightarrow> trt_state \<Rightarrow> trt_state" where
  "trt_send_syn cfg i dst_ip ttl start_port s =
     (case tt_params s (uint start_port) of None \<Rightarrow> s
      | Some _ \<Rightarrow> trt_emit (trt_syn_packet cfg i dst_ip ttl start_port) s)"

definition send_fin :: "Cfg_db \<Rightarrow> tracert_param \<Rightarrow> tcp_layer \<Rightarrow> bool \<Rightarrow> trt_state \<Rightarrow> trt_state" where
  "send_fin cfg p tcp fin = trt_emit
     (build_ack_pos_fin cfg (initial_ip p) (tcp_DstPort tcp) (tcp_Seq tcp) (tcp_Ack tcp) fin)"

subsection \<open>A packet comes in\<close>

text \<open>
  What the code sees of a packet: whether its ICMP layer has the type of a time-exceeded message,
  then the IP id and the payload of the datagram quoted in it (\<open>None\<close> when \<open>gopacket\<close> finds
  none), its TCP layer, whether there is an application layer, and the TCP payload.
\<close>

record trt_rx =
  rx_time_exceeded :: bool
  rx_quoted :: "(u16 \<times> u8 list) option"
  rx_tcp :: "tcp_layer option"
  rx_app :: bool
  rx_payload :: "u8 list"

definition add_syntr :: "int \<Rightarrow> time \<Rightarrow> ip \<Rightarrow> tracert_param \<Rightarrow> tracert_param" where
  "add_syntr hop now src p = p\<lparr>syntr_hops := syntr_hops p @
     [\<lparr>hop_count = hop, hop_ts = now, response_ip = src\<rparr>]\<rparr>"

definition add_dnstr :: "int \<Rightarrow> time \<Rightarrow> ip \<Rightarrow> tracert_param \<Rightarrow> tracert_param" where
  "add_dnstr hop now src p = p\<lparr>dnstr_hops := dnstr_hops p @
     [\<lparr>hop_count = hop, hop_ts = now, response_ip = src\<rparr>]\<rparr>"

definition handle_icmp :: "time \<Rightarrow> ip \<Rightarrow> (u16 \<times> u8 list) option \<Rightarrow> trt_state \<Rightarrow> trt_state outcome" where
  "handle_icmp now src quoted s =
     (case quoted of
        None \<Rightarrow> Ret s
      | Some (inner_id, inner_payload) \<Rightarrow>
          if length inner_payload < 20 then Ret s
          else bindO (be_uint16 (take 2 inner_payload)) (\<lambda>source_port.
            let start_port = calc_start_port source_port in
            case tt_params s start_port of
              None \<Rightarrow> Ret s
            | Some p \<Rightarrow>
                if syn_ack_received p = -1 \<and> tt_lowest_port s \<le> source_port \<and> source_port < tt_highest_port s
                then Ret (upd_param start_port (add_syntr (uint source_port - start_port) now src) s)
                else if syn_ack_received p \<noteq> -1 \<and> dns_traceroute_port p = source_port
                then Ret (upd_param start_port
                       (add_dnstr (uint (inner_id - word_of_int start_port)) now src) s)
                else Ret s))"

text \<open>
  The section of the handler of the first SYN-ACK that runs under the lock, with the test whether
  the queries are sent by this handler.
\<close>

definition syn_ack_locked :: "int \<Rightarrow> time \<Rightarrow> ip \<Rightarrow> tcp_layer \<Rightarrow> tracert_param \<Rightarrow> tracert_param \<times> bool" where
  "syn_ack_locked start_port now src tcp p =
     (let p1 = (add_syntr (uint (tcp_DstPort tcp) - start_port) now src p)
                 \<lparr>syn_ack_received := time_Unix now, first_to_syn_ack := src\<rparr>
      in if dns_traceroute_port p1 \<noteq> 0 then (p1, False)
         else (p1\<lparr>dns_traceroute_port := tcp_DstPort tcp\<rparr>, True))"

definition dns_probe :: "Cfg_db \<Rightarrow> gopacket \<Rightarrow> tracert_param \<Rightarrow> tcp_layer \<Rightarrow> nat \<Rightarrow> trt_packet" where
  "dns_probe cfg gp p tcp i = trt_build_ack_with_dns cfg gp (initial_ip p) (tcp_DstPort tcp)
     (tcp_Seq tcp) (tcp_Ack tcp) (of_nat i)"

text \<open>
  The loop over the TTLs: in round \<open>i\<close> it reads \<open>dns_reply_received\<close>, which the handler of a
  response sets meanwhile; \<open>reply i\<close> is what it reads. The first argument counts the rounds left.
\<close>

fun dns_loop :: "Cfg_db \<Rightarrow> gopacket \<Rightarrow> (nat \<Rightarrow> int) \<Rightarrow> tracert_param \<Rightarrow> tcp_layer \<Rightarrow> nat \<Rightarrow> nat
    \<Rightarrow> trt_packet list" where
  "dns_loop cfg gp reply p tcp i 0 = []"
| "dns_loop cfg gp reply p tcp i (Suc n) =
     (if reply i \<noteq> -1 then [] else dns_probe cfg gp p tcp i # dns_loop cfg gp reply p tcp (Suc i) n)"

definition handle_first_syn_ack ::
  "Cfg_db \<Rightarrow> gopacket \<Rightarrow> time \<Rightarrow> (nat \<Rightarrow> int) \<Rightarrow> time \<Rightarrow> ip \<Rightarrow> tcp_layer \<Rightarrow> int \<Rightarrow> tracert_param
    \<Rightarrow> trt_state \<Rightarrow> trt_state" where
  "handle_first_syn_ack cfg gp now reply later src tcp start_port p s =
     (let (p1, go) = syn_ack_locked start_port now src tcp p;
          s1 = upd_param start_port (\<lambda>_. p1) s
      in if \<not> go then s1
         else upd_param start_port (\<lambda>q. q\<lparr>all_dns_packets_sent := time_Unix later\<rparr>)
                (s1\<lparr>tt_sent := tt_sent s1 @ dns_loop cfg gp reply p1 tcp 1 29\<rparr>))"

definition handle_later_syn_ack :: "Cfg_db \<Rightarrow> tcp_layer \<Rightarrow> tracert_param \<Rightarrow> trt_state \<Rightarrow> trt_state" where
  "handle_later_syn_ack cfg tcp p s =
     (if tcp_DstPort tcp \<noteq> dns_traceroute_port p
      then send_fin cfg p tcp True (send_fin cfg p tcp False s) else s)"

definition finish :: "int \<Rightarrow> time \<Rightarrow> trt_state \<Rightarrow> trt_state" where
  "finish k now s = (let s1 = upd_param k (\<lambda>p. p\<lparr>finished := time_Unix now\<rparr>) s
     in s1\<lparr>tt_write := tt_write s1 @ [k]\<rparr>)"

definition trt_handle_fin_ack :: "Cfg_db \<Rightarrow> time \<Rightarrow> tcp_layer \<Rightarrow> int \<Rightarrow> tracert_param \<Rightarrow> trt_state \<Rightarrow> trt_state" where
  "trt_handle_fin_ack cfg now tcp start_port p s =
     (let s1 = send_fin cfg p tcp False s
      in if tcp_DstPort tcp = dns_traceroute_port p then finish start_port now s1 else s1)"

text \<open>
  The code takes the lock three times here: for the hop, for the answers, for the end. This is the whole
  handler when nobody comes in between; \<open>TraceSystem\<close> splits it (\<open>response_acts\<close>).
\<close>

definition trt_handle_response ::
  "Cfg_db \<Rightarrow> gopacket \<Rightarrow> time \<Rightarrow> ip \<Rightarrow> tcp_layer \<Rightarrow> u8 list \<Rightarrow> int \<Rightarrow> tracert_param \<Rightarrow> trt_state \<Rightarrow> trt_state" where
  "trt_handle_response cfg gp now src tcp payload start_port p s =
     (if length payload \<le> 2 then (if finished p = -1 then send_fin cfg p tcp True s else s)
      else if size_check_drops payload then send_fin cfg p tcp True s
      else case gp_decode gp (drop 2 payload) of
        None \<Rightarrow> (if finished p = -1 then send_fin cfg p tcp True s else s)
      | Some dns \<Rightarrow>
          let hop = dns_ID dns - word_of_int start_port;
              s1 = upd_param start_port (add_dnstr (uint hop) now src) s
          in if tcp_DstPort tcp \<noteq> dns_traceroute_port p then send_fin cfg p tcp True s1
             else if dns_answers p \<noteq> [] then send_fin cfg p tcp True s1
             else let answers_ip = filter (\<lambda>a. a \<noteq> []) (map rr_IP (dns_Answers dns));
                      s2 = upd_param start_port (\<lambda>q. q\<lparr>dns_answers := answers_ip,
                             dns_reply_received := time_Unix now\<rparr>) s1;
                      s3 = send_fin cfg p tcp True s2
                  in if Is_FIN_PSH_ACK (tcp_flags tcp) then finish start_port now s3 else s3)"

definition trt_Handle_pkt ::
  "Cfg_db \<Rightarrow> gopacket \<Rightarrow> time \<Rightarrow> (nat \<Rightarrow> int) \<Rightarrow> time \<Rightarrow> ipv4_layer \<Rightarrow> trt_rx \<Rightarrow> trt_state \<Rightarrow> trt_state outcome" where
  "trt_Handle_pkt cfg gp now reply later ipl rx s =
     (if rx_time_exceeded rx then handle_icmp now (ip_SrcIP ipl) (rx_quoted rx) s
      else case rx_tcp rx of
        None \<Rightarrow> Ret s
      | Some tcp \<Rightarrow>
          let start_port = calc_start_port (tcp_DstPort tcp) in
          case tt_params s start_port of
            None \<Rightarrow> Ret s
          | Some p \<Rightarrow>
              Ret (if \<not> rx_app rx then
                     (if Is_SYN (tcp_flags tcp) then s
                      else if Is_SYN_ACK (tcp_flags tcp) then
                        (if syn_ack_received p = -1
                         then handle_first_syn_ack cfg gp now reply later (ip_SrcIP ipl) tcp start_port p s
                         else handle_later_syn_ack cfg tcp p s)
                      else if Is_FIN_ACK (tcp_flags tcp) then trt_handle_fin_ack cfg now tcp start_port p s
                      else s)
                   else if Is_PSH_ACK (tcp_flags tcp) \<or> Is_FIN_PSH_ACK (tcp_flags tcp)
                   then trt_handle_response cfg gp now (ip_SrcIP ipl) tcp (rx_payload rx) start_port p s
                   else s))"

subsection \<open>The routine of a block\<close>

definition insert_param :: "int \<Rightarrow> trt_state \<Rightarrow> trt_state" where
  "insert_param k s = (case tt_params s k of
       None \<Rightarrow> s\<lparr>tt_params := (tt_params s)(k \<mapsto> new_param)\<rparr>
     | Some _ \<Rightarrow> s)"

definition must_wait :: "Cfg_db \<Rightarrow> time \<Rightarrow> tracert_param \<Rightarrow> bool" where
  "must_wait cfg now p \<longleftrightarrow> initial_ip p \<noteq> [] \<and>
     (\<not> written p \<or> finished p = -1 \<or> time_Unix now - finished p < Port_reuse_timeout cfg)"

definition begin_target :: "int \<Rightarrow> ip \<Rightarrow> trt_state \<Rightarrow> trt_state" where
  "begin_target k netip = upd_param k (\<lambda>p. (zero_param p)\<lparr>initial_ip := netip\<rparr>)"

definition set_finished_flag :: "u16 \<Rightarrow> bool \<Rightarrow> trt_state \<Rightarrow> trt_state" where
  "set_finished_flag start_port b s =
     s\<lparr>tt_init_finished := (tt_init_finished s)[id_from_port (tt_lowest_port s) start_port := b]\<rparr>"

text \<open>The loop over the TTLs of the SYNs; \<open>acked i\<close> is the value of \<open>syn_ack_received\<close> that round \<open>i\<close> reads.\<close>

fun syn_loop :: "Cfg_db \<Rightarrow> (nat \<Rightarrow> int) \<Rightarrow> ip \<Rightarrow> u16 \<Rightarrow> nat \<Rightarrow> nat \<Rightarrow> trt_state \<Rightarrow> trt_state" where
  "syn_loop cfg acked netip start_port i 0 s = s"
| "syn_loop cfg acked netip start_port i (Suc n) s =
     (if acked i \<noteq> -1 then s
      else syn_loop cfg acked netip start_port (Suc i) n
             (trt_send_syn cfg (of_nat i) netip (of_nat i) start_port s))"

text \<open>One address taken from \<open>Ip_chan\<close>, once the waiting loop is left, and a second without one.\<close>

definition trace_target :: "Cfg_db \<Rightarrow> (nat \<Rightarrow> int) \<Rightarrow> time \<Rightarrow> u16 \<Rightarrow> ip \<Rightarrow> trt_state \<Rightarrow> trt_state" where
  "trace_target cfg acked later start_port netip s =
     upd_param (uint start_port) (\<lambda>p. p\<lparr>all_syns_sent := time_Unix later\<rparr>)
       (syn_loop cfg acked netip start_port 1 30
         (begin_target (uint start_port) netip
           (insert_param (uint start_port) (set_finished_flag start_port False s))))"

definition idle_tick :: "u16 \<Rightarrow> trt_state \<Rightarrow> trt_state" where
  "idle_tick start_port s = (case tt_params s (uint start_port) of
       Some p \<Rightarrow> if written p then set_finished_flag start_port True s else s
     | None \<Rightarrow> if tt_waiting_to_end s then set_finished_flag start_port True s else s)"

definition init_is_finished :: "Cfg_db \<Rightarrow> trt_state \<Rightarrow> bool outcome" where
  "init_is_finished cfg s = fold (\<lambda>i r. bindO r (\<lambda>b. if \<not> b then Ret False else index (tt_init_finished s) i))
     [0..<unat (Number_routines cfg)] (Ret True)"

subsection \<open>The timeout routine and the writer\<close>

definition timed_out :: "time \<Rightarrow> tracert_param \<Rightarrow> bool" where
  "timed_out now p \<longleftrightarrow> finished p = -1 \<and> all_syns_sent p \<noteq> -1 \<and>
     (if all_dns_packets_sent p = -1
      then syn_ack_received p = -1 \<and> 3 < time_Unix now - all_syns_sent p
      else (dns_reply_received p = -1 \<and> 6 < time_Unix now - all_dns_packets_sent p) \<or>
           (dns_reply_received p \<noteq> -1 \<and> 3 < time_Unix now - all_dns_packets_sent p))"

definition timeout_one :: "time \<Rightarrow> int \<Rightarrow> trt_state \<Rightarrow> trt_state" where
  "timeout_one now k s = (case tt_params s k of None \<Rightarrow> s
     | Some p \<Rightarrow> if timed_out now p then finish k now s else s)"

text \<open>One pass; \<open>ks\<close> are the keys of the map in the order the iteration has.\<close>

definition trt_timeout :: "time \<Rightarrow> int list \<Rightarrow> trt_state \<Rightarrow> trt_state" where
  "trt_timeout now ks s = fold (timeout_one now) ks s"

definition str_dns_answers :: "tracert_param \<Rightarrow> string list" where
  "str_dns_answers p = [''DNSANS'', '''', '''', join_with '','' (map ip_string (dns_answers p))]"

definition hop_line :: "string \<Rightarrow> tracert_hop \<Rightarrow> string" where
  "hop_line tag h = To_csv_line [tag, format_time (hop_ts h), itoa (hop_count h), ip_string (response_ip h)]"

definition result_text :: "tracert_param \<Rightarrow> string" where
  "result_text p = concat (map (hop_line ''SYNTR'') (syntr_hops p)) @
     concat (map (hop_line ''DNSTR'') (dnstr_hops p)) @ To_csv_line (str_dns_answers p)"

definition result_file :: "ip \<Rightarrow> string" where
  "result_file a = ip_string a @ ''.csv''"

text \<open>
  One turn of the writer when nobody comes in between. The code locks the object only to set \<open>written\<close>;
  \<open>TraceSystem\<close> splits the turn into its reads and writes.
\<close>

definition Write_results_one :: "trt_state \<Rightarrow> trt_state" where
  "Write_results_one s = (case tt_write s of [] \<Rightarrow> s
     | k # ks \<Rightarrow> (case tt_params s k of None \<Rightarrow> s\<lparr>tt_write := ks\<rparr>
         | Some p \<Rightarrow> upd_param k (\<lambda>q. q\<lparr>written := True\<rparr>)
             (s\<lparr>tt_write := ks, tt_files := (tt_files s)(result_file (initial_ip p) \<mapsto> result_text p)\<rparr>)))"

subsection \<open>The targets\<close>

text \<open>The lines of the file read before \<open>Stop_chan\<close> is seen closed; a line that is no address gives nil.\<close>

fun trt_read_ips :: "(nat \<Rightarrow> bool) \<Rightarrow> nat \<Rightarrow> string list \<Rightarrow> ip list \<times> bool" where
  "trt_read_ips stopped i [] = ([], True)"
| "trt_read_ips stopped i (l # ls) =
     (if stopped i then ([], False)
      else let (r, e) = trt_read_ips stopped (Suc i) ls in (if l = [] then r else parse_ip l # r, e))"

datatype trt_target = NoTarget | SingleIp ip | TargetFile string

definition trt_start_arg :: "string list \<Rightarrow> trt_target" where
  "trt_start_arg args = (case args of [] \<Rightarrow> NoTarget
     | a # _ \<Rightarrow> if parse_ip a \<noteq> [] then SingleIp (parse_ip a) else TargetFile a)"

subsection \<open>Ports and TTLs\<close>

lemma unat_mod32 [go_words]: "unat ((p :: u16) mod 32) = unat p mod 32"
  by (simp add: unat_mod_distrib)

lemma unat_start_port: "unat (p - p mod 32 :: u16) = 32 * (unat p div 32)"
proof -
  have "p mod 32 \<le> p" by (simp add: word_le_nat_alt go_words)
  then have "unat (p - p mod 32) = unat p - unat p mod 32"
    by (simp only: unat_sub) (simp add: go_words)
  also have "\<dots> = 32 * (unat p div 32)" by (simp add: minus_mod_eq_mult_div)
  finally show ?thesis .
qed

lemma calc_start_port_unat: "calc_start_port p = int (32 * (unat p div 32))"
  by (simp only: calc_start_port_def unat_start_port [symmetric]) simp

text \<open>The first port of a block is a multiple of 32; adding a TTL below 32 stays in the block.\<close>

definition block :: "u16 \<Rightarrow> bool" where
  "block start \<longleftrightarrow> unat start mod 32 = 0"

lemma block_add:
  assumes "block start" and "t < 32"
  shows "unat (start + of_nat t) = unat start + t"
proof -
  have "unat start < 65536" using unsigned_less [of start, where ?'a = nat] by simp
  moreover from assms(1) obtain k where k: "unat start = 32 * k" unfolding block_def by auto
  ultimately have "k < 2048" by simp
  then have "unat start + t < 65536" using assms(2) k by simp
  then show ?thesis using assms(2) by (simp add: unat_word_ariths unat_of_nat)
qed

lemma calc_start_port_block:
  assumes "block start" and "t < 32"
  shows "calc_start_port (start + of_nat t) = uint start"
proof -
  from assms(1) obtain k where k: "unat start = 32 * k" unfolding block_def by auto
  with assms(2) have "(unat start + t) div 32 = k" by simp
  then have "calc_start_port (start + of_nat t) = int (unat start)"
    using block_add [OF assms] k by (simp add: calc_start_port_unat)
  then show ?thesis by simp
qed

lemma calc_start_port_range: "0 \<le> uint p - calc_start_port p" "uint p - calc_start_port p < 32"
proof -
  have "uint p = int (unat p)" by simp
  moreover have "unat p = 32 * (unat p div 32) + unat p mod 32" by simp
  ultimately have "uint p - calc_start_port p = int (unat p mod 32)"
    unfolding calc_start_port_unat by (metis add_diff_cancel_left' of_nat_add)
  then show "0 \<le> uint p - calc_start_port p" "uint p - calc_start_port p < 32" by simp_all
qed

lemma block_hop:
  assumes "block start" and "t < 32"
  shows "uint (start + of_nat t) - uint start = int t"
proof -
  have "uint (start + of_nat t) = int (unat (start + of_nat t))" by simp
  also have "\<dots> = int (unat start) + int t" using block_add [OF assms] by simp
  finally show ?thesis by simp
qed

lemma block_hop_word: "t < 65536 \<Longrightarrow> uint (start + of_nat t - start :: u16) = int t"
  by (simp add: uint_word_of_int take_bit_int_eq_self of_nat_inverse unsigned_of_nat take_bit_nat_eq_self)

lemma ucast_ttl: "t < 256 \<Longrightarrow> (ucast (of_nat t :: u8) :: u16) = of_nat t"
  by (simp add: unsigned_of_nat take_bit_nat_eq_self)

lemma start_ports_block: "start \<in> set (trt_start_ports cfg) \<Longrightarrow> block start"
proof -
  assume "start \<in> set (trt_start_ports cfg)"
  then obtain i where "start = 61024 + 32 * of_nat i" by (auto simp: trt_start_ports_def)
  then have "start = of_nat (61024 + 32 * i)" by simp
  then have "unat start = (61024 + 32 * i) mod 65536" by (simp only: unat_of_nat) simp
  then have "unat start mod 32 = (61024 + 32 * i) mod 32" by (simp add: mod_mod_cancel)
  also have "\<dots> = 0" by (simp add: mod_add_eq [symmetric])
  finally show ?thesis by (simp add: block_def)
qed

lemma start_port_unat:
  assumes "start \<in> set (trt_start_ports cfg)" and "unat (Number_routines cfg) \<le> 140"
  obtains i where "i < unat (Number_routines cfg)" and "unat start = 61024 + 32 * i"
proof -
  from assms(1) obtain i where i: "i < unat (Number_routines cfg)" "start = 61024 + 32 * of_nat i"
    by (auto simp: trt_start_ports_def)
  then have "start = of_nat (61024 + 32 * i)" by simp
  then have "unat start = (61024 + 32 * i) mod 65536" by (simp only: unat_of_nat) simp
  with i assms(2) that show ?thesis by simp
qed

lemma highest_port_unat:
  assumes "unat n \<le> 140"
  shows "unat (61024 + 32 * n :: u16) = 61024 + 32 * unat n"
proof -
  have "61024 + 32 * n = of_nat (61024 + 32 * unat n)" by simp
  then have "unat (61024 + 32 * n) = (61024 + 32 * unat n) mod 65536" by (simp only: unat_of_nat) simp
  with assms show ?thesis by simp
qed

text \<open>With at most 140 routines every port of a block lies between the two bounds of the handler.\<close>

lemma block_between:
  assumes "start \<in> set (trt_start_ports cfg)" and "unat (Number_routines cfg) \<le> 140" and "t < 32"
  shows "61024 \<le> start + of_nat t" and "start + of_nat t < 61024 + 32 * Number_routines cfg"
proof -
  obtain i where i: "i < unat (Number_routines cfg)" "unat start = 61024 + 32 * i"
    using assms(1,2) by (rule start_port_unat)
  have "unat (start + of_nat t) = 61024 + 32 * i + t"
    using block_add [OF start_ports_block [OF assms(1)] assms(3)] i by simp
  then show "61024 \<le> start + of_nat t" "start + of_nat t < 61024 + 32 * Number_routines cfg"
    using i(1) assms(3) by (simp_all add: word_le_nat_alt word_less_nat_alt highest_port_unat [OF assms(2)])
qed

subsection \<open>The fields a step leaves alone\<close>

lemma upd_param_simps [simp]:
  "tt_params (upd_param k f s) = (tt_params s)(k := map_option f (tt_params s k))"
  "tt_lowest_port (upd_param k f s) = tt_lowest_port s"
  "tt_highest_port (upd_param k f s) = tt_highest_port s"
  "tt_init_finished (upd_param k f s) = tt_init_finished s"
  "tt_waiting_to_end (upd_param k f s) = tt_waiting_to_end s"
  "tt_write (upd_param k f s) = tt_write s" "tt_sent (upd_param k f s) = tt_sent s"
  "tt_files (upd_param k f s) = tt_files s"
  by (simp_all add: upd_param_def)

lemma trt_emit_simps [simp]:
  "tt_params (trt_emit p s) = tt_params s" "tt_lowest_port (trt_emit p s) = tt_lowest_port s"
  "tt_highest_port (trt_emit p s) = tt_highest_port s"
  "tt_init_finished (trt_emit p s) = tt_init_finished s"
  "tt_waiting_to_end (trt_emit p s) = tt_waiting_to_end s"
  "tt_write (trt_emit p s) = tt_write s" "tt_sent (trt_emit p s) = tt_sent s @ [p]"
  "tt_files (trt_emit p s) = tt_files s"
  by (simp_all add: trt_emit_def)

lemma finish_simps [simp]:
  "tt_params (finish k now s) = (tt_params s)(k := map_option (\<lambda>p. p\<lparr>finished := time_Unix now\<rparr>) (tt_params s k))"
  "tt_write (finish k now s) = tt_write s @ [k]" "tt_sent (finish k now s) = tt_sent s"
  "tt_files (finish k now s) = tt_files s" "tt_lowest_port (finish k now s) = tt_lowest_port s"
  "tt_highest_port (finish k now s) = tt_highest_port s"
  "tt_init_finished (finish k now s) = tt_init_finished s"
  "tt_waiting_to_end (finish k now s) = tt_waiting_to_end s"
  by (simp_all add: finish_def Let_def)

subsection \<open>Hops are recovered from the packets\<close>

text \<open>
  A time-exceeded message quotes the IP header and the start of the payload of the datagram, for a
  TCP segment first the two bytes of its source port.
\<close>

definition quotes :: "trt_packet \<Rightarrow> trt_rx \<Rightarrow> bool" where
  "quotes pkt rx \<longleftrightarrow> rx_time_exceeded rx \<and> (case rx_quoted rx of None \<Rightarrow> False
     | Some (i, pl) \<Rightarrow> i = ip_Id (fst pkt) \<and> 20 \<le> length pl \<and>
         take 2 pl = [ucast (drop_bit 8 (tcp_SrcPort (fst (snd pkt)))), ucast (tcp_SrcPort (fst (snd pkt)))])"

lemma be_uint16_bytes: "be_uint16 [ucast (drop_bit 8 i), ucast i] = Ret (i :: u16)"
proof -
  have "(ucast (ucast i :: u8) OR push_bit 8 (ucast (ucast (drop_bit 8 i) :: u8)) :: u16) = i"
    by (rule bit_word_eqI) (auto simp: bit_simps dest: bit_imp_le_length)
  then show ?thesis by (simp add: be_uint16_def)
qed

lemma quotes_source_port:
  assumes "quotes pkt rx"
  obtains pl where "rx_quoted rx = Some (ip_Id (fst pkt), pl)" and "20 \<le> length pl"
    and "be_uint16 (take 2 pl) = Ret (tcp_SrcPort (fst (snd pkt)))"
  using assms be_uint16_bytes by (auto simp: quotes_def split: option.splits)

lemma syn_hop:
  assumes q: "quotes (trt_syn_packet cfg i dst (of_nat t) start) rx" and t: "t < 32"
    and b: "start \<in> set (trt_start_ports cfg)" "unat (Number_routines cfg) \<le> 140"
    and s: "tt_lowest_port s = 61024" "tt_highest_port s = 61024 + 32 * Number_routines cfg"
    and p: "tt_params s (uint start) = Some p" "syn_ack_received p = -1"
  shows "trt_Handle_pkt cfg gp now reply later ipl rx s =
     Ret (upd_param (uint start) (add_syntr (int t) now (ip_SrcIP ipl)) s)"
proof -
  have bl: "block start" using b(1) by (rule start_ports_block)
  obtain pl where pl: "20 \<le> length pl" "be_uint16 (take 2 pl) = Ret (start + of_nat t)"
    and rq: "rx_quoted rx = Some (ip_Id (fst (trt_syn_packet cfg i dst (of_nat t) start)), pl)"
    using quotes_source_port [OF q] t by (auto simp: trt_syn_packet_def ucast_ttl)
  have "rx_time_exceeded rx" using q by (simp add: quotes_def)
  then show ?thesis
    using pl p block_between [OF b t] calc_start_port_block [OF bl t] block_hop [OF bl t]
    by (simp add: trt_Handle_pkt_def handle_icmp_def rq s Let_def)
qed

lemma dns_id_word: "t < 256 \<Longrightarrow> block start \<Longrightarrow> u < 32 \<Longrightarrow>
    word_of_int (calc_start_port (start + of_nat u)) + ucast (of_nat t :: u8) = (start + of_nat t :: u16)"
  by (simp add: calc_start_port_block ucast_ttl)

lemma dns_hop:
  assumes q: "quotes (dns_probe cfg gp p0 tcp t) rx" and t: "t < 32"
    and bl: "block start" and d: "tcp_DstPort tcp = start + of_nat d" "d < 32"
    and p: "tt_params s (uint start) = Some p" "syn_ack_received p \<noteq> -1"
      "dns_traceroute_port p = start + of_nat d"
  shows "trt_Handle_pkt cfg gp now reply later ipl rx s =
     Ret (upd_param (uint start) (add_dnstr (int t) now (ip_SrcIP ipl)) s)"
proof -
  obtain pl where pl: "20 \<le> length pl" "be_uint16 (take 2 pl) = Ret (start + of_nat d)"
    and rq: "rx_quoted rx = Some (start + of_nat t, pl)"
    using quotes_source_port [OF q] t d
    by (auto simp: dns_probe_def trt_build_ack_with_dns_def dns_id_word [OF _ bl])
  have "rx_time_exceeded rx" using q by (simp add: quotes_def)
  then show ?thesis
    using pl p calc_start_port_block [OF bl d(2)] block_hop_word [of t start] t
    by (simp add: trt_Handle_pkt_def handle_icmp_def rq Let_def)
qed

lemma ucast_32_16: "(ucast (ucast (w :: u16) :: u32) :: u16) = w"
  by (rule bit_word_eqI) (auto simp: bit_simps)

lemma dns_ID_query:
  assumes "block start" and "d < 32" and "t < 32"
  shows "dns_ID (trt_query_msg cfg (start + of_nat d) (of_nat t)) = start + of_nat t"
proof -
  have "(ucast (word_of_int (uint start) + ucast (of_nat t :: u8) :: u32) :: u16) = start + of_nat t"
    using assms(3) by (simp add: ucast16_add unsigned_of_nat take_bit_nat_eq_self ucast_32_16)
  then show ?thesis using assms by (simp add: trt_query_msg_def calc_start_port_block)
qed

subsection \<open>A whole measurement\<close>

type_synonym trt_event = "time \<times> ipv4_layer \<times> trt_rx"

fun trt_handle_all ::
  "Cfg_db \<Rightarrow> gopacket \<Rightarrow> (nat \<Rightarrow> int) \<Rightarrow> time \<Rightarrow> trt_event list \<Rightarrow> trt_state \<Rightarrow> trt_state outcome" where
  "trt_handle_all cfg gp reply later [] s = Ret s"
| "trt_handle_all cfg gp reply later ((now, ipl, rx) # es) s =
     bindO (trt_Handle_pkt cfg gp now reply later ipl rx s) (trt_handle_all cfg gp reply later es)"

lemma trt_handle_all_append:
  "trt_handle_all cfg gp reply later (es @ fs) s =
     bindO (trt_handle_all cfg gp reply later es s) (trt_handle_all cfg gp reply later fs)"
proof (induction es arbitrary: s)
  case (Cons e es)
  obtain now ipl rx where "e = (now, ipl, rx)" by (cases e)
  with Cons show ?case by (cases "trt_Handle_pkt cfg gp now reply later ipl rx s") simp_all
qed simp

text \<open>
  \<open>answers pkt es hs\<close>: the events are time-exceeded messages, each quoting the packet with the TTL
  of the hop of \<open>hs\<close> at its place, sent by the router that hop names, received at its time.
\<close>

definition answers :: "(nat \<Rightarrow> trt_packet) \<Rightarrow> trt_event list \<Rightarrow> tracert_hop list \<Rightarrow> bool" where
  "answers pkt = list_all2 (\<lambda>(now, ipl, rx) h. 1 \<le> hop_count h \<and> hop_count h \<le> 30 \<and> hop_ts h = now \<and>
     ip_SrcIP ipl = response_ip h \<and> quotes (pkt (nat (hop_count h))) rx)"

definition append_hops :: "tracert_hop list \<Rightarrow> tracert_param \<Rightarrow> tracert_param" where
  "append_hops hs p = p\<lparr>syntr_hops := syntr_hops p @ hs\<rparr>"

definition append_dns_hops :: "tracert_hop list \<Rightarrow> tracert_param \<Rightarrow> tracert_param" where
  "append_dns_hops hs p = p\<lparr>dnstr_hops := dnstr_hops p @ hs\<rparr>"

lemma append_hops_Cons: "append_hops hs (append_hops [h] p) = append_hops (h # hs) p"
  by (simp add: append_hops_def)

lemma append_dns_hops_Cons: "append_dns_hops hs (append_dns_hops [h] p) = append_dns_hops (h # hs) p"
  by (simp add: append_dns_hops_def)

lemma upd_param_id: "tt_params s k = Some p \<Longrightarrow> f p = p \<Longrightarrow> upd_param k f s = s"
  by (simp add: upd_param_def fun_upd_idem)

lemma upd_param_twice: "upd_param k g (upd_param k f s) = upd_param k (g \<circ> f) s"
  by (simp add: upd_param_def option.map_comp)

lemma add_syntr_append: "hop_count h = int t \<Longrightarrow> add_syntr (int t) (hop_ts h) (response_ip h) = append_hops [h]"
  by (rule ext) (simp add: add_syntr_def append_hops_def)

lemma add_dnstr_append: "hop_count h = int t \<Longrightarrow> add_dnstr (int t) (hop_ts h) (response_ip h) = append_dns_hops [h]"
  by (rule ext) (simp add: add_dnstr_def append_dns_hops_def)

lemma syn_answers:
  assumes "answers (\<lambda>t. trt_syn_packet cfg (of_nat t) dst (of_nat t) start) es hs"
    and b: "start \<in> set (trt_start_ports cfg)" "unat (Number_routines cfg) \<le> 140"
    and "tt_lowest_port s = 61024" "tt_highest_port s = 61024 + 32 * Number_routines cfg"
    and "tt_params s (uint start) = Some p" "syn_ack_received p = -1"
  shows "trt_handle_all cfg gp reply later es s = Ret (upd_param (uint start) (append_hops hs) s)"
  using assms(1,4-7) unfolding answers_def
proof (induction es hs arbitrary: s p rule: list_all2_induct)
  case Nil
  then show ?case by (simp add: upd_param_id append_hops_def)
next
  case (Cons e es h hs)
  obtain now ipl rx where e: "e = (now, ipl, rx)" by (cases e)
  define t where "t = nat (hop_count h)"
  have t: "hop_count h = int t" "t < 32" using Cons.hyps e by (auto simp: t_def)
  have step: "trt_Handle_pkt cfg gp now reply later ipl rx s =
      Ret (upd_param (uint start) (append_hops [h]) s)"
    using syn_hop [OF _ t(2) b Cons.prems] Cons.hyps(1) add_syntr_append [OF t(1)] t(1)
    by (auto simp: e)
  have "trt_handle_all cfg gp reply later es (upd_param (uint start) (append_hops [h]) s) =
      Ret (upd_param (uint start) (append_hops hs) (upd_param (uint start) (append_hops [h]) s))"
    by (rule Cons.IH [of _ "append_hops [h] p"]) (use Cons.prems in \<open>simp_all add: append_hops_def\<close>)
  moreover have "append_hops hs \<circ> append_hops [h] = append_hops (h # hs)"
    by (rule ext) (simp add: append_hops_Cons)
  ultimately show ?case by (simp add: e step upd_param_twice)
qed

lemma dns_probe_answers:
  assumes "answers (dns_probe cfg gp p0 tcp) es hs"
    and bl: "block start" and d: "tcp_DstPort tcp = start + of_nat d" "d < 32"
    and "tt_params s (uint start) = Some p" "syn_ack_received p \<noteq> -1"
      "dns_traceroute_port p = start + of_nat d"
  shows "trt_handle_all cfg gp reply later es s = Ret (upd_param (uint start) (append_dns_hops hs) s)"
  using assms(1,5-7) unfolding answers_def
proof (induction es hs arbitrary: s p rule: list_all2_induct)
  case Nil
  then show ?case by (simp add: upd_param_id append_dns_hops_def)
next
  case (Cons e es h hs)
  obtain now ipl rx where e: "e = (now, ipl, rx)" by (cases e)
  define t where "t = nat (hop_count h)"
  have t: "hop_count h = int t" "t < 32" using Cons.hyps e by (auto simp: t_def)
  have step: "trt_Handle_pkt cfg gp now reply later ipl rx s =
      Ret (upd_param (uint start) (append_dns_hops [h]) s)"
    using dns_hop [OF _ t(2) bl d Cons.prems] Cons.hyps(1) add_dnstr_append [OF t(1)] t(1)
    by (auto simp: e)
  have "trt_handle_all cfg gp reply later es (upd_param (uint start) (append_dns_hops [h]) s) =
      Ret (upd_param (uint start) (append_dns_hops hs) (upd_param (uint start) (append_dns_hops [h]) s))"
    by (rule Cons.IH [of _ "append_dns_hops [h] p"]) (use Cons.prems in \<open>simp_all add: append_dns_hops_def\<close>)
  moreover have "append_dns_hops hs \<circ> append_dns_hops [h] = append_dns_hops (h # hs)"
    by (rule ext) (simp add: append_dns_hops_Cons)
  ultimately show ?case by (simp add: e step upd_param_twice)
qed

lemma syn_loop_sent:
  assumes "tt_params s (uint start) \<noteq> None"
  shows "syn_loop cfg acked netip start i n s = s\<lparr>tt_sent := tt_sent s @
     map (\<lambda>j. trt_syn_packet cfg (of_nat j) netip (of_nat j) start) (takeWhile (\<lambda>j. acked j = -1) [i..<i + n])\<rparr>"
  using assms
proof (induction n arbitrary: i s)
  case (Suc n)
  from Suc.prems obtain p where p: "tt_params s (uint start) = Some p" by auto
  have u: "[i..<i + Suc n] = i # [Suc i..<Suc i + n]" by (simp add: upt_conv_Cons)
  show ?case unfolding u using p by (simp add: Suc.IH trt_send_syn_def)
qed simp

lemma dns_loop_sent:
  "dns_loop cfg gp reply p tcp i n = map (dns_probe cfg gp p tcp) (takeWhile (\<lambda>j. reply j = -1) [i..<i + n])"
proof (induction n arbitrary: i)
  case (Suc n)
  have u: "[i..<i + Suc n] = i # [Suc i..<Suc i + n]" by (simp add: upt_conv_Cons)
  show ?case unfolding u by (simp add: Suc.IH)
qed simp

lemma insert_param_simps [simp]:
  "tt_params (insert_param k s) k = Some (case tt_params s k of None \<Rightarrow> new_param | Some p \<Rightarrow> p)"
  "k' \<noteq> k \<Longrightarrow> tt_params (insert_param k s) k' = tt_params s k'"
  "tt_lowest_port (insert_param k s) = tt_lowest_port s" "tt_highest_port (insert_param k s) = tt_highest_port s"
  "tt_init_finished (insert_param k s) = tt_init_finished s"
  "tt_waiting_to_end (insert_param k s) = tt_waiting_to_end s"
  "tt_write (insert_param k s) = tt_write s" "tt_sent (insert_param k s) = tt_sent s"
  "tt_files (insert_param k s) = tt_files s"
  by (simp_all add: insert_param_def split: option.split)

lemma set_finished_flag_simps [simp]:
  "tt_params (set_finished_flag sp b s) = tt_params s"
  "tt_lowest_port (set_finished_flag sp b s) = tt_lowest_port s"
  "tt_highest_port (set_finished_flag sp b s) = tt_highest_port s"
  "tt_waiting_to_end (set_finished_flag sp b s) = tt_waiting_to_end s"
  "tt_write (set_finished_flag sp b s) = tt_write s" "tt_sent (set_finished_flag sp b s) = tt_sent s"
  "tt_files (set_finished_flag sp b s) = tt_files s"
  by (simp_all add: set_finished_flag_def)

definition begun :: "int \<Rightarrow> ip \<Rightarrow> tracert_param \<Rightarrow> bool" where
  "begun syns_at dst p \<longleftrightarrow> all_syns_sent p = syns_at \<and> all_dns_packets_sent p = -1 \<and> syn_ack_received p = -1 \<and>
     dns_reply_received p = -1 \<and> initial_ip p = dst \<and> dns_traceroute_port p = 0 \<and> finished p = -1 \<and>
     \<not> written p \<and> syntr_hops p = [] \<and> dnstr_hops p = [] \<and> dns_answers p = []"

lemma begin_target_simps [simp]:
  "tt_params (begin_target k netip s) = (tt_params s)(k := map_option (\<lambda>p. (zero_param p)\<lparr>initial_ip := netip\<rparr>) (tt_params s k))"
  "tt_lowest_port (begin_target k netip s) = tt_lowest_port s" "tt_highest_port (begin_target k netip s) = tt_highest_port s"
  "tt_init_finished (begin_target k netip s) = tt_init_finished s"
  "tt_waiting_to_end (begin_target k netip s) = tt_waiting_to_end s"
  "tt_write (begin_target k netip s) = tt_write s" "tt_sent (begin_target k netip s) = tt_sent s"
  "tt_files (begin_target k netip s) = tt_files s"
  by (simp_all add: begin_target_def)

lemma trace_target_state:
  fixes s cfg acked later start netip
  defines "s' \<equiv> trace_target cfg acked later start netip s"
  shows "\<exists>p. tt_params s' (uint start) = Some p \<and> begun (time_Unix later) netip p"
    and "tt_sent s' = tt_sent s @ map (\<lambda>j. trt_syn_packet cfg (of_nat j) netip (of_nat j) start)
           (takeWhile (\<lambda>j. acked j = -1) [1..<31])"
    and "tt_lowest_port s' = tt_lowest_port s" "tt_highest_port s' = tt_highest_port s"
    and "tt_write s' = tt_write s" "tt_files s' = tt_files s"
  by (simp_all add: s'_def trace_target_def syn_loop_sent begun_def zero_param_def)

subsection \<open>From the SYN-ACK to the result file\<close>

lemma first_syn_ack:
  assumes rx: "\<not> rx_time_exceeded rx" "rx_tcp rx = Some tcp" "\<not> rx_app rx" "Is_SYN_ACK (tcp_flags tcp)"
    and bl: "block start" and d: "tcp_DstPort tcp = start + of_nat d" "d < 32"
    and p: "tt_params s (uint start) = Some p" "syn_ack_received p = -1" "dns_traceroute_port p = 0"
  shows "trt_Handle_pkt cfg gp now reply later ipl rx s = Ret
     ((upd_param (uint start) (\<lambda>q. (append_hops [\<lparr>hop_count = int d, hop_ts = now, response_ip = ip_SrcIP ipl\<rparr>] q)
         \<lparr>syn_ack_received := time_Unix now, first_to_syn_ack := ip_SrcIP ipl,
          dns_traceroute_port := start + of_nat d, all_dns_packets_sent := time_Unix later\<rparr>) s)
       \<lparr>tt_sent := tt_sent s @ map (dns_probe cfg gp p tcp) (takeWhile (\<lambda>j. reply j = -1) [1..<30])\<rparr>)"
proof -
  note c = calc_start_port_block [OF bl d(2)] and h = block_hop [OF bl d(2)]
  have "\<not> Is_SYN (tcp_flags tcp)" using rx(4) flag_preds_exclusive by blast
  then show ?thesis
    using rx p
    by (simp add: trt_Handle_pkt_def handle_first_syn_ack_def syn_ack_locked_def Let_def c h d
        dns_loop_sent add_syntr_def append_hops_def upd_param_def dns_probe_def)
qed

lemma trt_response:
  assumes rx: "\<not> rx_time_exceeded rx" "rx_tcp rx = Some tcp" "rx_app rx" "Is_PSH_ACK (tcp_flags tcp)"
    and pl: "2 < length (rx_payload rx)" "\<not> size_check_drops (rx_payload rx)"
      "gp_decode gp (drop 2 (rx_payload rx)) = Some dns"
    and bl: "block start" and d: "tcp_DstPort tcp = start + of_nat d" "d < 32"
    and t: "dns_ID dns = start + of_nat t" "t < 32"
    and p: "tt_params s (uint start) = Some p" "dns_traceroute_port p = start + of_nat d" "dns_answers p = []"
  shows "trt_Handle_pkt cfg gp now reply later ipl rx s = Ret (send_fin cfg p tcp True
     (upd_param (uint start) (\<lambda>q. (append_dns_hops [\<lparr>hop_count = int t, hop_ts = now, response_ip = ip_SrcIP ipl\<rparr>] q)
        \<lparr>dns_answers := filter (\<lambda>a. a \<noteq> []) (map rr_IP (dns_Answers dns)), dns_reply_received := time_Unix now\<rparr>) s))"
proof -
  note c = calc_start_port_block [OF bl d(2)] and h = block_hop_word [of t start]
  have nf: "\<not> Is_FIN_PSH_ACK (tcp_flags tcp)" using rx(4) flag_preds_exclusive by blast
  have np: "\<not> length (rx_payload rx) \<le> 2" using pl(1) by simp
  have "trt_Handle_pkt cfg gp now reply later ipl rx s =
      Ret (trt_handle_response cfg gp now (ip_SrcIP ipl) tcp (rx_payload rx) (uint start) p s)"
    using rx p(1) c d by (simp add: trt_Handle_pkt_def)
  also have "\<dots> = Ret (send_fin cfg p tcp True (upd_param (uint start)
      (\<lambda>q. q\<lparr>dns_answers := filter (\<lambda>a. a \<noteq> []) (map rr_IP (dns_Answers dns)), dns_reply_received := time_Unix now\<rparr>)
      (upd_param (uint start) (add_dnstr (int t) now (ip_SrcIP ipl)) s)))"
    unfolding trt_handle_response_def using np pl(2,3) nf p(2,3) d t h by (simp add: Let_def)
  finally show ?thesis
    by (simp add: upd_param_twice comp_def add_dnstr_def append_dns_hops_def)
qed

lemma trt_fin_ack:
  assumes rx: "\<not> rx_time_exceeded rx" "rx_tcp rx = Some tcp" "\<not> rx_app rx" "Is_FIN_ACK (tcp_flags tcp)"
    and bl: "block start" and d: "tcp_DstPort tcp = start + of_nat d" "d < 32"
    and p: "tt_params s (uint start) = Some p" "dns_traceroute_port p = start + of_nat d"
  shows "trt_Handle_pkt cfg gp now reply later ipl rx s =
    Ret (finish (uint start) now (send_fin cfg p tcp False s))"
proof -
  note c = calc_start_port_block [OF bl d(2)]
  have "\<not> Is_SYN (tcp_flags tcp)" "\<not> Is_SYN_ACK (tcp_flags tcp)" using rx(4) flag_preds_exclusive by blast+
  then show ?thesis using rx p d c by (simp add: trt_Handle_pkt_def trt_handle_fin_ack_def Let_def)
qed

lemma send_fin_simps [simp]:
  "tt_params (send_fin cfg p tcp b s) = tt_params s" "tt_write (send_fin cfg p tcp b s) = tt_write s"
  "tt_files (send_fin cfg p tcp b s) = tt_files s" "tt_lowest_port (send_fin cfg p tcp b s) = tt_lowest_port s"
  "tt_highest_port (send_fin cfg p tcp b s) = tt_highest_port s"
  "tt_init_finished (send_fin cfg p tcp b s) = tt_init_finished s"
  "tt_waiting_to_end (send_fin cfg p tcp b s) = tt_waiting_to_end s"
  by (simp_all add: send_fin_def)

lemma time_Unix_nonneg: "0 \<le> now \<Longrightarrow> time_Unix now \<noteq> -1"
  by (simp add: time_Unix_def)

text \<open>The lines of a result file.\<close>

definition result_lines :: "tracert_hop list \<Rightarrow> tracert_hop list \<Rightarrow> ip list \<Rightarrow> string" where
  "result_lines syns dnss ans = concat (map (hop_line ''SYNTR'') syns) @ concat (map (hop_line ''DNSTR'') dnss) @
     To_csv_line [''DNSANS'', '''', '''', join_with '','' (map ip_string ans)]"

lemma result_text_lines: "result_text p = result_lines (syntr_hops p) (dnstr_hops p) (dns_answers p)"
  by (simp add: result_text_def result_lines_def str_dns_answers_def)

text \<open>The time and sender of an event, as the hop with the given count.\<close>

definition event_hop :: "nat \<Rightarrow> trt_event \<Rightarrow> tracert_hop" where
  "event_hop t e = (case e of (now, ipl, rx) \<Rightarrow> \<lparr>hop_count = int t, hop_ts = now, response_ip = ip_SrcIP ipl\<rparr>)"

text \<open>A TCP packet to a port with the given flags, with or without a payload.\<close>

definition tcp_event :: "(TCP_flags \<Rightarrow> bool) \<Rightarrow> bool \<Rightarrow> u16 \<Rightarrow> tcp_layer \<Rightarrow> trt_event \<Rightarrow> bool" where
  "tcp_event fl app port tcp e \<longleftrightarrow> (case e of (now, ipl, rx) \<Rightarrow> 0 \<le> now \<and> \<not> rx_time_exceeded rx \<and> rx_tcp rx = Some tcp \<and>
     rx_app rx = app \<and> fl (tcp_flags tcp) \<and> tcp_DstPort tcp = port)"

definition event_payload :: "trt_event \<Rightarrow> u8 list" where
  "event_payload e = (case e of (now, ipl, rx) \<Rightarrow> rx_payload rx)"


definition ex_trt_cfg :: Cfg_db where
  "ex_trt_cfg = default_cfg\<lparr>Iface_ip := ''192.0.2.100'', Dns_query := ''example.org''\<rparr>"

definition ex_trt_msg :: dns_msg where
  "ex_trt_msg = \<lparr>dns_ID = 61027, dns_RD = True, dns_OpCode = 0, dns_ResponseCode = 0, dns_QDCount = 1,
     dns_ARCount = 0, dns_Questions = [],
     dns_Answers = [\<lparr>rr_Type = DNSTypeA, rr_Class = DNSClassIN, rr_TTL = 60, rr_IP = [203, 0, 113, 1], rr_Data = None\<rparr>],
     dns_Additionals = []\<rparr>"

definition ex_trt_gp :: gopacket where
  "ex_trt_gp = \<lparr>gp_decode = (\<lambda>b. if length b < 12 then None else Some ex_trt_msg),
     gp_encode = (\<lambda>m. replicate 12 0), gp_rr_str = (\<lambda>_. ''''), gp_type_str = (\<lambda>_. ''''),
     gp_port_str = (\<lambda>_. '''')\<rparr>"

definition ex_from :: "ip \<Rightarrow> ipv4_layer" where
  "ex_from a = \<lparr>ip_TTL = 60, ip_SrcIP = a, ip_DstIP = [192, 0, 2, 100], ip_Protocol = IPProtocolTCP, ip_Id = 0\<rparr>"

definition ex_icmp :: "u16 \<Rightarrow> u16 \<Rightarrow> trt_rx" where
  "ex_icmp i port = \<lparr>rx_time_exceeded = True,
     rx_quoted = Some (i, [ucast (drop_bit 8 port), ucast port] @ replicate 18 0), rx_tcp = None,
     rx_app = False, rx_payload = []\<rparr>"

definition ex_tcp :: "bool \<Rightarrow> bool \<Rightarrow> bool \<Rightarrow> tcp_layer" where
  "ex_tcp fin syn psh = \<lparr>tcp_SrcPort = 53, tcp_DstPort = 61026, tcp_Seq = 7, tcp_Ack = 4097,
     tcp_flags = \<lparr>FIN = fin, SYN = syn, RST = False, PSH = psh, ACK = True\<rparr>, tcp_Window = 8192\<rparr>"

definition ex_tcp_rx :: "tcp_layer \<Rightarrow> u8 list \<Rightarrow> trt_rx" where
  "ex_tcp_rx tcp pl = \<lparr>rx_time_exceeded = False, rx_quoted = None, rx_tcp = Some tcp,
     rx_app = (pl \<noteq> []), rx_payload = pl\<rparr>"

lemmas ex_trt_defs = ex_trt_cfg_def ex_trt_msg_def ex_trt_gp_def ex_from_def ex_icmp_def ex_tcp_def ex_tcp_rx_def


subsection \<open>Which TTLs are probed\<close>

text \<open>
  The SYNs carry the TTLs 1 to 30 in order, as far as the loop runs before it sees a SYN-ACK;
  the queries carry the TTLs 1 to 29, as far as the loop runs before it sees a reply. So a
  target at distance 30, which the SYN with TTL 30 reaches, is never asked.
\<close>

theorem trt_probe_ttls:
  "map (ip_TTL \<circ> fst) (drop (length (tt_sent s)) (tt_sent (trace_target cfg acked later start netip s))) =
     map of_nat (takeWhile (\<lambda>j. acked j = -1) [1..<31]) \<and>
   map (ip_TTL \<circ> fst) (dns_loop cfg gp reply p tcp 1 29) = map of_nat (takeWhile (\<lambda>j. reply j = -1) [1..<30]) \<and>
   30 \<notin> set (map (ip_TTL \<circ> fst) (dns_loop cfg gp reply p tcp 1 29))"
proof (intro conjI)
  show "map (ip_TTL \<circ> fst) (drop (length (tt_sent s)) (tt_sent (trace_target cfg acked later start netip s))) =
     map of_nat (takeWhile (\<lambda>j. acked j = -1) [1..<31])"
    by (simp add: trace_target_state trt_syn_packet_def)
  show 2: "map (ip_TTL \<circ> fst) (dns_loop cfg gp reply p tcp 1 29) = map of_nat (takeWhile (\<lambda>j. reply j = -1) [1..<30])"
    by (simp add: dns_loop_sent dns_probe_def trt_build_ack_with_dns_def)
  have "(of_nat j :: u8) \<noteq> 30" if "j < 30" for j
  proof -
    have "unat (of_nat j :: u8) = j" using that by (simp add: unat_of_nat)
    then show ?thesis using that by auto
  qed
  then show "30 \<notin> set (map (ip_TTL \<circ> fst) (dns_loop cfg gp reply p tcp 1 29))"
    unfolding 2 by (auto dest!: set_takeWhileD)
qed

subsection \<open>The effect of an ICMP message\<close>

lemma handle_icmp_Ret: "\<exists>s'. handle_icmp now src q s = Ret s'"
proof -
  have two: "\<exists>w. be_uint16 (take 2 b) = Ret w" if n: "\<not> length b < 20" for b :: "u8 list"
  proof -
    from n obtain x y r where "b = x # y # r" by (cases b; cases "tl b") auto
    then show ?thesis by (simp add: be_uint16_def)
  qed
  show ?thesis
  proof (cases q)
    case (Some ib)
    obtain i b where ib: "ib = (i, b)" by (cases ib)
    show ?thesis
    proof (cases "length b < 20")
      case False
      then obtain w where "be_uint16 (take 2 b) = Ret w" using two by blast
      then show ?thesis
        by (cases "tt_params s (calc_start_port w)") (simp_all add: handle_icmp_def Let_def Some ib)
    qed (simp add: handle_icmp_def Some ib)
  qed (simp add: handle_icmp_def)
qed

lemma handle_icmp_cases:
  assumes "handle_icmp now src q s = Ret s'"
  obtains "s' = s"
  | port p where "tt_params s (calc_start_port port) = Some p" "syn_ack_received p = -1"
      "tt_lowest_port s \<le> port" "port < tt_highest_port s"
      "s' = upd_param (calc_start_port port) (add_syntr (uint port - calc_start_port port) now src) s"
  | port p and i :: u16 where "tt_params s (calc_start_port port) = Some p" "syn_ack_received p \<noteq> -1"
      "dns_traceroute_port p = port"
      "s' = upd_param (calc_start_port port) (add_dnstr (uint (i - word_of_int (calc_start_port port))) now src) s"
proof (cases q)
  case None
  with assms show ?thesis by (intro that(1)) (simp add: handle_icmp_def)
next
  case (Some ib)
  obtain i b where ib: "ib = (i, b)" by (cases ib)
  show ?thesis
  proof (cases "length b < 20")
    case True
    with assms Some ib show ?thesis by (intro that(1)) (simp add: handle_icmp_def)
  next
    case False
    with assms Some ib obtain port where eq: "(case tt_params s (calc_start_port port) of
         None \<Rightarrow> Ret s
       | Some p \<Rightarrow>
           if syn_ack_received p = -1 \<and> tt_lowest_port s \<le> port \<and> port < tt_highest_port s
           then Ret (upd_param (calc_start_port port) (add_syntr (uint port - calc_start_port port) now src) s)
           else if syn_ack_received p \<noteq> -1 \<and> dns_traceroute_port p = port
           then Ret (upd_param (calc_start_port port)
                  (add_dnstr (uint (i - word_of_int (calc_start_port port))) now src) s)
           else Ret s) = Ret s'"
      unfolding handle_icmp_def Let_def by (simp del: of_int_of_nat_eq) blast
    show ?thesis
    proof (cases "tt_params s (calc_start_port port)")
      case None
      with eq show ?thesis by (intro that(1)) simp
    next
      case (Some p)
      consider "syn_ack_received p = -1 \<and> tt_lowest_port s \<le> port \<and> port < tt_highest_port s"
        | "\<not> (syn_ack_received p = -1 \<and> tt_lowest_port s \<le> port \<and> port < tt_highest_port s)"
          "syn_ack_received p \<noteq> -1 \<and> dns_traceroute_port p = port"
        | "\<not> (syn_ack_received p = -1 \<and> tt_lowest_port s \<le> port \<and> port < tt_highest_port s)"
          "\<not> (syn_ack_received p \<noteq> -1 \<and> dns_traceroute_port p = port)" by blast
      then show ?thesis
      proof cases
        case 1
        with eq Some show ?thesis by (intro that(2) [of port p]) simp_all
      next
        case 2
        with eq Some show ?thesis by (intro that(3) [of port p i]) simp_all
      next
        case 3
        with eq Some show ?thesis by (intro that(1)) (simp only: option.case if_False outcome.inject)
      qed
    qed
  qed
qed

subsection \<open>More than 140 routines\<close>

text \<open>
  The bound \<open>highest_port\<close> is a 16-bit value. From 141 routines on (up to 2048) it wraps below
  \<open>lowest_port\<close>, and no time-exceeded message, whatever it quotes, adds a hop to any SYN trace.
\<close>

theorem trt_hops_lost_beyond_140:
  assumes n: "141 \<le> unat (Number_routines cfg)" "unat (Number_routines cfg) \<le> 2048"
    and s: "tt_lowest_port s = tt_lowest_port (trt_init cfg)" "tt_highest_port s = tt_highest_port (trt_init cfg)"
    and h: "trt_Handle_pkt cfg gp now reply later ipl rx s = Ret s'" "rx_time_exceeded rx"
  shows "map_option syntr_hops (tt_params s' k) = map_option syntr_hops (tt_params s k)"
proof -
  have "61024 + 32 * Number_routines cfg = of_nat (61024 + 32 * unat (Number_routines cfg))" by simp
  then have "unat (61024 + 32 * Number_routines cfg) = (61024 + 32 * unat (Number_routines cfg)) mod 65536"
    by (simp only: unat_of_nat) simp
  also have "\<dots> = (65536 + (32 * unat (Number_routines cfg) - 4512)) mod 65536"
    using n(1) by simp
  also have "\<dots> \<le> 61024" using n(2) by simp
  finally have le: "61024 + 32 * Number_routines cfg \<le> 61024" by (simp add: word_le_nat_alt)
  have "handle_icmp now (ip_SrcIP ipl) (rx_quoted rx) s = Ret s'" using h by (simp add: trt_Handle_pkt_def)
  then show ?thesis
  proof (cases rule: handle_icmp_cases)
    case (2 port p)
    then have "port < port" using s le by (simp add: trt_init_def)
    then show ?thesis by simp
  next
    case (3 port p i)
    then show ?thesis by (cases "k = calc_start_port port") (simp_all add: add_dnstr_def)
  qed simp
qed

lemma trt_hops_lost_beyond_140_witness:
  "\<exists>s'. trt_Handle_pkt (ex_trt_cfg\<lparr>Number_routines := 200\<rparr>) ex_trt_gp 1 (\<lambda>_. -1) 2 (ex_from [198, 51, 100, 1])
       (ex_icmp 61025 61025)
       (trace_target (ex_trt_cfg\<lparr>Number_routines := 200\<rparr>) (\<lambda>_. -1) 0 61024 [192, 0, 2, 1]
         (trt_init (ex_trt_cfg\<lparr>Number_routines := 200\<rparr>))) = Ret s' \<and>
     map_option syntr_hops (tt_params s' 61024) = Some []"
proof -
  define cfg where "cfg = ex_trt_cfg\<lparr>Number_routines := 200\<rparr>"
  define s where "s = trace_target cfg (\<lambda>_. -1) 0 61024 [192, 0, 2, 1] (trt_init cfg)"
  obtain s' where s': "handle_icmp 1 [198, 51, 100, 1] (rx_quoted (ex_icmp 61025 61025)) s = Ret s'"
    using handle_icmp_Ret by blast
  then have h: "trt_Handle_pkt cfg ex_trt_gp 1 (\<lambda>_. -1) 2 (ex_from [198, 51, 100, 1]) (ex_icmp 61025 61025) s = Ret s'"
    by (simp add: trt_Handle_pkt_def ex_icmp_def ex_from_def)
  have "map_option syntr_hops (tt_params s' 61024) = map_option syntr_hops (tt_params s 61024)"
    by (rule trt_hops_lost_beyond_140 [OF _ _ _ _ h])
      (simp_all add: cfg_def s_def trace_target_state ex_icmp_def)
  moreover have "map_option syntr_hops (tt_params s 61024) = Some []"
    using trace_target_state(1) [of cfg "\<lambda>_. -1" 0 61024] by (auto simp: s_def begun_def)
  ultimately show ?thesis using h unfolding cfg_def s_def by auto
qed

subsection \<open>The timeout routine\<close>

lemma timeout_one_simps:
  "tt_params (timeout_one now k s) = (tt_params s)(k := map_option (\<lambda>p. if timed_out now p
      then p\<lparr>finished := time_Unix now\<rparr> else p) (tt_params s k))"
  "tt_write (timeout_one now k s) = tt_write s @
      (if \<exists>p. tt_params s k = Some p \<and> timed_out now p then [k] else [])"
  by (auto simp: timeout_one_def fun_upd_idem split: option.split)

lemma trt_timeout_Cons: "trt_timeout now (k # ks) s = trt_timeout now ks (timeout_one now k s)"
  by (simp add: trt_timeout_def)

lemma trt_timeout_pass:
  assumes "distinct ks"
  shows "tt_write (trt_timeout now ks s) = tt_write s @
       filter (\<lambda>k. \<exists>p. tt_params s k = Some p \<and> timed_out now p) ks"
    and "k' \<in> set ks \<Longrightarrow> tt_params (trt_timeout now ks s) k' =
       map_option (\<lambda>p. if timed_out now p then p\<lparr>finished := time_Unix now\<rparr> else p) (tt_params s k')"
    and "k' \<notin> set ks \<Longrightarrow> tt_params (trt_timeout now ks s) k' = tt_params s k'"
  using assms
proof (induction ks arbitrary: s)
  case Nil
  {
    case 1 then show ?case by (simp add: trt_timeout_def)
  next
    case 2 then show ?case by (simp add: trt_timeout_def)
  next
    case 3 then show ?case by (simp add: trt_timeout_def)
  }
next
  case (Cons k ks)
  {
    case 1
    have f: "filter (\<lambda>j. \<exists>p. tt_params (timeout_one now k s) j = Some p \<and> timed_out now p) ks =
        filter (\<lambda>j. \<exists>p. tt_params s j = Some p \<and> timed_out now p) ks"
      using 1 by (intro filter_cong) (auto simp: timeout_one_simps)
    show ?case using 1 Cons.IH(1) by (simp add: trt_timeout_Cons f timeout_one_simps(2))
  next
    case 2
    then show ?case
      using Cons.IH(2,3) [of "timeout_one now k s"]
      by (cases "k' = k") (auto simp: trt_timeout_Cons timeout_one_simps)
  next
    case 3
    then show ?case using Cons.IH(3) [of "timeout_one now k s"] by (auto simp: trt_timeout_Cons timeout_one_simps)
  }
qed

text \<open>
  C31. One pass of the timeout routine queues exactly the traceroutes that are due, each once, and a
  second pass at any later time queues none of them again. A traceroute is due at the latest seven
  seconds after its SYNs and, once it has an accepted SYN-ACK, its queries are sent.
\<close>

theorem trt_timeout_once:
  assumes d: "distinct ks" and t: "0 \<le> now"
  shows "tt_write (trt_timeout now ks s) = tt_write s @
       filter (\<lambda>k. \<exists>p. tt_params s k = Some p \<and> timed_out now p) ks \<and>
    (\<forall>k \<in> set ks. (\<exists>p. tt_params s k = Some p \<and> timed_out now p) \<longrightarrow>
       k \<notin> set (drop (length (tt_write (trt_timeout now ks s)))
                 (tt_write (trt_timeout later ks (trt_timeout now ks s))))) \<and>
    (\<forall>k \<in> set ks. \<forall>p. tt_params s k = Some p \<and> all_syns_sent p \<noteq> -1 \<and>
       all_syns_sent p + 6 < time_Unix now \<and> all_dns_packets_sent p + 6 < time_Unix now \<and>
       (syn_ack_received p = -1 \<or> all_dns_packets_sent p \<noteq> -1) \<longrightarrow>
       map_option finished (tt_params (trt_timeout now ks s) k) \<noteq> Some (-1))"
proof (intro conjI)
  note P = trt_timeout_pass [OF d]
  have u: "time_Unix now \<noteq> -1" using t by (rule time_Unix_nonneg)
  show "tt_write (trt_timeout now ks s) = tt_write s @
       filter (\<lambda>k. \<exists>p. tt_params s k = Some p \<and> timed_out now p) ks" by (rule P(1))
  have "\<not> timed_out later (p\<lparr>finished := time_Unix now\<rparr>)" for p using u by (simp add: timed_out_def)
  then show "\<forall>k \<in> set ks. (\<exists>p. tt_params s k = Some p \<and> timed_out now p) \<longrightarrow>
       k \<notin> set (drop (length (tt_write (trt_timeout now ks s)))
                 (tt_write (trt_timeout later ks (trt_timeout now ks s))))"
    using P(2) [where s = s and now = now] by (auto simp: P(1) [where now = later])
  have due: "timed_out now p" if "finished p = -1" "all_syns_sent p \<noteq> -1" "all_syns_sent p + 6 < time_Unix now"
    "all_dns_packets_sent p + 6 < time_Unix now" "syn_ack_received p = -1 \<or> all_dns_packets_sent p \<noteq> -1" for p
    using that by (auto simp: timed_out_def)
  show "\<forall>k \<in> set ks. \<forall>p. tt_params s k = Some p \<and> all_syns_sent p \<noteq> -1 \<and>
       all_syns_sent p + 6 < time_Unix now \<and> all_dns_packets_sent p + 6 < time_Unix now \<and>
       (syn_ack_received p = -1 \<or> all_dns_packets_sent p \<noteq> -1) \<longrightarrow>
       map_option finished (tt_params (trt_timeout now ks s) k) \<noteq> Some (-1)"
    using P(2) [where s = s and now = now] u due by auto
qed

lemma trt_timeout_once_witness:
  "tt_write (trt_timeout (9 * 10 ^ 9) [61024]
     (trace_target ex_trt_cfg (\<lambda>_. -1) 0 61024 [192, 0, 2, 1] (trt_init ex_trt_cfg))) = [61024]"
proof -
  let ?s = "trace_target ex_trt_cfg (\<lambda>_. -1) 0 61024 [192, 0, 2, 1] (trt_init ex_trt_cfg)"
  have "\<exists>p. tt_params ?s 61024 = Some p \<and> timed_out (9 * 10 ^ 9) p"
    using trace_target_state(1) [of ex_trt_cfg "\<lambda>_. -1" 0 61024 "[192, 0, 2, 1]" "trt_init ex_trt_cfg"]
    by (auto simp: begun_def timed_out_def time_Unix_def)
  moreover have "tt_write ?s = []" by (simp add: trace_target_state trt_init_def)
  ultimately show ?thesis using trt_timeout_once [of "[61024]" "9 * 10 ^ 9" ?s] by simp
qed

text \<open>
  The object of a block is put into the map before it is reset. If the timeout routine passes
  in between, it takes the zero values for times of 1970, queues the object, and the writer stores a
  file named after the nil address and marks the object written.
\<close>

theorem trt_fresh_object_written:
  assumes "tt_params s k = None" and "tt_write s = []" and "7 * 10 ^ 9 \<le> now"
  defines "s1 \<equiv> Write_results_one (trt_timeout now [k] (insert_param k s))"
  shows "tt_files s1 ''<nil>.csv'' = Some (result_lines [] [] []) \<and> map_option written (tt_params s1 k) = Some True"
proof -
  have "6 < time_Unix now" using assms(3) by (simp add: time_Unix_def)
  then have d: "timed_out now new_param" by (simp add: timed_out_def new_param_def)
  have i: "tt_params (insert_param k s) k = Some new_param" by (simp add: assms(1))
  have f: "timeout_one now k (insert_param k s) = finish k now (insert_param k s)"
    by (simp only: timeout_one_def i option.case d if_True)
  have "trt_timeout now [k] (insert_param k s) = finish k now (insert_param k s)"
    by (simp add: trt_timeout_def f)
  then show ?thesis
    unfolding s1_def
    by (simp_all add: Write_results_one_def assms i result_file_def new_param_def ip_string_def result_text_lines)
qed

lemma trt_fresh_object_written_witness:
  "\<exists>s1 :: trt_state. tt_files s1 ''<nil>.csv'' = Some (result_lines [] [] []) \<and> map_option written (tt_params s1 61024) = Some True"
  by (rule exI, rule trt_fresh_object_written [of "trt_init ex_trt_cfg" 61024 "8 * 10 ^ 9"])
    (simp_all add: trt_init_def)

end
