(* ===== verification/TraceSystem.thy ===== *)
theory TraceSystem
  imports Traceroute
begin

section \<open>The routines of the traceroute together\<close>

text \<open>
  Every routine of a block, every handler of a packet (\<open>Packet_capture\<close> starts one per packet), the
  timeout routine and the writer run at the same time. A step of the relation is what one of them
  does between two points where another can come in: a section under the lock is one step, and so is
  each packet sent, each test of fields that are read without the lock, and each part that the writer
  reads and writes. The functions of \<open>Traceroute\<close> are what a handler or the writer does when nobody
  comes in between (\<open>handler_alone\<close>, \<open>writer_alone\<close>).
\<close>

subsection \<open>The handlers in single acts\<close>

text \<open>
  What is left to do of a handler: to append a hop under the lock; to accept the first SYN-ACK under the
  lock; to send the query with a TTL, if no reply has come; to enter that all are sent; to send an ACK or
  a FIN-ACK; to test whether a FIN-ACK is for the port of the queries; to test a response; to store its
  answers under the lock; to finish the object and queue it under the lock.
\<close>

datatype trt_act =
    T_syn_hop int int ip
  | T_dns_hop int int ip
  | T_syn_ack ip tcp_layer
  | T_query tcp_layer nat
  | T_queries_sent tcp_layer
  | T_fin tcp_layer bool
  | T_test_fin_ack tcp_layer
  | T_test_response tcp_layer "ip list"
  | T_store tcp_layer "ip list"
  | T_finish tcp_layer

definition tcp_block :: "tcp_layer \<Rightarrow> int" where
  "tcp_block tcp = calc_start_port (tcp_DstPort tcp)"

fun act_key :: "trt_act \<Rightarrow> int" where
  "act_key (T_syn_hop k h src) = k"
| "act_key (T_dns_hop k h src) = k"
| "act_key (T_syn_ack src tcp) = tcp_block tcp"
| "act_key (T_query tcp i) = tcp_block tcp"
| "act_key (T_queries_sent tcp) = tcp_block tcp"
| "act_key (T_fin tcp b) = tcp_block tcp"
| "act_key (T_test_fin_ack tcp) = tcp_block tcp"
| "act_key (T_test_response tcp ips) = tcp_block tcp"
| "act_key (T_store tcp ips) = tcp_block tcp"
| "act_key (T_finish tcp) = tcp_block tcp"

text \<open>One act on the object \<open>p\<close> of its block: the new state, and what it puts before the rest of the handler.\<close>

fun run_act :: "Cfg_db \<Rightarrow> gopacket \<Rightarrow> time \<Rightarrow> tracert_param \<Rightarrow> trt_act \<Rightarrow> trt_state \<Rightarrow> trt_state \<times> trt_act list" where
  "run_act cfg gp now p (T_syn_hop k h src) s = (upd_param k (add_syntr h now src) s, [])"
| "run_act cfg gp now p (T_dns_hop k h src) s = (upd_param k (add_dnstr h now src) s, [])"
| "run_act cfg gp now p (T_syn_ack src tcp) s =
     (upd_param (tcp_block tcp) (\<lambda>q. fst (syn_ack_locked (tcp_block tcp) now src tcp q)) s,
      if snd (syn_ack_locked (tcp_block tcp) now src tcp p) then [T_query tcp 1] else [])"
| "run_act cfg gp now p (T_query tcp i) s =
     (if i < 30 \<and> dns_reply_received p = -1 then (trt_emit (dns_probe cfg gp p tcp i) s, [T_query tcp (Suc i)])
      else (s, [T_queries_sent tcp]))"
| "run_act cfg gp now p (T_queries_sent tcp) s =
     (upd_param (tcp_block tcp) (\<lambda>q. q\<lparr>all_dns_packets_sent := time_Unix now\<rparr>) s, [])"
| "run_act cfg gp now p (T_fin tcp b) s = (send_fin cfg p tcp b s, [])"
| "run_act cfg gp now p (T_test_fin_ack tcp) s =
     (s, if tcp_DstPort tcp = dns_traceroute_port p then [T_finish tcp] else [])"
| "run_act cfg gp now p (T_test_response tcp ips) s =
     (s, if tcp_DstPort tcp \<noteq> dns_traceroute_port p \<or> dns_answers p \<noteq> [] then [T_fin tcp True]
         else [T_store tcp ips, T_fin tcp True] @ (if Is_FIN_PSH_ACK (tcp_flags tcp) then [T_finish tcp] else []))"
| "run_act cfg gp now p (T_store tcp ips) s =
     (upd_param (tcp_block tcp) (\<lambda>q. q\<lparr>dns_answers := ips, dns_reply_received := time_Unix now\<rparr>) s, [])"
| "run_act cfg gp now p (T_finish tcp) s = (finish (tcp_block tcp) now s, [])"

text \<open>What the handler of a packet has to do, as it decides with the first look at the object.\<close>

definition icmp_acts :: "ip \<Rightarrow> (u16 \<times> u8 list) option \<Rightarrow> trt_state \<Rightarrow> trt_act list outcome" where
  "icmp_acts src quoted s =
     (case quoted of
        None \<Rightarrow> Ret []
      | Some (inner_id, inner_payload) \<Rightarrow>
          if length inner_payload < 20 then Ret []
          else bindO (be_uint16 (take 2 inner_payload)) (\<lambda>source_port.
            let start_port = calc_start_port source_port in
            case tt_params s start_port of
              None \<Rightarrow> Ret []
            | Some p \<Rightarrow>
                if syn_ack_received p = -1 \<and> tt_lowest_port s \<le> source_port \<and> source_port < tt_highest_port s
                then Ret [T_syn_hop start_port (uint source_port - start_port) src]
                else if syn_ack_received p \<noteq> -1 \<and> dns_traceroute_port p = source_port
                then Ret [T_dns_hop start_port (uint (inner_id - word_of_int start_port)) src]
                else Ret []))"

definition response_acts :: "gopacket \<Rightarrow> ip \<Rightarrow> tcp_layer \<Rightarrow> u8 list \<Rightarrow> tracert_param \<Rightarrow> trt_act list" where
  "response_acts gp src tcp payload p =
     (if length payload \<le> 2 then (if finished p = -1 then [T_fin tcp True] else [])
      else if size_check_drops payload then [T_fin tcp True]
      else case gp_decode gp (drop 2 payload) of
        None \<Rightarrow> (if finished p = -1 then [T_fin tcp True] else [])
      | Some dns \<Rightarrow> [T_dns_hop (tcp_block tcp) (uint (dns_ID dns - word_of_int (tcp_block tcp))) src,
          T_test_response tcp (filter (\<lambda>a. a \<noteq> []) (map rr_IP (dns_Answers dns)))])"

definition packet_acts :: "gopacket \<Rightarrow> ipv4_layer \<Rightarrow> trt_rx \<Rightarrow> trt_state \<Rightarrow> trt_act list outcome" where
  "packet_acts gp ipl rx s =
     (if rx_time_exceeded rx then icmp_acts (ip_SrcIP ipl) (rx_quoted rx) s
      else case rx_tcp rx of
        None \<Rightarrow> Ret []
      | Some tcp \<Rightarrow>
          (case tt_params s (tcp_block tcp) of
            None \<Rightarrow> Ret []
          | Some p \<Rightarrow>
              Ret (if \<not> rx_app rx then
                     (if Is_SYN (tcp_flags tcp) then []
                      else if Is_SYN_ACK (tcp_flags tcp) then
                        (if syn_ack_received p = -1 then [T_syn_ack (ip_SrcIP ipl) tcp]
                         else if tcp_DstPort tcp \<noteq> dns_traceroute_port p then [T_fin tcp False, T_fin tcp True]
                         else [])
                      else if Is_FIN_ACK (tcp_flags tcp) then [T_fin tcp False, T_test_fin_ack tcp]
                      else [])
                   else if Is_PSH_ACK (tcp_flags tcp) \<or> Is_FIN_PSH_ACK (tcp_flags tcp)
                   then response_acts gp (ip_SrcIP ipl) tcp (rx_payload rx) p
                   else [])))"

text \<open>A handler with nobody between its acts does what \<open>trt_Handle_pkt\<close> does; the fuel is the number of acts.\<close>

fun alone :: "Cfg_db \<Rightarrow> gopacket \<Rightarrow> time \<Rightarrow> nat \<Rightarrow> trt_act list \<Rightarrow> trt_state \<Rightarrow> trt_state option" where
  "alone cfg gp now n [] s = Some s"
| "alone cfg gp now 0 (a # as) s = None"
| "alone cfg gp now (Suc n) (a # as) s = (case tt_params s (act_key a) of None \<Rightarrow> None
     | Some p \<Rightarrow> (case run_act cfg gp now p a s of (s', bs) \<Rightarrow> alone cfg gp now n (bs @ as) s'))"

lemma send_fin_cong: "initial_ip p = initial_ip q \<Longrightarrow> send_fin cfg p = send_fin cfg q"
  by (intro ext) (simp add: send_fin_def)

lemma alone_icmp:
  assumes as: "icmp_acts src q s = Ret as" and h: "handle_icmp now src q s = Ret s'"
  shows "alone cfg gp now 5 as s = Some s'"
proof (cases q)
  case (Some ib)
  obtain i b where ib: "ib = (i, b)" by (cases ib)
  show ?thesis
  proof (cases "length b < 20")
    case False
    with as Some ib obtain w where w: "be_uint16 (take 2 b) = Ret w" by (auto simp: icmp_acts_def)
    show ?thesis
    proof (cases "tt_params s (calc_start_port w)")
      case (Some p)
      with as h \<open>q = Some ib\<close> ib False w show ?thesis
        by (simp add: icmp_acts_def handle_icmp_def Let_def eval_nat_numeral del: of_int_of_nat_eq split: if_splits) auto
    qed (use as h Some ib False w in \<open>simp add: icmp_acts_def handle_icmp_def Let_def\<close>)
  qed (use as h Some ib in \<open>simp add: icmp_acts_def handle_icmp_def\<close>)
qed (use as h in \<open>simp add: icmp_acts_def handle_icmp_def\<close>)

lemma alone_response:
  assumes "tt_params s (tcp_block tcp) = Some p"
  shows "alone cfg gp now 5 (response_acts gp src tcp payload p) s =
    Some (trt_handle_response cfg gp now src tcp payload (tcp_block tcp) p s)"
proof -
  have f: "send_fin cfg ((add_dnstr h now src p)\<lparr>dns_answers := a, dns_reply_received := t\<rparr>) = send_fin cfg p"
    "send_fin cfg (add_dnstr h now src p) = send_fin cfg p" for h a t
    by (rule send_fin_cong, simp add: add_dnstr_def)+
  have g: "dns_traceroute_port (add_dnstr h now src p) = dns_traceroute_port p"
    "dns_answers (add_dnstr h now src p) = dns_answers p" for h by (simp_all add: add_dnstr_def)
  show ?thesis
    using assms by (auto simp: response_acts_def trt_handle_response_def Let_def eval_nat_numeral f g split: option.split)
qed

lemma handler_alone:
  assumes h: "trt_Handle_pkt cfg gp now reply later ipl rx s = Ret s'" and as: "packet_acts gp ipl rx s = Ret as"
    and n: "\<forall>src tcp. T_syn_ack src tcp \<notin> set as"
  shows "alone cfg gp now 5 as s = Some s'"
proof (cases "rx_time_exceeded rx")
  case True
  with h as show ?thesis by (intro alone_icmp) (simp_all add: trt_Handle_pkt_def packet_acts_def)
next
  case False
  show ?thesis
  proof (cases "rx_tcp rx")
    case None
    with False h as show ?thesis by (simp add: trt_Handle_pkt_def packet_acts_def)
  next
    case (Some tcp)
    show ?thesis
    proof (cases "tt_params s (tcp_block tcp)")
      case None
      with False Some h as show ?thesis
        by (simp add: trt_Handle_pkt_def packet_acts_def Let_def tcp_block_def [symmetric])
    next
      case p: (Some p)
      show ?thesis
        using False Some p h as n alone_response [OF p]
        by (auto simp: trt_Handle_pkt_def packet_acts_def Let_def tcp_block_def [symmetric] eval_nat_numeral
            handle_later_syn_ack_def trt_handle_fin_ack_def split: if_splits)
    qed
  qed
qed

subsection \<open>The steps of the writer\<close>

text \<open>
  The writer has taken an object; it reads the name and creates the file; it reads the hops of the SYNs,
  those of the queries and the answers, and writes each; then it marks the object under the lock.
\<close>

datatype writer_pc = W_idle | W_taken int | W_open int string nat

definition result_part :: "nat \<Rightarrow> tracert_param \<Rightarrow> string" where
  "result_part i p = (if i = 0 then concat (map (hop_line ''SYNTR'') (syntr_hops p))
     else if i = 1 then concat (map (hop_line ''DNSTR'') (dnstr_hops p)) else To_csv_line (str_dns_answers p))"

definition create_file :: "string \<Rightarrow> trt_state \<Rightarrow> trt_state" where
  "create_file f s = s\<lparr>tt_files := (tt_files s)(f \<mapsto> [])\<rparr>"

definition write_part :: "string \<Rightarrow> string \<Rightarrow> trt_state \<Rightarrow> trt_state" where
  "write_part f t s = s\<lparr>tt_files := (tt_files s)(f := map_option (\<lambda>u. u @ t) (tt_files s f))\<rparr>"

definition mark_written :: "int \<Rightarrow> trt_state \<Rightarrow> trt_state" where
  "mark_written k = upd_param k (\<lambda>q. q\<lparr>written := True\<rparr>)"

lemma writer_alone:
  assumes "tt_write s = k # ks" and "tt_params s k = Some p" and "f = result_file (initial_ip p)"
  shows "Write_results_one s = mark_written k (write_part f (result_part 2 p) (write_part f (result_part 1 p)
    (write_part f (result_part 0 p) (create_file f (s\<lparr>tt_write := ks\<rparr>)))))"
  using assms by (simp add: Write_results_one_def mark_written_def write_part_def create_file_def result_part_def
      result_text_def upd_param_def)

subsection \<open>The system\<close>

datatype routine_pc = Idle | Waiting ip | Ready ip | Sending ip nat

record trt_sys =
  sy_st :: trt_state
  sy_pc :: "u16 \<Rightarrow> routine_pc"
  sy_handlers :: "trt_act list list"
  sy_due :: "int option"
  sy_writer :: writer_pc

definition sys_init :: "Cfg_db \<Rightarrow> trt_sys" where
  "sys_init cfg = \<lparr>sy_st = trt_init cfg, sy_pc = (\<lambda>_. Idle), sy_handlers = [], sy_due = None, sy_writer = W_idle\<rparr>"

definition pc_upd :: "u16 \<Rightarrow> routine_pc \<Rightarrow> trt_state \<Rightarrow> trt_sys \<Rightarrow> trt_sys" where
  "pc_upd start pc s S = S\<lparr>sy_st := s, sy_pc := (sy_pc S)(start := pc)\<rparr>"

text \<open>\<open>sy_due\<close> is the object that the timeout routine has found due and not locked yet. The clock is past 1970.\<close>

inductive trt_step :: "Cfg_db \<Rightarrow> gopacket \<Rightarrow> trt_sys \<Rightarrow> trt_sys \<Rightarrow> bool" for cfg gp where
  recv: "start \<in> set (trt_start_ports cfg) \<Longrightarrow> sy_pc S start = Idle \<Longrightarrow>
    trt_step cfg gp S (pc_upd start (Waiting netip)
      (insert_param (uint start) (set_finished_flag start False (sy_st S))) S)"
| free: "sy_pc S start = Waiting netip \<Longrightarrow> tt_params (sy_st S) (uint start) = Some p \<Longrightarrow>
    \<not> must_wait cfg now p \<Longrightarrow> trt_step cfg gp S (pc_upd start (Ready netip) (sy_st S) S)"
| begin_t: "sy_pc S start = Ready netip \<Longrightarrow>
    trt_step cfg gp S (pc_upd start (Sending netip 1) (begin_target (uint start) netip (sy_st S)) S)"
| syn: "sy_pc S start = Sending netip i \<Longrightarrow> i \<le> 30 \<Longrightarrow> tt_params (sy_st S) (uint start) = Some p \<Longrightarrow>
    syn_ack_received p = -1 \<Longrightarrow>
    trt_step cfg gp S (pc_upd start (Sending netip (Suc i))
      (trt_send_syn cfg (of_nat i) netip (of_nat i) start (sy_st S)) S)"
| syns_sent: "sy_pc S start = Sending netip i \<Longrightarrow> tt_params (sy_st S) (uint start) = Some p \<Longrightarrow>
    30 < i \<or> syn_ack_received p \<noteq> -1 \<Longrightarrow>
    trt_step cfg gp S (pc_upd start Idle
      (upd_param (uint start) (\<lambda>p. p\<lparr>all_syns_sent := time_Unix now\<rparr>) (sy_st S)) S)"
| tick: "sy_pc S start = Idle \<Longrightarrow> trt_step cfg gp S (S\<lparr>sy_st := idle_tick start (sy_st S)\<rparr>)"
| packet: "packet_acts gp ipl rx (sy_st S) = Ret as \<Longrightarrow>
    trt_step cfg gp S (S\<lparr>sy_handlers := as # sy_handlers S\<rparr>)"
| act: "a # as \<in> set (sy_handlers S) \<Longrightarrow> tt_params (sy_st S) (act_key a) = Some p \<Longrightarrow> 0 \<le> now \<Longrightarrow>
    run_act cfg gp now p a (sy_st S) = (s', bs) \<Longrightarrow>
    trt_step cfg gp S (S\<lparr>sy_st := s', sy_handlers := (bs @ as) # remove1 (a # as) (sy_handlers S)\<rparr>)"
| sweep: "sy_due S = None \<Longrightarrow> tt_params (sy_st S) k = Some p \<Longrightarrow> timed_out now p \<Longrightarrow>
    trt_step cfg gp S (S\<lparr>sy_due := Some k\<rparr>)"
| sweep_lock: "sy_due S = Some k \<Longrightarrow> tt_params (sy_st S) k = Some p \<Longrightarrow> 0 \<le> now \<Longrightarrow>
    trt_step cfg gp S (S\<lparr>sy_st := finish k now (sy_st S), sy_due := None\<rparr>)"
| take_out: "sy_writer S = W_idle \<Longrightarrow> tt_write (sy_st S) = k # ks \<Longrightarrow>
    trt_step cfg gp S (S\<lparr>sy_st := (sy_st S)\<lparr>tt_write := ks\<rparr>, sy_writer := W_taken k\<rparr>)"
| create: "sy_writer S = W_taken k \<Longrightarrow> tt_params (sy_st S) k = Some p \<Longrightarrow> f = result_file (initial_ip p) \<Longrightarrow>
    trt_step cfg gp S (S\<lparr>sy_st := create_file f (sy_st S), sy_writer := W_open k f 0\<rparr>)"
| part: "sy_writer S = W_open k f i \<Longrightarrow> i < 3 \<Longrightarrow> tt_params (sy_st S) k = Some p \<Longrightarrow>
    trt_step cfg gp S (S\<lparr>sy_st := write_part f (result_part i p) (sy_st S), sy_writer := W_open k f (Suc i)\<rparr>)"
| mark: "sy_writer S = W_open k f 3 \<Longrightarrow>
    trt_step cfg gp S (S\<lparr>sy_st := mark_written k (sy_st S), sy_writer := W_idle\<rparr>)"
| all_read: "trt_step cfg gp S (S\<lparr>sy_st := (sy_st S)\<lparr>tt_waiting_to_end := True\<rparr>\<rparr>)"

inductive trt_run :: "Cfg_db \<Rightarrow> gopacket \<Rightarrow> trt_sys \<Rightarrow> bool" for cfg gp where
  start: "trt_run cfg gp (sys_init cfg)"
| step: "trt_run cfg gp S \<Longrightarrow> trt_step cfg gp S S' \<Longrightarrow> trt_run cfg gp S'"

subsection \<open>Blocks and hops\<close>

definition hops_ok :: "tracert_param \<Rightarrow> bool" where
  "hops_ok p \<longleftrightarrow> (\<forall>h \<in> set (syntr_hops p). 0 \<le> hop_count h \<and> hop_count h < 32) \<and>
     (\<forall>h \<in> set (dnstr_hops p). 0 \<le> hop_count h \<and> hop_count h < 65536)"

fun act_ok :: "trt_act \<Rightarrow> bool" where
  "act_ok (T_syn_hop k h src) \<longleftrightarrow> 0 \<le> h \<and> h < 32"
| "act_ok (T_dns_hop k h src) \<longleftrightarrow> 0 \<le> h \<and> h < 65536"
| "act_ok a \<longleftrightarrow> True"

definition own_block :: "Cfg_db \<Rightarrow> int \<Rightarrow> bool" where
  "own_block cfg k \<longleftrightarrow> (\<exists>start \<in> set (trt_start_ports cfg). k = uint start)"

definition own_packet :: "Cfg_db \<Rightarrow> trt_packet \<Rightarrow> bool" where
  "own_packet cfg pkt \<longleftrightarrow> own_block cfg (calc_start_port (tcp_SrcPort (fst (snd pkt))))"

definition trt_ok :: "Cfg_db \<Rightarrow> trt_state \<Rightarrow> bool" where
  "trt_ok cfg s \<longleftrightarrow> (\<forall>k p. tt_params s k = Some p \<longrightarrow> own_block cfg k \<and> hops_ok p) \<and>
     (\<forall>pkt \<in> set (tt_sent s). own_packet cfg pkt)"

definition sys_ok :: "Cfg_db \<Rightarrow> trt_sys \<Rightarrow> bool" where
  "sys_ok cfg S \<longleftrightarrow> trt_ok cfg (sy_st S) \<and> (\<forall>as \<in> set (sy_handlers S). \<forall>a \<in> set as. act_ok a)"

lemma trt_ok_key: "trt_ok cfg s \<Longrightarrow> tt_params s k = Some p \<Longrightarrow> own_block cfg k"
  by (simp add: trt_ok_def)

lemma trt_ok_cong: "tt_params s' = tt_params s \<Longrightarrow> tt_sent s' = tt_sent s \<Longrightarrow> trt_ok cfg s' = trt_ok cfg s"
  by (simp add: trt_ok_def)

lemma trt_ok_upd:
  assumes "trt_ok cfg s" and "\<And>p. tt_params s k = Some p \<Longrightarrow> hops_ok p \<Longrightarrow> hops_ok (f p)"
  shows "trt_ok cfg (upd_param k f s)"
  using assms by (auto simp: trt_ok_def split: if_splits)

lemma trt_ok_emit: "trt_ok cfg s \<Longrightarrow> own_packet cfg pkt \<Longrightarrow> trt_ok cfg (trt_emit pkt s)"
  by (auto simp: trt_ok_def)

lemma hops_ok_syn: "0 \<le> h \<Longrightarrow> h < 32 \<Longrightarrow> hops_ok p \<Longrightarrow> hops_ok (add_syntr h now src p)"
  by (auto simp: add_syntr_def hops_ok_def)

lemma hops_ok_dns: "0 \<le> h \<Longrightarrow> h < 65536 \<Longrightarrow> hops_ok p \<Longrightarrow> hops_ok (add_dnstr h now src p)"
  by (auto simp: add_dnstr_def hops_ok_def)

lemma word_hop: "0 \<le> uint (w :: u16)" "uint (w :: u16) < 65536"
  using unsigned_less [of w, where ?'a = int] by simp_all

lemma icmp_acts_ok:
  assumes "icmp_acts src q s = Ret as" and "a \<in> set as"
  shows "act_ok a"
proof (cases q)
  case (Some ib)
  obtain i b where ib: "ib = (i, b)" by (cases ib)
  show ?thesis
  proof (cases "length b < 20")
    case False
    with assms(1) Some ib obtain w where w: "be_uint16 (take 2 b) = Ret w" by (auto simp: icmp_acts_def)
    show ?thesis
    proof (cases "tt_params s (calc_start_port w)")
      case (Some p)
      then have "as \<in> {[], [T_syn_hop (calc_start_port w) (uint w - calc_start_port w) src],
          [T_dns_hop (calc_start_port w) (uint (i - word_of_int (calc_start_port w))) src]}"
        using assms(1) \<open>q = Some ib\<close> ib False w
        by (simp add: icmp_acts_def Let_def del: of_int_of_nat_eq split: if_splits)
      then show ?thesis using assms(2) calc_start_port_range [of w] word_hop by auto
    qed (use assms Some ib False w in \<open>simp add: icmp_acts_def Let_def\<close>)
  qed (use assms Some ib in \<open>simp add: icmp_acts_def\<close>)
qed (use assms in \<open>simp add: icmp_acts_def\<close>)

lemma response_acts_ok: "a \<in> set (response_acts gp src tcp payload p) \<Longrightarrow> act_ok a"
  by (auto simp: response_acts_def word_hop split: if_splits option.splits)

lemma packet_acts_ok: "packet_acts gp ipl rx s = Ret as \<Longrightarrow> a \<in> set as \<Longrightarrow> act_ok a"
  using icmp_acts_ok response_acts_ok
  by (fastforce simp: packet_acts_def split: if_splits option.splits)

lemma run_act_ok:
  assumes ok: "trt_ok cfg s" and p: "tt_params s (act_key a) = Some p" and a: "act_ok a"
    and r: "run_act cfg gp now p a s = (s', bs)"
  shows "trt_ok cfg s' \<and> (\<forall>b \<in> set bs. act_ok b)"
proof -
  have own: "own_block cfg (act_key a)" using ok p by (rule trt_ok_key)
  have sa: "hops_ok q \<Longrightarrow> hops_ok (fst (syn_ack_locked (tcp_block tcp) now src tcp q))" for tcp src q
    using hops_ok_syn [of "uint (tcp_DstPort tcp) - tcp_block tcp" q now src] calc_start_port_range [of "tcp_DstPort tcp"]
    by (auto simp: syn_ack_locked_def Let_def tcp_block_def hops_ok_def)
  show ?thesis
  proof (cases a)
    case (T_query tcp i)
    have "trt_ok cfg (trt_emit (dns_probe cfg gp p tcp i) s)"
      using ok own by (intro trt_ok_emit)
        (simp_all add: T_query dns_probe_def trt_build_ack_with_dns_def own_packet_def tcp_block_def)
    with ok r show ?thesis by (auto simp: T_query split: if_splits)
  next
    case (T_fin tcp b)
    have "trt_ok cfg (send_fin cfg p tcp b s)"
      unfolding send_fin_def using ok own by (intro trt_ok_emit)
        (simp_all add: T_fin build_ack_pos_fin_def own_packet_def tcp_block_def)
    with r show ?thesis by (simp add: T_fin)
  next
    case (T_finish tcp)
    have "trt_ok cfg (upd_param (tcp_block tcp) (\<lambda>p. p\<lparr>finished := time_Unix now\<rparr>) s)"
      by (rule trt_ok_upd [OF ok]) (simp add: hops_ok_def)
    with r show ?thesis by (auto simp: T_finish finish_def Let_def trt_ok_def)
  next
    case (T_syn_hop k h src)
    then have "trt_ok cfg (upd_param k (add_syntr h now src) s)" using a by (intro trt_ok_upd [OF ok] hops_ok_syn) simp_all
    with r show ?thesis by (auto simp: T_syn_hop)
  next
    case (T_dns_hop k h src)
    then have "trt_ok cfg (upd_param k (add_dnstr h now src) s)" using a by (intro trt_ok_upd [OF ok] hops_ok_dns) simp_all
    with r show ?thesis by (auto simp: T_dns_hop)
  next
    case (T_syn_ack src tcp)
    have "trt_ok cfg (upd_param (tcp_block tcp) (\<lambda>q. fst (syn_ack_locked (tcp_block tcp) now src tcp q)) s)"
      by (rule trt_ok_upd [OF ok sa])
    with r show ?thesis by (auto simp: T_syn_ack)
  next
    case (T_queries_sent tcp)
    have "trt_ok cfg (upd_param (tcp_block tcp) (\<lambda>q. q\<lparr>all_dns_packets_sent := time_Unix now\<rparr>) s)"
      by (rule trt_ok_upd [OF ok]) (simp add: hops_ok_def)
    with r show ?thesis by (auto simp: T_queries_sent)
  next
    case (T_store tcp ips)
    have "trt_ok cfg (upd_param (tcp_block tcp) (\<lambda>q. q\<lparr>dns_answers := ips, dns_reply_received := time_Unix now\<rparr>) s)"
      by (rule trt_ok_upd [OF ok]) (simp add: hops_ok_def)
    with r show ?thesis by (auto simp: T_store)
  qed (use r ok in \<open>auto split: if_splits\<close>)
qed

lemma trt_ok_finish: "trt_ok cfg s \<Longrightarrow> trt_ok cfg (finish k now s)"
proof -
  assume "trt_ok cfg s"
  then have "trt_ok cfg (upd_param k (\<lambda>p. p\<lparr>finished := time_Unix now\<rparr>) s)"
    by (rule trt_ok_upd) (simp add: hops_ok_def)
  then show ?thesis by (simp add: finish_def Let_def trt_ok_def)
qed

lemma trt_ok_syn:
  assumes ok: "trt_ok cfg s" and i: "i \<le> 30"
  shows "trt_ok cfg (trt_send_syn cfg (of_nat i) netip (of_nat i) start s)"
proof (cases "tt_params s (uint start)")
  case (Some p)
  then have own: "own_block cfg (uint start)" using ok by (rule trt_ok_key [rotated])
  then have "block start" using start_ports_block by (auto simp: own_block_def word_uint_eq_iff [symmetric])
  with i have "calc_start_port (start + of_nat i) = uint start" by (simp add: calc_start_port_block)
  then have "trt_ok cfg (trt_emit (trt_syn_packet cfg (of_nat i) netip (of_nat i) start) s)"
    using ok own i by (intro trt_ok_emit) (simp_all add: trt_syn_packet_def own_packet_def ucast_ttl)
  then show ?thesis by (simp add: trt_send_syn_def Some)
qed (use ok in \<open>simp add: trt_send_syn_def\<close>)

lemma trt_ok_insert:
  assumes "trt_ok cfg s" and "own_block cfg k"
  shows "trt_ok cfg (insert_param k s)"
proof -
  have "own_block cfg j \<and> hops_ok p" if "tt_params (insert_param k s) j = Some p" for j p
    using that assms by (cases "j = k") (auto simp: trt_ok_def new_param_def hops_ok_def split: option.splits)
  then show ?thesis using assms by (simp add: trt_ok_def)
qed

lemma idle_tick_simps [simp]:
  "tt_params (idle_tick start s) = tt_params s" "tt_sent (idle_tick start s) = tt_sent s"
  "tt_write (idle_tick start s) = tt_write s" "tt_files (idle_tick start s) = tt_files s"
  by (simp_all add: idle_tick_def split: option.split)

lemma trt_step_ok:
  assumes "trt_step cfg gp S S'" and ok: "sys_ok cfg S"
  shows "sys_ok cfg S'"
  using assms(1)
proof cases
  case (recv start netip)
  have "trt_ok cfg (set_finished_flag start False (sy_st S))"
    using ok trt_ok_cong [of "set_finished_flag start False (sy_st S)" "sy_st S"] by (simp add: sys_ok_def)
  then have "trt_ok cfg (insert_param (uint start) (set_finished_flag start False (sy_st S)))"
    by (rule trt_ok_insert) (use recv(2) in \<open>auto simp: own_block_def\<close>)
  then show ?thesis using ok by (simp add: sys_ok_def recv(1) pc_upd_def)
next
  case (begin_t start netip)
  have "trt_ok cfg (begin_target (uint start) netip (sy_st S))"
    unfolding begin_target_def using ok by (intro trt_ok_upd) (auto simp: sys_ok_def zero_param_def hops_ok_def)
  then show ?thesis using ok by (simp add: sys_ok_def begin_t(1) pc_upd_def)
next
  case (syn start netip i p)
  then show ?thesis using ok trt_ok_syn by (simp add: sys_ok_def pc_upd_def)
next
  case (syns_sent start netip i p now)
  have "trt_ok cfg (upd_param (uint start) (\<lambda>p. p\<lparr>all_syns_sent := time_Unix now\<rparr>) (sy_st S))"
    using ok by (intro trt_ok_upd) (auto simp: sys_ok_def hops_ok_def)
  then show ?thesis using ok by (simp add: sys_ok_def syns_sent(1) pc_upd_def)
next
  case (packet ipl rx as)
  then show ?thesis using ok packet_acts_ok by (auto simp: sys_ok_def)
next
  case (act a as p now s' bs)
  have h: "act_ok a" "\<forall>b \<in> set as. act_ok b" using ok act(2) unfolding sys_ok_def by force+
  have "trt_ok cfg s' \<and> (\<forall>b \<in> set bs. act_ok b)"
    using run_act_ok [OF _ act(3) h(1) act(5)] ok by (simp add: sys_ok_def)
  with h ok show ?thesis
    using set_remove1_subset [of "a # as" "sy_handlers S"] by (auto simp: sys_ok_def act(1))
next
  case (sweep_lock k p now)
  then show ?thesis using ok trt_ok_finish by (simp add: sys_ok_def)
next
  case (mark k f)
  have "trt_ok cfg (mark_written k (sy_st S))"
    unfolding mark_written_def using ok by (intro trt_ok_upd) (auto simp: sys_ok_def hops_ok_def)
  then show ?thesis using ok by (simp add: sys_ok_def mark(1))
qed (use ok in \<open>auto simp: sys_ok_def pc_upd_def create_file_def write_part_def trt_ok_def\<close>)

lemma trt_run_ok: "trt_run cfg gp S \<Longrightarrow> sys_ok cfg S"
proof (induction rule: trt_run.induct)
  case start
  show ?case by (simp add: sys_ok_def trt_ok_def sys_init_def trt_init_def)
next
  case (step S S')
  then show ?case using trt_step_ok by blast
qed

text \<open>
  C25. The blocks of the routines stay apart: every packet sent, SYN, query or close, has a source port
  in the block of a routine, every object belongs to such a block, and whatever packets come in,
  the hops of a SYN trace lie between 0 and 31 and those of a query trace in 16 bits.
\<close>

theorem trt_blocks_and_ranges:
  assumes "trt_run cfg gp S"
  shows "(\<forall>(ipl, tcp, payload) \<in> set (tt_sent (sy_st S)).
      calc_start_port (tcp_SrcPort tcp) \<in> uint ` set (trt_start_ports cfg)) \<and>
    (\<forall>k p. tt_params (sy_st S) k = Some p \<longrightarrow> k \<in> uint ` set (trt_start_ports cfg) \<and>
      (\<forall>h \<in> set (syntr_hops p). 0 \<le> hop_count h \<and> hop_count h < 32) \<and>
      (\<forall>h \<in> set (dnstr_hops p). 0 \<le> hop_count h \<and> hop_count h < 65536))"
proof (rule conjI)
  have ok: "trt_ok cfg (sy_st S)" using trt_run_ok [OF assms] by (simp add: sys_ok_def)
  then show "\<forall>(ipl, tcp, payload) \<in> set (tt_sent (sy_st S)).
      calc_start_port (tcp_SrcPort tcp) \<in> uint ` set (trt_start_ports cfg)"
    by (fastforce simp: trt_ok_def own_packet_def own_block_def)
  show "\<forall>k p. tt_params (sy_st S) k = Some p \<longrightarrow> k \<in> uint ` set (trt_start_ports cfg) \<and>
      (\<forall>h \<in> set (syntr_hops p). 0 \<le> hop_count h \<and> hop_count h < 32) \<and>
      (\<forall>h \<in> set (dnstr_hops p). 0 \<le> hop_count h \<and> hop_count h < 65536)"
    using ok unfolding trt_ok_def own_block_def hops_ok_def by blast
qed

subsection \<open>No target is lost\<close>

text \<open>
  What counts for this: of every object its target, its mark and when it was finished; which files there are;
  the addresses packets were sent to; how often an object is queued or in the hands of the writer.
\<close>

type_synonym cores = "int \<rightharpoonup> ip \<times> bool \<times> int"

definition core_of :: "trt_state \<Rightarrow> cores" where
  "core_of s k = map_option (\<lambda>p. (initial_ip p, written p, finished p)) (tt_params s k)"

fun writer_key :: "writer_pc \<Rightarrow> int option" where
  "writer_key W_idle = None"
| "writer_key (W_taken k) = Some k"
| "writer_key (W_open k f i) = Some k"

definition held :: "int list \<Rightarrow> writer_pc \<Rightarrow> int \<Rightarrow> nat" where
  "held q w k = count_list q k + (if writer_key w = Some k then 1 else 0)"

text \<open>
  A marked object has its file; an object is queued or held once, and only between its end and its mark; an
  address that packets went to has an object or a file; a routine that may begin has an object that is
  fresh or marked; the file the writer has open is that of the target of its object.
\<close>

definition keeps :: "cores \<Rightarrow> (string \<Rightarrow> bool) \<Rightarrow> ip set \<Rightarrow> int list \<Rightarrow> (u16 \<Rightarrow> routine_pc) \<Rightarrow> writer_pc \<Rightarrow> bool" where
  "keeps c F D q pc w \<longleftrightarrow>
     (\<forall>k a f. c k = Some (a, True, f) \<longrightarrow> F (result_file a) \<and> f \<noteq> -1) \<and>
     (\<forall>k. held q w k \<le> 1 \<and> (held q w k = 1 \<longrightarrow> (\<exists>a f. c k = Some (a, False, f) \<and> f \<noteq> -1 \<and> a \<noteq> []))) \<and>
     (\<forall>d \<in> D. d = [] \<or> F (result_file d) \<or> (\<exists>k m f. c k = Some (d, m, f))) \<and>
     (\<forall>st a. pc st = Ready a \<longrightarrow> (\<exists>b m f. c (uint st) = Some (b, m, f) \<and> (b = [] \<or> m))) \<and>
     (\<forall>st a i. pc st = Sending a i \<longrightarrow> (\<exists>m f. c (uint st) = Some (a, m, f))) \<and>
     (\<forall>k f i. w = W_open k f i \<longrightarrow> F f \<and> (\<exists>a m t. c k = Some (a, m, t) \<and> f = result_file a))"

lemma keepsD:
  assumes "keeps c F D q pc w"
  shows "c k = Some (a, True, f) \<Longrightarrow> F (result_file a) \<and> f \<noteq> -1"
    and "held q w k \<le> 1" and "held q w k = 1 \<Longrightarrow> \<exists>a f. c k = Some (a, False, f) \<and> f \<noteq> -1 \<and> a \<noteq> []"
    and "d \<in> D \<Longrightarrow> d = [] \<or> F (result_file d) \<or> (\<exists>k m f. c k = Some (d, m, f))"
    and "pc st = Ready b \<Longrightarrow> \<exists>b m f. c (uint st) = Some (b, m, f) \<and> (b = [] \<or> m)"
    and "pc st = Sending b i \<Longrightarrow> \<exists>m f. c (uint st) = Some (b, m, f)"
    and "w = W_open k g i \<Longrightarrow> F g \<and> (\<exists>a m t. c k = Some (a, m, t) \<and> g = result_file a)"
  using assms unfolding keeps_def by blast+

lemma uint_start_inj: "uint (a :: u16) = uint b \<longleftrightarrow> a = b"
  by (simp add: word_uint_eq_iff)

lemma keeps_insert:
  assumes "keeps c F D q pc w" and "c k = None"
  shows "keeps (c(k \<mapsto> ([], False, f))) F D q pc w"
  using assms unfolding keeps_def by (auto; metis option.distinct(1))

lemma keeps_idle:
  assumes "keeps c F D q pc w" and "\<And>a. p \<noteq> Ready a" and "\<And>a i. p \<noteq> Sending a i"
  shows "keeps c F D q (pc(st := p)) w"
  using assms unfolding keeps_def by auto

lemma keeps_ready:
  assumes "keeps c F D q pc w" and "c (uint st) = Some (b, m, f)" and "b = [] \<or> m"
  shows "keeps c F D q (pc(st := Ready a)) w"
  using assms unfolding keeps_def by auto

lemma keeps_sending:
  assumes "keeps c F D q pc w" and "pc st = Sending a i"
  shows "keeps c F D q (pc(st := Sending a j)) w"
  using assms unfolding keeps_def by auto

lemma keeps_begin:
  assumes inv: "keeps c F D q pc w" and r: "pc st = Ready a"
  shows "keeps (c(uint st \<mapsto> (a, False, -1))) F D q (pc(st := Sending a 1)) w"
proof -
  let ?c = "c(uint st \<mapsto> (a, False, -1))"
  obtain b m f where b: "c (uint st) = Some (b, m, f)" "b = [] \<or> m" using keepsD(5) [OF inv r] by blast
  have "held q w (uint st) \<noteq> 1" using keepsD(3) [OF inv, of "uint st"] b by auto
  with keepsD(2) [OF inv, of "uint st"] have h: "held q w (uint st) = 0" by simp
  then have wk: "writer_key w \<noteq> Some (uint st)" by (auto simp: held_def)
  have old: "b = [] \<or> F (result_file b)" using b keepsD(1) [OF inv, of "uint st" b f] by auto
  have "d = [] \<or> F (result_file d) \<or> (\<exists>k m f. ?c k = Some (d, m, f))" if d: "d \<in> D" for d
  proof -
    from keepsD(4) [OF inv d] consider "d = []" | "F (result_file d)" | k m' f' where "c k = Some (d, m', f')" by blast
    then show ?thesis
    proof cases
      case 3
      then show ?thesis using b old by (cases "k = uint st") auto
    qed auto
  qed
  moreover have "F g \<and> (\<exists>a m t. ?c k = Some (a, m, t) \<and> g = result_file a)" if "w = W_open k g i" for k g i
    using keepsD(7) [OF inv that] wk that by auto
  moreover have "\<exists>b m f. ?c (uint st') = Some (b, m, f) \<and> (b = [] \<or> m)" if "(pc(st := Sending a 1)) st' = Ready a'" for st' a'
    using that keepsD(5) [OF inv, of st' a'] by (auto simp: uint_start_inj split: if_splits)
  moreover have "\<exists>m f. ?c (uint st') = Some (a', m, f)" if "(pc(st := Sending a 1)) st' = Sending a' i" for st' a' i
    using that keepsD(6) [OF inv, of st' a' i] by (auto simp: uint_start_inj split: if_splits)
  moreover have "held q w k \<le> 1 \<and> (held q w k = 1 \<longrightarrow> (\<exists>a f. ?c k = Some (a, False, f) \<and> f \<noteq> -1 \<and> a \<noteq> []))" for k
    using keepsD(2,3) [OF inv, of k] h by auto
  moreover have "F (result_file x) \<and> f \<noteq> -1" if "?c k = Some (x, True, f)" for k x f
    using that keepsD(1) [OF inv, of k x f] by (auto split: if_splits)
  ultimately show ?thesis unfolding keeps_def by blast
qed

lemma keeps_send:
  assumes "keeps c F D q pc w" and "d = [] \<or> (\<exists>k m f. c k = Some (d, m, f))"
  shows "keeps c F (insert d D) q pc w"
  using assms unfolding keeps_def by blast

text \<open>An object ends that has a target and has not ended.\<close>

lemma keeps_finish:
  assumes inv: "keeps c F D q pc w" and k: "c k = Some (a, m, -1)" "a \<noteq> []" and t: "t \<noteq> -1"
  shows "keeps (c(k \<mapsto> (a, m, t))) F D (q @ [k]) pc w"
proof -
  let ?c = "c(k \<mapsto> (a, m, t))"
  have m: "\<not> m" using k keepsD(1) [OF inv, of k a "-1"] by (cases m) auto
  have "held q w k \<noteq> 1" using keepsD(3) [OF inv, of k] k by auto
  with keepsD(2) [OF inv, of k] have h: "held q w k = 0" by simp
  have e: "(\<exists>m f. ?c j = Some (d, m, f)) \<longleftrightarrow> (\<exists>m f. c j = Some (d, m, f))" for j d using k(1) by auto
  have "held (q @ [k]) w j \<le> 1 \<and> (held (q @ [k]) w j = 1 \<longrightarrow> (\<exists>a f. ?c j = Some (a, False, f) \<and> f \<noteq> -1 \<and> a \<noteq> []))" for j
    using keepsD(2,3) [OF inv, of j] h k(2) t m by (cases "j = k") (auto simp: held_def)
  moreover have "\<exists>b m f. ?c (uint st) = Some (b, m, f) \<and> (b = [] \<or> m)" if "pc st = Ready a'" for st a'
    using keepsD(5) [OF inv that] k m by (cases "uint st = k") auto
  moreover have "F g \<and> (\<exists>a m t. ?c j = Some (a, m, t) \<and> g = result_file a)" if "w = W_open j g i" for j g i
    using keepsD(7) [OF inv that] k(1) by auto
  moreover have "F (result_file x) \<and> f \<noteq> -1" if "?c j = Some (x, True, f)" for j x f
    using that m keepsD(1) [OF inv, of j x f] by (auto split: if_splits)
  ultimately show ?thesis
    using keepsD(4,6) [OF inv] unfolding keeps_def e by blast
qed

lemma keeps_take:
  assumes "keeps c F D (k # q) pc W_idle" shows "keeps c F D q pc (W_taken k)"
proof -
  have "held (k # q) W_idle = held q (W_taken k)" by (simp add: held_def fun_eq_iff)
  with assms show ?thesis unfolding keeps_def by simp
qed

lemma keeps_create:
  assumes "keeps c F D q pc (W_taken k)" and "c k = Some (a, m, t)" and "g = result_file a"
  shows "keeps c (\<lambda>f. f \<noteq> g \<longrightarrow> F f) D q pc (W_open k g 0)"
  using assms unfolding keeps_def held_def by auto

lemma keeps_part: "keeps c F D q pc (W_open k g i) \<Longrightarrow> keeps c F D q pc (W_open k g j)"
  unfolding keeps_def held_def by simp

lemma keeps_mark:
  assumes inv: "keeps c F D q pc (W_open k g i)"
  shows "keeps (\<lambda>j. if j = k then map_option (\<lambda>(a, m, t). (a, True, t)) (c k) else c j) F D q pc W_idle"
proof -
  have g: "F g" and "\<exists>a m t. c k = Some (a, m, t) \<and> g = result_file a" using keepsD(7) [OF inv] by blast+
  have "held q (W_open k g i) k = 1" using keepsD(2) [OF inv, of k] by (auto simp: held_def)
  then obtain a t where k: "c k = Some (a, False, t)" "t \<noteq> -1" "a \<noteq> []" using keepsD(3) [OF inv] by blast
  then have gf: "g = result_file a" using keepsD(7) [OF inv] by auto
  have q: "count_list q k = 0" using \<open>held q (W_open k g i) k = 1\<close> by (simp add: held_def)
  let ?c = "c(k \<mapsto> (a, True, t))"
  have c: "(\<lambda>j. if j = k then map_option (\<lambda>(a, m, t). (a, True, t)) (c k) else c j) = ?c" by (auto simp: k)
  have e: "(\<exists>m f. ?c j = Some (d, m, f)) \<longleftrightarrow> (\<exists>m f. c j = Some (d, m, f))" for j d using k(1) by auto
  have "held q W_idle j \<le> 1 \<and> (held q W_idle j = 1 \<longrightarrow> (\<exists>a f. ?c j = Some (a, False, f) \<and> f \<noteq> -1 \<and> a \<noteq> []))" for j
    using keepsD(2,3) [OF inv, of j] q by (cases "j = k") (auto simp: held_def)
  moreover have "\<exists>b m f. ?c (uint st) = Some (b, m, f) \<and> (b = [] \<or> m)" if "pc st = Ready a'" for st a'
    using keepsD(5) [OF inv that] k by (cases "uint st = k") auto
  moreover have "F (result_file x) \<and> f \<noteq> -1" if "?c j = Some (x, True, f)" for j x f
    using that g gf k(2) keepsD(1) [OF inv, of j x f] by (auto split: if_splits)
  ultimately show ?thesis unfolding c using keepsD(4,6) [OF inv] unfolding keeps_def e by blast
qed

text \<open>The state of the system as the invariant sees it.\<close>

definition pkt_dst :: "trt_packet \<Rightarrow> ip" where
  "pkt_dst pkt = ip_DstIP (fst pkt)"

definition sys_keeps :: "trt_sys \<Rightarrow> bool" where
  "sys_keeps S \<longleftrightarrow> keeps (core_of (sy_st S)) (\<lambda>f. tt_files (sy_st S) f \<noteq> None) (pkt_dst ` set (tt_sent (sy_st S)))
     (tt_write (sy_st S)) (sy_pc S) (sy_writer S)"

text \<open>A state that looks the same, but for packets to addresses that have an object.\<close>

definition same_cores :: "trt_state \<Rightarrow> trt_state \<Rightarrow> bool" where
  "same_cores s s' \<longleftrightarrow> core_of s' = core_of s \<and> tt_files s' = tt_files s \<and> tt_write s' = tt_write s \<and>
     (\<exists>pkts. tt_sent s' = tt_sent s @ pkts \<and>
       (\<forall>pkt \<in> set pkts. pkt_dst pkt = [] \<or> (\<exists>k m f. core_of s k = Some (pkt_dst pkt, m, f))))"

lemma keeps_union:
  assumes "keeps c F D q pc w" and "\<forall>d \<in> E. d = [] \<or> (\<exists>k m f. c k = Some (d, m, f))"
  shows "keeps c F (D \<union> E) q pc w"
  using assms unfolding keeps_def by blast

lemma sys_keeps_same:
  assumes "sys_keeps S" and "same_cores (sy_st S) s"
  shows "sys_keeps (S\<lparr>sy_st := s\<rparr>)"
proof -
  obtain pkts where p: "tt_sent s = tt_sent (sy_st S) @ pkts"
    "\<forall>pkt \<in> set pkts. pkt_dst pkt = [] \<or> (\<exists>k m f. core_of (sy_st S) k = Some (pkt_dst pkt, m, f))"
    and e: "core_of s = core_of (sy_st S)" "tt_files s = tt_files (sy_st S)" "tt_write s = tt_write (sy_st S)"
    using assms(2) unfolding same_cores_def by blast
  have "keeps (core_of (sy_st S)) (\<lambda>f. tt_files (sy_st S) f \<noteq> None)
      (pkt_dst ` set (tt_sent (sy_st S)) \<union> pkt_dst ` set pkts) (tt_write (sy_st S)) (sy_pc S) (sy_writer S)"
    using assms(1) p(2) unfolding sys_keeps_def by (intro keeps_union) auto
  then show ?thesis by (simp add: sys_keeps_def e p(1) image_Un)
qed

lemma same_cores_refl: "tt_params s' = tt_params s \<Longrightarrow> tt_files s' = tt_files s \<Longrightarrow> tt_write s' = tt_write s \<Longrightarrow>
  tt_sent s' = tt_sent s \<Longrightarrow> same_cores s s'"
  unfolding same_cores_def core_of_def by (auto intro: exI [of _ "[]"])

text \<open>A change of an object that keeps target, mark and end.\<close>

lemma core_of_upd:
  "core_of (upd_param k f s) = (core_of s)(k := map_option (\<lambda>p. (initial_ip (f p), written (f p), finished (f p))) (tt_params s k))"
  by (rule ext) (simp add: core_of_def option.map_comp comp_def)

lemma same_cores_upd:
  assumes "\<And>p. initial_ip (f p) = initial_ip p \<and> written (f p) = written p \<and> finished (f p) = finished p"
  shows "same_cores s (upd_param k f s)"
proof -
  have "core_of (upd_param k f s) = core_of s" using assms by (simp add: core_of_upd) (simp add: core_of_def fun_upd_idem)
  then show ?thesis by (simp add: same_cores_def)
qed

lemma same_cores_emit:
  assumes "pkt_dst pkt = [] \<or> (\<exists>k m f. core_of s k = Some (pkt_dst pkt, m, f))"
  shows "same_cores s (trt_emit pkt s)"
  using assms by (auto simp: same_cores_def core_of_def intro!: exI [of _ "[pkt]"])

text \<open>Every act but the last one of an object.\<close>

lemma same_cores_act:
  assumes p: "tt_params s (act_key a) = Some p" and r: "run_act cfg gp now p a s = (s', bs)"
    and n: "\<And>tcp. a \<noteq> T_finish tcp"
  shows "same_cores s s'"
proof -
  have own: "core_of s (act_key a) = Some (initial_ip p, written p, finished p)" by (simp add: core_of_def p)
  have refl: "same_cores s s" by (rule same_cores_refl) simp_all
  show ?thesis
  proof (cases a)
    case (T_syn_ack src tcp)
    have "same_cores s (upd_param (tcp_block tcp) (\<lambda>q. fst (syn_ack_locked (tcp_block tcp) now src tcp q)) s)"
      by (rule same_cores_upd) (simp add: syn_ack_locked_def Let_def add_syntr_def)
    with r show ?thesis by (simp add: T_syn_ack)
  next
    case (T_query tcp i)
    have "same_cores s (trt_emit (dns_probe cfg gp p tcp i) s)"
      using own by (intro same_cores_emit) (auto simp: pkt_dst_def dns_probe_def trt_build_ack_with_dns_def)
    with r refl show ?thesis by (auto simp: T_query split: if_splits)
  next
    case (T_fin tcp b)
    have "same_cores s (send_fin cfg p tcp b s)"
      unfolding send_fin_def using own by (intro same_cores_emit) (auto simp: pkt_dst_def build_ack_pos_fin_def)
    with r show ?thesis by (simp add: T_fin)
  next
    case (T_syn_hop k h src)
    with r show ?thesis by (auto intro!: same_cores_upd simp: add_syntr_def)
  next
    case (T_dns_hop k h src)
    with r show ?thesis by (auto intro!: same_cores_upd simp: add_dnstr_def)
  next
    case (T_queries_sent tcp)
    with r show ?thesis by (auto intro!: same_cores_upd)
  next
    case (T_store tcp ips)
    with r show ?thesis by (auto intro!: same_cores_upd)
  qed (use r refl n in auto)
qed

text \<open>
  A run in which an object is put on \<open>write_chan\<close> once: when it has a target, and has not ended before.
  The code does not see to that: a repeated FIN-ACK queues the object again.
\<close>

definition queues_once :: "trt_sys \<Rightarrow> trt_sys \<Rightarrow> bool" where
  "queues_once S S' \<longleftrightarrow> (\<forall>k p. tt_write (sy_st S') = tt_write (sy_st S) @ [k] \<and> tt_params (sy_st S) k = Some p \<longrightarrow>
     finished p = -1 \<and> initial_ip p \<noteq> [])"

inductive trt_run_once :: "Cfg_db \<Rightarrow> gopacket \<Rightarrow> trt_sys \<Rightarrow> bool" for cfg gp where
  once_start: "trt_run_once cfg gp (sys_init cfg)"
| once_step: "trt_run_once cfg gp S \<Longrightarrow> trt_step cfg gp S S' \<Longrightarrow> queues_once S S' \<Longrightarrow> trt_run_once cfg gp S'"

lemma trt_run_once_run: "trt_run_once cfg gp S \<Longrightarrow> trt_run cfg gp S"
  by (induction rule: trt_run_once.induct) (auto intro: trt_run.intros)

lemma sys_keeps_finish:
  assumes inv: "sys_keeps S" and p: "tt_params (sy_st S) k = Some p" and f: "finished p = -1" "initial_ip p \<noteq> []"
    and t: "0 \<le> now"
  shows "sys_keeps (S\<lparr>sy_st := finish k now (sy_st S)\<rparr>)"
proof -
  have c: "core_of (finish k now (sy_st S)) = (core_of (sy_st S))(k \<mapsto> (initial_ip p, written p, time_Unix now))"
    by (rule ext) (simp add: core_of_def p)
  have "core_of (sy_st S) k = Some (initial_ip p, written p, -1)" by (simp add: core_of_def p f)
  from keeps_finish [OF inv [unfolded sys_keeps_def] this f(2) time_Unix_nonneg [OF t]] show ?thesis
    by (simp add: sys_keeps_def c)
qed

lemma sys_keeps_pc: "sys_keeps (pc_upd start pc s S) \<longleftrightarrow>
  keeps (core_of s) (\<lambda>f. tt_files s f \<noteq> None) (pkt_dst ` set (tt_sent s)) (tt_write s) ((sy_pc S)(start := pc)) (sy_writer S)"
  by (simp add: sys_keeps_def pc_upd_def)

lemma core_of_cong: "tt_params s' = tt_params s \<Longrightarrow> core_of s' = core_of s"
  by (rule ext) (simp add: core_of_def)

lemma sys_keeps_recv:
  assumes inv: "sys_keeps S"
  shows "sys_keeps (pc_upd start (Waiting netip) (insert_param (uint start) (set_finished_flag start False (sy_st S))) S)"
proof -
  let ?k = "uint start" and ?c = "core_of (sy_st S)"
  let ?s = "insert_param ?k (set_finished_flag start False (sy_st S))"
  have "core_of ?s = (if ?c ?k = None then ?c(?k \<mapsto> ([], False, -1)) else ?c)"
    by (rule ext) (auto simp: core_of_def insert_param_def new_param_def split: option.split)
  moreover have "keeps (if ?c ?k = None then ?c(?k \<mapsto> ([], False, -1)) else ?c) (\<lambda>f. tt_files (sy_st S) f \<noteq> None)
      (pkt_dst ` set (tt_sent (sy_st S))) (tt_write (sy_st S)) ((sy_pc S)(start := Waiting netip)) (sy_writer S)"
    using inv unfolding sys_keeps_def by (intro keeps_idle) (auto intro: keeps_insert)
  ultimately show ?thesis by (simp add: sys_keeps_pc)
qed

lemma sys_keeps_begin:
  assumes inv: "sys_keeps S" and r: "sy_pc S start = Ready netip"
  shows "sys_keeps (pc_upd start (Sending netip 1) (begin_target (uint start) netip (sy_st S)) S)"
proof -
  have "core_of (sy_st S) (uint start) \<noteq> None" using keepsD(5) [OF inv [unfolded sys_keeps_def] r] by auto
  then have "core_of (begin_target (uint start) netip (sy_st S)) = (core_of (sy_st S))(uint start \<mapsto> (netip, False, -1))"
    by (auto simp: begin_target_def core_of_upd zero_param_def) (auto simp: core_of_def)
  then show ?thesis using keeps_begin [OF inv [unfolded sys_keeps_def] r] by (simp add: sys_keeps_pc)
qed

lemma sys_keeps_syn:
  assumes inv: "sys_keeps S" and pc: "sy_pc S start = Sending netip i"
  shows "sys_keeps (pc_upd start (Sending netip (Suc i)) (trt_send_syn cfg (of_nat i) netip (of_nat i) start (sy_st S)) S)"
proof -
  let ?s = "trt_send_syn cfg (of_nat i) netip (of_nat i) start (sy_st S)"
  have "same_cores (sy_st S) (trt_emit (trt_syn_packet cfg (of_nat i) netip (of_nat i) start) (sy_st S))"
    using keepsD(6) [OF inv [unfolded sys_keeps_def] pc]
    by (intro same_cores_emit) (auto simp: pkt_dst_def trt_syn_packet_def)
  then have "same_cores (sy_st S) ?s"
    using same_cores_refl [of "sy_st S" "sy_st S"] by (simp add: trt_send_syn_def split: option.split)
  from sys_keeps_same [OF inv this] pc show ?thesis unfolding sys_keeps_def pc_upd_def
    by (simp add: keeps_sending)
qed

lemma sys_keeps_writer:
  assumes inv: "sys_keeps S"
  shows "sy_writer S = W_idle \<Longrightarrow> tt_write (sy_st S) = k # ks \<Longrightarrow>
      sys_keeps (S\<lparr>sy_st := (sy_st S)\<lparr>tt_write := ks\<rparr>, sy_writer := W_taken k\<rparr>)"
    and "sy_writer S = W_taken k \<Longrightarrow> tt_params (sy_st S) k = Some p \<Longrightarrow> f = result_file (initial_ip p) \<Longrightarrow>
      sys_keeps (S\<lparr>sy_st := create_file f (sy_st S), sy_writer := W_open k f 0\<rparr>)"
    and "sy_writer S = W_open k f i \<Longrightarrow>
      sys_keeps (S\<lparr>sy_st := write_part f t (sy_st S), sy_writer := W_open k f (Suc i)\<rparr>)"
    and "sy_writer S = W_open k f i \<Longrightarrow> sys_keeps (S\<lparr>sy_st := mark_written k (sy_st S), sy_writer := W_idle\<rparr>)"
proof -
  note inv' = inv [unfolded sys_keeps_def]
  {
    assume "sy_writer S = W_idle" "tt_write (sy_st S) = k # ks"
    moreover have "core_of ((sy_st S)\<lparr>tt_write := ks\<rparr>) = core_of (sy_st S)" by (rule core_of_cong) simp
    ultimately show "sys_keeps (S\<lparr>sy_st := (sy_st S)\<lparr>tt_write := ks\<rparr>, sy_writer := W_taken k\<rparr>)"
      using inv' keeps_take by (simp add: sys_keeps_def)
  next
    assume w: "sy_writer S = W_taken k" and p: "tt_params (sy_st S) k = Some p" and f: "f = result_file (initial_ip p)"
    have c: "core_of (create_file f (sy_st S)) = core_of (sy_st S)" by (rule core_of_cong) (simp add: create_file_def)
    have "core_of (sy_st S) k = Some (initial_ip p, written p, finished p)" by (simp add: core_of_def p)
    from keeps_create [OF inv' [unfolded w] this f]
    show "sys_keeps (S\<lparr>sy_st := create_file f (sy_st S), sy_writer := W_open k f 0\<rparr>)"
      unfolding sys_keeps_def by (simp add: c) (simp add: create_file_def fun_upd_def)
  next
    assume w: "sy_writer S = W_open k f i"
    have c: "core_of (write_part f t (sy_st S)) = core_of (sy_st S)" by (rule core_of_cong) (simp add: write_part_def)
    from keeps_part [OF inv' [unfolded w], of "Suc i"]
    show "sys_keeps (S\<lparr>sy_st := write_part f t (sy_st S), sy_writer := W_open k f (Suc i)\<rparr>)"
      unfolding sys_keeps_def by (simp add: c) (auto simp: write_part_def fun_upd_def elim!: back_subst [where P = "\<lambda>F. keeps _ F _ _ _ _"])
  next
    assume w: "sy_writer S = W_open k f i"
    have "core_of (mark_written k (sy_st S)) =
        (\<lambda>j. if j = k then map_option (\<lambda>(a, m, t). (a, True, t)) (core_of (sy_st S) k) else core_of (sy_st S) j)"
      by (rule ext) (simp add: mark_written_def core_of_def option.map_comp comp_def)
    with keeps_mark [OF inv' [unfolded w]]
    show "sys_keeps (S\<lparr>sy_st := mark_written k (sy_st S), sy_writer := W_idle\<rparr>)"
      unfolding sys_keeps_def by (simp add: mark_written_def)
  }
qed

lemma sys_keeps_frame: "sys_keeps (S\<lparr>sy_handlers := hs\<rparr>) = sys_keeps S" "sys_keeps (S\<lparr>sy_due := d\<rparr>) = sys_keeps S"
  by (simp_all add: sys_keeps_def)

lemma trt_step_keeps:
  assumes "trt_step cfg gp S S'" and once: "queues_once S S'" and inv: "sys_keeps S"
  shows "sys_keeps S'"
  using assms(1)
proof cases
  case (recv start netip)
  then show ?thesis using inv sys_keeps_recv by simp
next
  case (free start netip p now)
  then have "core_of (sy_st S) (uint start) = Some (initial_ip p, written p, finished p)" "initial_ip p = [] \<or> written p"
    by (auto simp: core_of_def must_wait_def)
  then show ?thesis using inv keeps_ready unfolding free(1) sys_keeps_pc unfolding sys_keeps_def by blast
next
  case (begin_t start netip)
  then show ?thesis using inv sys_keeps_begin by simp
next
  case (syn start netip i p)
  then show ?thesis using inv sys_keeps_syn by simp
next
  case (syns_sent start netip i p now)
  have "sys_keeps (S\<lparr>sy_st := upd_param (uint start) (\<lambda>p. p\<lparr>all_syns_sent := time_Unix now\<rparr>) (sy_st S)\<rparr>)"
    by (rule sys_keeps_same [OF inv same_cores_upd]) simp
  then show ?thesis unfolding syns_sent(1) sys_keeps_pc unfolding sys_keeps_def by (intro keeps_idle) simp_all
next
  case (tick start)
  have "sys_keeps (S\<lparr>sy_st := idle_tick start (sy_st S)\<rparr>)"
    by (rule sys_keeps_same [OF inv same_cores_refl]) simp_all
  then show ?thesis by (simp only: tick(1))
next
  case (packet ipl rx as)
  then show ?thesis using inv by (simp add: sys_keeps_frame)
next
  case (act a as p now s' bs)
  have "sys_keeps (S\<lparr>sy_st := s'\<rparr>)"
  proof (cases "\<exists>tcp. a = T_finish tcp")
    case True
    then obtain tcp where a: "a = T_finish tcp" by blast
    have s': "s' = finish (tcp_block tcp) now (sy_st S)" using act(5) by (simp add: a)
    have "finished p = -1 \<and> initial_ip p \<noteq> []"
      using once act(3) unfolding queues_once_def by (simp add: act(1) s' a)
    then show ?thesis using sys_keeps_finish [OF inv act(3) _ _ act(4)] by (simp add: s' a)
  next
    case False
    then have "same_cores (sy_st S) s'" using same_cores_act [OF act(3,5)] by blast
    then show ?thesis by (rule sys_keeps_same [OF inv])
  qed
  then show ?thesis unfolding act(1) by (simp add: sys_keeps_def)
next
  case (sweep k p now)
  then show ?thesis using inv by (simp add: sys_keeps_frame)
next
  case (sweep_lock k p now)
  have "finished p = -1 \<and> initial_ip p \<noteq> []"
    using once sweep_lock(3) unfolding queues_once_def by (simp add: sweep_lock(1))
  then have "sys_keeps (S\<lparr>sy_st := finish k now (sy_st S)\<rparr>)" using sys_keeps_finish [OF inv sweep_lock(3) _ _ sweep_lock(4)] by simp
  then show ?thesis unfolding sweep_lock(1) by (simp add: sys_keeps_def)
next
  case all_read
  have "sys_keeps (S\<lparr>sy_st := (sy_st S)\<lparr>tt_waiting_to_end := True\<rparr>\<rparr>)"
    by (rule sys_keeps_same [OF inv same_cores_refl]) simp_all
  then show ?thesis by (simp only: all_read)
qed (use inv sys_keeps_writer in simp_all)

lemma trt_run_once_keeps: "trt_run_once cfg gp S \<Longrightarrow> sys_keeps S"
proof (induction rule: trt_run_once.induct)
  case once_start
  show ?case by (simp add: sys_keeps_def keeps_def sys_init_def trt_init_def core_of_def held_def)
next
  case (once_step S S')
  then show ?case using trt_step_keeps by blast
qed

text \<open>
  C9. No target is lost, as long as every object is queued once: whatever the routines, the handlers, the
  timeout routine and the writer do and in whatever order, if an object goes on \<open>write_chan\<close> only when it
  has a target and has not ended before, then a target that any packet was sent to is either the one a
  block is working on, or there is a result file with its name; and an object that is marked written has
  its file.
\<close>

theorem trt_no_target_lost:
  assumes "trt_run_once cfg gp S"
  shows "((ipl, tcp, payload) \<in> set (tt_sent (sy_st S)) \<and> ip_DstIP ipl \<noteq> [] \<longrightarrow>
      (\<exists>k p. tt_params (sy_st S) k = Some p \<and> initial_ip p = ip_DstIP ipl) \<or>
      tt_files (sy_st S) (result_file (ip_DstIP ipl)) \<noteq> None) \<and>
    (\<forall>k p. tt_params (sy_st S) k = Some p \<and> written p \<longrightarrow> tt_files (sy_st S) (result_file (initial_ip p)) \<noteq> None)"
proof (intro conjI impI allI)
  note inv = trt_run_once_keeps [OF assms, unfolded sys_keeps_def]
  assume h: "(ipl, tcp, payload) \<in> set (tt_sent (sy_st S)) \<and> ip_DstIP ipl \<noteq> []"
  then have "ip_DstIP ipl \<in> pkt_dst ` set (tt_sent (sy_st S))" by (force simp: pkt_dst_def)
  from keepsD(4) [OF inv this] h
  show "(\<exists>k p. tt_params (sy_st S) k = Some p \<and> initial_ip p = ip_DstIP ipl) \<or>
      tt_files (sy_st S) (result_file (ip_DstIP ipl)) \<noteq> None"
    unfolding core_of_def by auto
next
  note inv = trt_run_once_keeps [OF assms, unfolded sys_keeps_def]
  fix k p assume "tt_params (sy_st S) k = Some p \<and> written p"
  then have "core_of (sy_st S) k = Some (initial_ip p, True, finished p)" by (simp add: core_of_def)
  with keepsD(1) [OF inv] show "tt_files (sy_st S) (result_file (initial_ip p)) \<noteq> None" by blast
qed

subsection \<open>Runs\<close>

text \<open>A run of four steps: a routine takes an address, need not wait, begins with it, and sends the first SYN.\<close>

lemma ex_trt_run:
  obtains S where "trt_run_once ex_trt_cfg gp S"
    and "tt_sent (sy_st S) = [trt_syn_packet ex_trt_cfg 1 [192, 0, 2, 1] 1 61024]"
    and "map_option initial_ip (tt_params (sy_st S) 61024) = Some [192, 0, 2, 1]"
proof -
  let ?cfg = ex_trt_cfg and ?a = "[192, 0, 2, 1] :: ip" and ?k = "uint (61024 :: u16)"
  define s1 where "s1 = insert_param ?k (set_finished_flag 61024 False (trt_init ?cfg))"
  define S1 where "S1 = pc_upd 61024 (Waiting ?a) s1 (sys_init ?cfg)"
  define S2 where "S2 = pc_upd 61024 (Ready ?a) s1 S1"
  define s3 where "s3 = begin_target ?k ?a s1"
  define S3 where "S3 = pc_upd 61024 (Sending ?a 1) s3 S2"
  define S4 where "S4 = pc_upd 61024 (Sending ?a (Suc 1)) (trt_send_syn ?cfg (of_nat 1) ?a (of_nat 1) 61024 s3) S3"
  have w: "tt_write s1 = []" "tt_write s3 = []" by (simp_all add: s1_def s3_def trt_init_def)
  have 1: "trt_run_once ?cfg gp S1"
    unfolding S1_def s1_def
    by (rule trt_run_once.once_step [OF trt_run_once.once_start])
      (use trt_step.recv [of 61024 ?cfg "sys_init ?cfg" gp ?a] in
        \<open>simp_all add: trt_start_ports_def ex_trt_cfg_def default_cfg_def sys_init_def queues_once_def pc_upd_def\<close>)
  have p1: "tt_params s1 ?k = Some new_param" by (simp add: s1_def trt_init_def)
  have "trt_step ?cfg gp S1 S2"
    using trt_step.free [of S1 61024 ?a new_param ?cfg 0 gp] p1
    by (simp add: S1_def S2_def pc_upd_def must_wait_def new_param_def)
  with 1 have 2: "trt_run_once ?cfg gp S2"
    by (rule trt_run_once.once_step) (simp add: queues_once_def S1_def S2_def pc_upd_def)
  have "trt_step ?cfg gp S2 S3"
    using trt_step.begin_t [of S2 61024 ?a ?cfg gp] by (simp add: S2_def S3_def s3_def pc_upd_def)
  with 2 have 3: "trt_run_once ?cfg gp S3"
    by (rule trt_run_once.once_step) (simp add: queues_once_def S2_def S3_def pc_upd_def w)
  have p3: "tt_params s3 ?k = Some ((zero_param new_param)\<lparr>initial_ip := ?a\<rparr>)"
    by (simp only: s3_def begin_target_simps p1) simp
  have "trt_step ?cfg gp S3 S4"
    using trt_step.syn [of S3 61024 ?a 1 "(zero_param new_param)\<lparr>initial_ip := ?a\<rparr>" ?cfg gp] p3
    by (simp add: S3_def S4_def pc_upd_def zero_param_def)
  with 3 have "trt_run_once ?cfg gp S4"
    by (rule trt_run_once.once_step) (use p3 in \<open>simp add: queues_once_def S3_def S4_def pc_upd_def trt_send_syn_def\<close>)
  moreover have "tt_sent (sy_st S4) = [trt_syn_packet ?cfg 1 ?a 1 61024]"
    using p3 by (simp add: S4_def pc_upd_def trt_send_syn_def s3_def s1_def trt_init_def)
  moreover have "map_option initial_ip (tt_params (sy_st S4) 61024) = Some ?a"
    using p3 by (simp add: S4_def pc_upd_def trt_send_syn_def)
  ultimately show thesis by (rule that)
qed

lemma trt_no_target_lost_witness:
  "\<exists>S :: trt_sys. tt_sent (sy_st S) \<noteq> [] \<and>
     ((\<exists>k p. tt_params (sy_st S) k = Some p \<and> initial_ip p = [192, 0, 2, 1]) \<or>
      tt_files (sy_st S) (result_file [192, 0, 2, 1]) \<noteq> None)"
proof -
  obtain S where S: "trt_run_once ex_trt_cfg ex_trt_gp S"
    "tt_sent (sy_st S) = [trt_syn_packet ex_trt_cfg 1 [192, 0, 2, 1] 1 61024]" by (rule ex_trt_run)
  obtain ipl tcp pl where e: "trt_syn_packet ex_trt_cfg 1 [192, 0, 2, 1] 1 61024 = (ipl, tcp, pl)" "ip_DstIP ipl = [192, 0, 2, 1]"
    by (simp add: trt_syn_packet_def)
  have "(ipl, tcp, pl) \<in> set (tt_sent (sy_st S)) \<and> ip_DstIP ipl \<noteq> []" by (simp add: S(2) e)
  with trt_no_target_lost [OF S(1), of ipl tcp pl]
  have "(\<exists>k p. tt_params (sy_st S) k = Some p \<and> initial_ip p = ip_DstIP ipl) \<or>
      tt_files (sy_st S) (result_file (ip_DstIP ipl)) \<noteq> None" by blast
  then show ?thesis using S(2) e(2) by (intro exI [of _ S]) simp
qed

lemma trt_blocks_and_ranges_witness:
  "\<exists>S :: trt_sys. tt_sent (sy_st S) \<noteq> [] \<and> (\<forall>(ipl, tcp, payload) \<in> set (tt_sent (sy_st S)).
      calc_start_port (tcp_SrcPort tcp) \<in> uint ` set (trt_start_ports ex_trt_cfg))"
proof -
  obtain S where S: "trt_run_once ex_trt_cfg ex_trt_gp S"
    "tt_sent (sy_st S) = [trt_syn_packet ex_trt_cfg 1 [192, 0, 2, 1] 1 61024]" by (rule ex_trt_run)
  from trt_blocks_and_ranges [OF trt_run_once_run [OF S(1)]] show ?thesis by (intro exI [of _ S]) (simp add: S(2))
qed

subsection \<open>An object queued too early\<close>

text \<open>
  Without the restriction to \<open>trt_run_once\<close> the second part of \<open>trt_no_target_lost\<close> fails. The timeout routine
  finds a new object due before its first target is entered (its fields are 0, which is 1970) and queues
  it; the writer opens \<open><nil>.csv\<close>; the routine begins with its target and sends a SYN; then the writer
  marks the object, which now holds that target, as written. There is no file for the target.
\<close>

lemma written_without_file:
  "\<exists>S p. trt_run ex_trt_cfg gp S \<and> tt_params (sy_st S) 61024 = Some p \<and> initial_ip p = [192, 0, 2, 1] \<and> written p \<and>
     tt_sent (sy_st S) \<noteq> [] \<and> tt_files (sy_st S) (result_file [192, 0, 2, 1]) = None"
proof -
  let ?cfg = ex_trt_cfg and ?a = "[192, 0, 2, 1] :: ip" and ?k = "61024 :: int" and ?f = "result_file []"
    and ?now = "8 * 10 ^ 9 :: time"
  define t1 where "t1 = insert_param ?k (set_finished_flag 61024 False (trt_init ?cfg))"
  define S1 where "S1 = pc_upd 61024 (Waiting ?a) t1 (sys_init ?cfg)"
  define S2 where "S2 = S1\<lparr>sy_due := Some ?k\<rparr>"
  define t3 where "t3 = finish ?k ?now t1"
  define S3 where "S3 = S2\<lparr>sy_st := t3, sy_due := None\<rparr>"
  define t4 where "t4 = t3\<lparr>tt_write := []\<rparr>"
  define S4 where "S4 = S3\<lparr>sy_st := t4, sy_writer := W_taken ?k\<rparr>"
  define t5 where "t5 = create_file ?f t4"
  define S5 where "S5 = S4\<lparr>sy_st := t5, sy_writer := W_open ?k ?f 0\<rparr>"
  let ?p = "new_param\<lparr>finished := time_Unix ?now\<rparr>"
  define t8 where "t8 = write_part ?f (result_part 2 ?p) (write_part ?f (result_part 1 ?p) (write_part ?f (result_part 0 ?p) t5))"
  define S8 where "S8 = S5\<lparr>sy_st := t8, sy_writer := W_open ?k ?f 3\<rparr>"
  define S9 where "S9 = pc_upd 61024 (Ready ?a) t8 S8"
  define t10 where "t10 = begin_target ?k ?a t8"
  define S10 where "S10 = pc_upd 61024 (Sending ?a 1) t10 S9"
  define t11 where "t11 = trt_send_syn ?cfg (of_nat 1) ?a (of_nat 1) 61024 t10"
  define S11 where "S11 = pc_upd 61024 (Sending ?a (Suc 1)) t11 S10"
  define S12 where "S12 = S11\<lparr>sy_st := mark_written ?k t11, sy_writer := W_idle\<rparr>"
  have u: "tt_params (write_part f t s) = tt_params s" "tt_params (create_file f s) = tt_params s"
    "tt_sent (write_part f t s) = tt_sent s" "tt_sent (create_file f s) = tt_sent s" for f t s
    by (simp_all add: write_part_def create_file_def)
  have p1: "tt_params t1 ?k = Some new_param" by (simp add: t1_def trt_init_def)
  have p3: "tt_params t3 ?k = Some ?p" using p1 by (simp add: t3_def finish_def Let_def upd_param_def)
  have p5: "tt_params t5 ?k = Some ?p" "tt_params t8 ?k = Some ?p" "tt_params t4 ?k = Some ?p"
    using p3 by (simp_all add: t8_def t5_def t4_def u)
  have p10: "tt_params t10 ?k = Some ((zero_param ?p)\<lparr>initial_ip := ?a\<rparr>)"
    using p5(2) by (simp only: t10_def begin_target_simps fun_upd_same) simp
  have d: "timed_out ?now new_param" by (simp add: timed_out_def new_param_def time_Unix_def)
  have 1: "trt_run ?cfg gp S1" unfolding S1_def t1_def
    by (rule trt_run.step [OF trt_run.start])
      (use trt_step.recv [of 61024 ?cfg "sys_init ?cfg" gp ?a] in
        \<open>simp add: trt_start_ports_def ex_trt_cfg_def default_cfg_def sys_init_def\<close>)
  have 2: "trt_run ?cfg gp S2" unfolding S2_def
    by (rule trt_run.step [OF 1 trt_step.sweep [OF _ _ d]]) (simp_all add: S1_def pc_upd_def sys_init_def p1)
  have e3: "S3 = S2\<lparr>sy_st := finish ?k ?now (sy_st S2), sy_due := None\<rparr>" by (simp add: S3_def t3_def S2_def S1_def pc_upd_def)
  have 3: "trt_run ?cfg gp S3" unfolding e3
    by (rule trt_run.step [OF 2 trt_step.sweep_lock [of _ _ new_param]]) (simp_all add: S2_def S1_def pc_upd_def p1)
  have e4: "S4 = S3\<lparr>sy_st := (sy_st S3)\<lparr>tt_write := []\<rparr>, sy_writer := W_taken ?k\<rparr>" by (simp add: S4_def t4_def S3_def)
  have 4: "trt_run ?cfg gp S4" unfolding e4
    by (rule trt_run.step [OF 3 trt_step.take_out])
      (simp_all add: S3_def S2_def S1_def pc_upd_def sys_init_def t3_def finish_def t1_def trt_init_def upd_param_def Let_def)
  have e5: "S5 = S4\<lparr>sy_st := create_file ?f (sy_st S4), sy_writer := W_open ?k ?f 0\<rparr>" by (simp add: S5_def t5_def S4_def)
  have 5: "trt_run ?cfg gp S5" unfolding e5
    by (rule trt_run.step [OF 4 trt_step.create [of _ _ ?p]]) (simp_all add: S4_def p5 new_param_def)
  have part: "trt_run ?cfg gp (S\<lparr>sy_st := write_part ?f (result_part i ?p) (sy_st S), sy_writer := W_open ?k ?f (Suc i)\<rparr>)"
    if "trt_run ?cfg gp S" "sy_writer S = W_open ?k ?f i" "i < 3" "tt_params (sy_st S) ?k = Some ?p" for S i
    by (rule trt_run.step [OF that(1) trt_step.part [OF that(2-4)]])
  have 8: "trt_run ?cfg gp S8"
    using part [OF part [OF part [OF 5]], of 0 1 2] by (simp add: S5_def S8_def t8_def u p5 eval_nat_numeral)
  have 9: "trt_run ?cfg gp S9"
    using trt_run.step [OF 8 trt_step.free [of S8 61024 ?a ?p ?cfg 0]] p5
    by (simp add: S9_def S8_def S5_def S4_def S3_def S2_def S1_def pc_upd_def must_wait_def new_param_def)
  have 10: "trt_run ?cfg gp S10"
    using trt_run.step [OF 9 trt_step.begin_t [of S9 61024 ?a]] by (simp add: S10_def S9_def t10_def pc_upd_def)
  have 11: "trt_run ?cfg gp S11"
    using trt_run.step [OF 10 trt_step.syn [of S10 61024 ?a 1 "(zero_param ?p)\<lparr>initial_ip := ?a\<rparr>"]] p10
    by (simp add: S11_def S10_def t11_def pc_upd_def zero_param_def)
  have p11: "tt_params t11 ?k = Some ((zero_param ?p)\<lparr>initial_ip := ?a\<rparr>)"
    using p10 by (simp add: t11_def trt_send_syn_def)
  have 12: "trt_run ?cfg gp S12"
    using trt_run.step [OF 11 trt_step.mark [of S11 ?k ?f]]
    by (simp add: S12_def S11_def S10_def S9_def S8_def pc_upd_def)
  moreover have "tt_params (sy_st S12) ?k = Some ((zero_param ?p)\<lparr>initial_ip := ?a, written := True\<rparr>)"
    using p11 by (simp add: S12_def mark_written_def upd_param_def)
  moreover have "tt_sent (sy_st S12) \<noteq> []"
    using p10 by (simp add: S12_def mark_written_def t11_def trt_send_syn_def upd_param_def)
  moreover have "tt_files (sy_st S12) (result_file ?a) = None"
  proof -
    have ne: "result_file ?a \<noteq> ?f" by code_simp
    have "tt_files t11 (result_file ?a) = tt_files t1 (result_file ?a)"
      using ne p1 by (simp add: t11_def trt_send_syn_def t10_def t8_def t5_def t4_def t3_def write_part_def create_file_def
          finish_def upd_param_def Let_def)
    then show ?thesis by (simp add: S12_def mark_written_def upd_param_def t1_def trt_init_def)
  qed
  ultimately show ?thesis by (intro exI [of _ S12] exI [of _ "(zero_param ?p)\<lparr>initial_ip := ?a, written := True\<rparr>"]) simp
qed

end
