(* ===== verification/RateLimit.thy ===== *)
theory RateLimit
  imports UdpScanner Targets
begin

section \<open>The rate-limit tester (ratelimit/ratelimit.go)\<close>

text \<open>
  An entry is a resolver under test. Entries are made under their key in \<open>resolver_data\<close> and shared
  by pointer with the senders, the handler and the writer; the model keeps them in a heap under
  that key, and the maps of the code hold keys. Rates are \<open>float64\<close> in the code and rational numbers
  here: the rounding of the floating-point operations is not modelled. Times are in microseconds.
\<close>

subsection \<open>State\<close>

record answer_entry =
  ae_ts :: int
  ae_size :: int

record rate_curve_pair =
  target_tx_rate :: rat
  rp_duration :: int
  tx_rate :: rat
  rx_rate :: rat
  rp_loss :: rat

record rate_data =
  answer_data :: "answer_entry list"
  limiter_rate :: int
  rate_curve_pairs :: "rate_curve_pair list"
  moving_sent_packets :: int
  first_response_ts :: int

record resolver_entry =
  resolver_ip :: ip
  tfwd_ips :: "ip list"
  tfwd_pool_pos :: nat
  rate_pos :: nat
  re_outport :: u16
  re_rate_data :: "rate_data list"
  acc_max_rate :: rate_curve_pair
  acc_rate_data :: "rate_curve_pair list"

record rate_tester =
  rt_heap :: "string \<rightharpoonup> resolver_entry"
  rt_resolver_data :: "string list"
  rt_active :: "u16 \<rightharpoonup> string"
  rt_finished :: "string list"
  rt_rate_curve :: "int list"
  rt_current_port :: u32
  rt_counter :: int
  rt_domains :: "string list"

definition zero_pair :: rate_curve_pair where
  "zero_pair = \<lparr>target_tx_rate = 0, rp_duration = 0, tx_rate = 0, rx_rate = 0, rp_loss = 0\<rparr>"

definition new_rate_data :: "int \<Rightarrow> int \<Rightarrow> rate_data" where
  "new_rate_data limit first = \<lparr>answer_data = [], limiter_rate = limit, rate_curve_pairs = [],
     moving_sent_packets = 0, first_response_ts = first\<rparr>"

definition new_entry :: "ip \<Rightarrow> int \<Rightarrow> resolver_entry" where
  "new_entry a first = \<lparr>resolver_ip = a, tfwd_ips = [], tfwd_pool_pos = 0, rate_pos = 0, re_outport = 0,
     re_rate_data = [new_rate_data 0 first], acc_max_rate = zero_pair, acc_rate_data = []\<rparr>"

subsection \<open>The rates of the last interval\<close>

definition rx_window :: "int \<Rightarrow> int \<Rightarrow> int \<Rightarrow> int \<Rightarrow> int \<times> int" where
  "rx_window first now duration_send duration_timeout =
     (let rx_start_ts = (if now - (duration_send + duration_timeout) * 1000 < first \<and>
                            first < now - duration_send * 1000
                         then first else now - duration_send * 1000)
      in (rx_start_ts, rx_start_ts + duration_send * 1000))"

text \<open>The loop runs from the newest answer backwards.\<close>

fun count_rx :: "int \<Rightarrow> int \<Rightarrow> answer_entry list \<Rightarrow> int" where
  "count_rx st en [] = 0"
| "count_rx st en (a # as) =
     (if ae_ts a < st then 0 else (if ae_ts a < en then 1 else 0) + count_rx st en as)"

definition calc_last_second_rate :: "int \<Rightarrow> rat \<Rightarrow> int \<Rightarrow> int \<Rightarrow> rate_data \<Rightarrow> rate_data" where
  "calc_last_second_rate now target_rate duration_send duration_timeout d =
     (let no_rx_pkts = (if first_response_ts d \<noteq> -1
            then (let (st, en) = rx_window (first_response_ts d) now duration_send duration_timeout
                  in count_rx st en (rev (answer_data d)))
            else 0)
      in d\<lparr>rate_curve_pairs := rate_curve_pairs d @
             [\<lparr>target_tx_rate = target_rate, rp_duration = duration_send,
               tx_rate = of_int (moving_sent_packets d) / of_int duration_send * 1000,
               rx_rate = of_int no_rx_pkts / of_int duration_send * 1000,
               rp_loss = of_int (moving_sent_packets d - no_rx_pkts) / of_int duration_send * 1000\<rparr>],
           moving_sent_packets := 0, first_response_ts := -1\<rparr>)"

subsection \<open>Reading the input\<close>

text \<open>\<open>Ip42uint32\<close> panics on an address that has no IPv4 form.\<close>

fun iparr_contains :: "ip list \<Rightarrow> ip \<Rightarrow> bool outcome" where
  "iparr_contains [] e = Ret False"
| "iparr_contains (a # s) e =
     bindO (Ip42uint32 a) (\<lambda>x. bindO (Ip42uint32 e) (\<lambda>y.
       if x = y then Ret True else iparr_contains s e))"

definition intarr_contains :: "int list \<Rightarrow> int \<Rightarrow> bool" where
  "intarr_contains a b \<longleftrightarrow> b \<in> set a"

record csv_pos =
  pos_target_ip :: int
  pos_response_ip :: int
  pos_response_type :: int

definition csv_header :: "string list \<Rightarrow> csv_pos" where
  "csv_header cols = fold (\<lambda>(i, col) p.
       if col = ''ip_request'' then p\<lparr>pos_target_ip := int i\<rparr>
       else if col = ''ip_response'' then p\<lparr>pos_response_ip := int i\<rparr>
       else if col = ''response_type'' then p\<lparr>pos_response_type := int i\<rparr> else p)
     (enumerate 0 cols) \<lparr>pos_target_ip = -1, pos_response_ip = -1, pos_response_type = -1\<rparr>"

definition column :: "string list \<Rightarrow> int \<Rightarrow> string outcome" where
  "column split i = (if i < 0 then Panic IndexOutOfRange else index split (nat i))"

definition read_line :: "Cfg_db \<Rightarrow> csv_pos \<Rightarrow> string \<Rightarrow> (string \<rightharpoonup> resolver_entry) \<Rightarrow> (string \<rightharpoonup> resolver_entry) outcome" where
  "read_line cfg p line m =
     (if line = [] then Ret m
      else let split = split_on CHR '';'' line in
        bindO (column split (pos_response_ip p)) (\<lambda>k.
        let e = (case m k of None \<Rightarrow> new_entry (parse_ip k) (-1) | Some e \<Rightarrow> e) in
        bindO (if Rate_response_ip_only cfg then Ret k else column split (pos_target_ip p)) (\<lambda>t.
        bindO (iparr_contains (tfwd_ips e) (parse_ip t)) (\<lambda>c.
          Ret (m(k \<mapsto> if c then e else e\<lparr>tfwd_ips := tfwd_ips e @ [parse_ip t]\<rparr>))))))"

fun read_lines :: "Cfg_db \<Rightarrow> csv_pos \<Rightarrow> string list \<Rightarrow> (string \<rightharpoonup> resolver_entry) \<Rightarrow> (string \<rightharpoonup> resolver_entry) outcome" where
  "read_lines cfg p [] m = Ret m"
| "read_lines cfg p (l # ls) m = bindO (read_line cfg p l m) (read_lines cfg p ls)"

definition header_ok :: "Cfg_db \<Rightarrow> csv_pos \<Rightarrow> bool" where
  "header_ok cfg p \<longleftrightarrow> pos_response_ip p \<noteq> -1 \<and> (Rate_response_ip_only cfg \<or> pos_target_ip p \<noteq> -1)"

text \<open>\<open>probe\<close> is \<open>find_active_fwds\<close>; the result says whether the mode exists.\<close>

definition read_forwarders ::
  "Cfg_db \<Rightarrow> ((string \<rightharpoonup> resolver_entry) \<Rightarrow> (string \<rightharpoonup> resolver_entry) outcome) \<Rightarrow> string list
    \<Rightarrow> ((string \<rightharpoonup> resolver_entry) \<times> bool) outcome" where
  "read_forwarders cfg probe lines =
     (let p = (case lines of [] \<Rightarrow> csv_header [] | h # _ \<Rightarrow> csv_header (split_on CHR '';'' h))
      in if lines \<noteq> [] \<and> \<not> header_ok cfg p then Panic (LogFatal ''missing header of the csv file'')
         else bindO (read_lines cfg p (tl lines) Map.empty) (\<lambda>m.
           if Rate_mode cfg = ''probe'' then bindO (probe m) (\<lambda>m'. Ret (m', True))
           else Ret (m, Rate_mode cfg = ''direct'' \<or> Rate_mode cfg = [])))"

fun read_domains :: "int \<Rightarrow> string list \<Rightarrow> string list \<Rightarrow> string list outcome" where
  "read_domains mx [] ds = Ret ds"
| "read_domains mx (l # ls) ds =
     (if l = [] then read_domains mx ls ds
      else bindO (index (split_on CHR '','' l) 1) (\<lambda>d.
        if mx \<noteq> 0 \<and> mx < int (length (ds @ [d])) + 1 then Ret (ds @ [d])
        else read_domains mx ls (ds @ [d])))"

fun parse_rate_curve :: "string list \<Rightarrow> int list option" where
  "parse_rate_curve [] = Some []"
| "parse_rate_curve (v # vs) = (case atoi (rev (dropWhile ((=) CHR '' '') (rev (dropWhile ((=) CHR '' '') v)))) of
       None \<Rightarrow> None | Some i \<Rightarrow> map_option ((#) i) (parse_rate_curve vs))"

definition rate_curve_of :: "Cfg_db \<Rightarrow> int list option" where
  "rate_curve_of cfg = parse_rate_curve (split_on CHR '','' (Rate_curve cfg))"

subsection \<open>Probing for active forwarders\<close>

text \<open>
  \<open>keys\<close> is the order in which the iteration over \<open>resolver_data\<close> runs; \<open>scan\<close> is the internal UDP
  scan of /24 networks, which returns its items.
\<close>

fun nets_of_ips :: "ip list \<Rightarrow> u32 list \<Rightarrow> u32 list outcome" where
  "nets_of_ips [] nets = Ret nets"
| "nets_of_ips (a # as) nets = bindO (Ip42uint32 a) (\<lambda>v.
     nets_of_ips as (List.insert (v AND 0xffffff00) nets))"

fun nets_of_entries :: "resolver_entry list \<Rightarrow> u32 list \<Rightarrow> u32 list outcome" where
  "nets_of_entries [] nets = Ret nets"
| "nets_of_entries (e # es) nets = bindO (nets_of_ips (tfwd_ips e) nets) (nets_of_entries es)"

fun found_fwds :: "ip \<Rightarrow> udp_item list \<Rightarrow> ip list \<Rightarrow> ip list outcome" where
  "found_fwds r [] fwds = Ret fwds"
| "found_fwds r (u # us) fwds =
     (if ui_Dns_recs u = [] \<or> ui_Answerip u = [] then found_fwds r us fwds
      else bindO (Ip42uint32 (ui_Answerip u)) (\<lambda>x. bindO (Ip42uint32 r) (\<lambda>y.
        if x \<noteq> y then found_fwds r us fwds
        else bindO (iparr_contains fwds (ui_Ip u)) (\<lambda>c.
          found_fwds r us (if c then fwds else fwds @ [ui_Ip u])))))"

fun assign_found :: "udp_item list \<Rightarrow> string list \<Rightarrow> (string \<rightharpoonup> resolver_entry) \<Rightarrow> (string \<rightharpoonup> resolver_entry) outcome" where
  "assign_found us [] m = Ret m"
| "assign_found us (k # ks) m = (case m k of None \<Rightarrow> assign_found us ks m
     | Some e \<Rightarrow> bindO (found_fwds (resolver_ip e) us []) (\<lambda>fwds.
         assign_found us ks (if fwds = [] then m(k := None) else m(k \<mapsto> e\<lparr>tfwd_ips := fwds\<rparr>))))"

definition find_active_fwds ::
  "(ip list \<Rightarrow> udp_item list) \<Rightarrow> string list \<Rightarrow> (string \<rightharpoonup> resolver_entry) \<Rightarrow> (string \<rightharpoonup> resolver_entry) outcome" where
  "find_active_fwds scan keys m =
     bindO (nets_of_entries (List.map_filter m keys) []) (\<lambda>nets.
       assign_found (scan (map Uint322ip nets)) keys m)"

subsection \<open>One subroutine of a test\<close>

definition go_div :: "int \<Rightarrow> int \<Rightarrow> int outcome" where
  "go_div a b = (if b = 0 then Panic IntegerDivideByZero
     else Ret (if (a < 0) \<noteq> (b < 0) then - (\<bar>a\<bar> div \<bar>b\<bar>) else \<bar>a\<bar> div \<bar>b\<bar>))"

definition go_mod :: "int \<Rightarrow> int \<Rightarrow> int outcome" where
  "go_mod a b = (if b = 0 then Panic IntegerDivideByZero
     else Ret (if a < 0 then - (\<bar>a\<bar> mod \<bar>b\<bar>) else \<bar>a\<bar> mod \<bar>b\<bar>))"

text \<open>The source port of a subroutine.\<close>

definition sub_port :: "Cfg_db \<Rightarrow> u16 \<Rightarrow> nat \<Rightarrow> int outcome" where
  "sub_port cfg outport subid =
     bindO (go_mod (uint outport - uint (Port_min cfg) + int subid) (uint (Port_max cfg - Port_min cfg)))
       (\<lambda>r. Ret (r + uint (Port_min cfg)))"

text \<open>
  What the environment supplies to a round of the sending loop: the clock of its condition, the
  hash prefix of the clock in the mode \<open>hash\<close>, the number \<open>rand.Intn\<close> draws and the IP id.
\<close>

record rate_input =
  ri_now :: int
  ri_hash :: string
  ri_pick :: nat
  ri_rnd :: u16

definition query_domain :: "Cfg_db \<Rightarrow> string list \<Rightarrow> rate_input \<Rightarrow> string outcome" where
  "query_domain cfg domains i =
     (if Domain_mode cfg = ''hash'' then Ret (ri_hash i @ ''.'' @ Dns_query cfg)
      else if Domain_mode cfg = ''constant'' then Ret (Dns_query cfg)
      else if Domain_mode cfg = ''list'' \<or> Domain_mode cfg = ''inject'' then
        (if domains = [] then Panic NegativeArgument else index domains (ri_pick i mod length domains))
      else Panic (LogFatal ''wrong domain mode''))"

definition upd_sub :: "nat \<Rightarrow> (rate_data \<Rightarrow> rate_data) \<Rightarrow> resolver_entry \<Rightarrow> resolver_entry" where
  "upd_sub i f e = e\<lparr>re_rate_data := (re_rate_data e)[i := f (re_rate_data e ! i)]\<rparr>"

text \<open>One query: the forwarder, the packet, the counters; then the state of the loop.\<close>

definition sub_send ::
  "Cfg_db \<Rightarrow> gopacket \<Rightarrow> u16 \<Rightarrow> string list \<Rightarrow> nat \<Rightarrow> int \<Rightarrow> rate_input \<Rightarrow> resolver_entry \<times> u16 \<times> udp_packet list
    \<Rightarrow> (resolver_entry \<times> u16 \<times> udp_packet list) outcome" where
  "sub_send cfg gp dns_type domains subid port i st =
     (case st of (e, dnsid, out) \<Rightarrow>
        bindO (query_domain cfg domains i) (\<lambda>q.
        bindO (if Rate_concurrent_pool cfg then index (tfwd_ips e) subid
               else index (tfwd_ips e) (tfwd_pool_pos e)) (\<lambda>fwd.
          let e1 = (if Rate_concurrent_pool cfg then e
                    else e\<lparr>tfwd_pool_pos := (tfwd_pool_pos e + 1) mod length (tfwd_ips e)\<rparr>)
          in bindO (index (re_rate_data e1) subid) (\<lambda>_.
               Ret (upd_sub subid (\<lambda>d. d\<lparr>moving_sent_packets := moving_sent_packets d + 1\<rparr>) e1, dnsid + 1,
                    out @ [Build_dns cfg gp dns_type (ri_rnd i) fwd (word_of_int port) dnsid q])))))"

fun sub_loop ::
  "Cfg_db \<Rightarrow> gopacket \<Rightarrow> u16 \<Rightarrow> string list \<Rightarrow> nat \<Rightarrow> int \<Rightarrow> int \<Rightarrow> rate_input list
    \<Rightarrow> resolver_entry \<times> u16 \<times> udp_packet list \<Rightarrow> (resolver_entry \<times> u16 \<times> udp_packet list) outcome" where
  "sub_loop cfg gp dns_type domains subid port t_start [] st = Ret st"
| "sub_loop cfg gp dns_type domains subid port t_start (i # is) st =
     (if \<not> (ri_now i - t_start < Rate_increase_interval cfg * 1000) then Ret st
      else bindO (sub_send cfg gp dns_type domains subid port i st)
             (sub_loop cfg gp dns_type domains subid port t_start is))"

text \<open>What \<open>Handle_pkt\<close> does to the data of a subroutine.\<close>

definition record_answer :: "answer_entry \<Rightarrow> rate_data \<Rightarrow> rate_data" where
  "record_answer a d = d\<lparr>answer_data := answer_data d @ [a],
     first_response_ts := (if first_response_ts d = -1 then ae_ts a else first_response_ts d)\<rparr>"

text \<open>The number sent on \<open>ret_chan\<close>: -1 to go on, the subroutine's own number to stop.\<close>

definition sub_verdict :: "Cfg_db \<Rightarrow> int list \<Rightarrow> nat \<Rightarrow> int \<Rightarrow> resolver_entry \<Rightarrow> int outcome" where
  "sub_verdict cfg curve subid finished_subs e =
     (if int (rate_pos e) = int (length curve) - 1 then Ret (int subid)
      else if Rate_ignore_threshold cfg then Ret (-1)
      else bindO (go_div (curve ! rate_pos e)
             (if Rate_concurrent_pool cfg then 1 else Rate_subroutines cfg - finished_subs)) (\<lambda>r.
        if rx_rate (last (rate_curve_pairs (re_rate_data e ! subid))) < Rate_receive_threshold cfg * of_int r
        then Ret (int subid) else Ret (-1)))"

record sub_env =
  se_start :: int
  se_inputs :: "rate_input list"
  se_answers :: "answer_entry list"
  se_now :: int

definition rate_test_target_sub ::
  "Cfg_db \<Rightarrow> gopacket \<Rightarrow> u16 \<Rightarrow> string list \<Rightarrow> int list \<Rightarrow> int \<Rightarrow> sub_env \<Rightarrow> nat
    \<Rightarrow> resolver_entry \<times> u16 \<times> udp_packet list \<Rightarrow> ((resolver_entry \<times> u16 \<times> udp_packet list) \<times> int) outcome" where
  "rate_test_target_sub cfg gp dns_type domains curve finished_subs env subid st =
     bindO (sub_port cfg (re_outport (fst st)) subid) (\<lambda>port.
     bindO (sub_loop cfg gp dns_type domains subid port (se_start env) (se_inputs env) st) (\<lambda>(e, dnsid, out).
     bindO (index curve (rate_pos e)) (\<lambda>target.
     bindO (index (re_rate_data e) subid) (\<lambda>_.
       let e1 = upd_sub subid (calc_last_second_rate (se_now env) (of_int target)
                  (Rate_increase_interval cfg) (Rate_wait_interval cfg) \<circ> fold record_answer (se_answers env)) e
       in bindO (sub_verdict cfg curve subid finished_subs e1) (\<lambda>v. Ret ((e1, dnsid, out), v))))))"

subsection \<open>The rounds of a test\<close>

text \<open>
  The numbers the subroutines send are read from \<open>ret_chan\<close> until as many went on as are not in
  the pool; \<open>None\<close> stands for a read that waits forever.
\<close>

fun collect :: "int \<Rightarrow> int list \<Rightarrow> int \<Rightarrow> int list \<Rightarrow> int list option" where
  "collect n [] chan_count pool = None"
| "collect n (m # ms) chan_count pool =
     (let (c, p) = (if m \<noteq> -1 then (chan_count, if intarr_contains pool m then pool else pool @ [m])
                    else (chan_count + 1, pool))
      in if c = n - int (length p) then Some p else collect n ms c p)"

definition add_pair :: "rate_curve_pair \<Rightarrow> rate_curve_pair \<Rightarrow> rate_curve_pair" where
  "add_pair c s =
     (let c1 = (if target_tx_rate c = -1
                then c\<lparr>target_tx_rate := target_tx_rate s, rp_duration := rp_duration s\<rparr> else c)
      in c1\<lparr>rx_rate := rx_rate c1 + rx_rate s, tx_rate := tx_rate c1 + tx_rate s,
            rp_loss := rp_loss c1 + rp_loss s\<rparr>)"

definition round_pair :: "nat \<Rightarrow> rate_data list \<Rightarrow> rate_curve_pair" where
  "round_pair pos ds = fold (\<lambda>d c. if length (rate_curve_pairs d) \<le> pos then c
       else add_pair c (rate_curve_pairs d ! pos)) ds
     \<lparr>target_tx_rate = -1, rp_duration = -1, tx_rate = 0, rx_rate = 0, rp_loss = 0\<rparr>"

definition close_round :: "resolver_entry \<Rightarrow> resolver_entry" where
  "close_round e =
     (let p = round_pair (rate_pos e) (re_rate_data e)
      in e\<lparr>acc_max_rate := (if rx_rate (acc_max_rate e) < rx_rate p then p else acc_max_rate e),
           acc_rate_data := acc_rate_data e @ [p]\<rparr>)"

definition next_rate :: "int list \<Rightarrow> resolver_entry \<Rightarrow> resolver_entry outcome" where
  "next_rate curve e = bindO (index curve (rate_pos e + 1)) (\<lambda>r.
     Ret (e\<lparr>rate_pos := rate_pos e + 1,
            re_rate_data := map (\<lambda>d. d\<lparr>limiter_rate := r\<rparr>) (re_rate_data e)\<rparr>))"

text \<open>
  What the environment supplies to one round: for every subroutine its inputs, and the order in which
  the numbers arrive on \<open>ret_chan\<close>. The subroutines of a round work on data of their own; they
  are run one after the other.
\<close>

record round_env =
  en_sub :: "nat \<Rightarrow> sub_env"
  en_order :: "int list \<Rightarrow> int list"

type_synonym test_state = "resolver_entry \<times> u16 list \<times> udp_packet list"

fun run_subs ::
  "Cfg_db \<Rightarrow> gopacket \<Rightarrow> u16 \<Rightarrow> string list \<Rightarrow> int list \<Rightarrow> int \<Rightarrow> (nat \<Rightarrow> sub_env) \<Rightarrow> nat list
    \<Rightarrow> test_state \<Rightarrow> (test_state \<times> int list) outcome" where
  "run_subs cfg gp dns_type domains curve fin env [] st = Ret (st, [])"
| "run_subs cfg gp dns_type domains curve fin env (i # is) (e, dnsids, out) =
     bindO (index dnsids i) (\<lambda>dnsid.
     bindO (rate_test_target_sub cfg gp dns_type domains curve fin (env i) i (e, dnsid, out)) (\<lambda>((e1, dnsid1, out1), v).
     bindO (run_subs cfg gp dns_type domains curve fin env is (e1, dnsids[i := dnsid1], out1)) (\<lambda>(st, vs).
       Ret (st, v # vs))))"

definition rate_round ::
  "Cfg_db \<Rightarrow> gopacket \<Rightarrow> u16 \<Rightarrow> string list \<Rightarrow> int list \<Rightarrow> nat \<Rightarrow> round_env \<Rightarrow> int list \<Rightarrow> test_state
    \<Rightarrow> (test_state \<times> int list) outcome option" where
  "rate_round cfg gp dns_type domains curve n env pool st =
     (case run_subs cfg gp dns_type domains curve (int (length pool)) (en_sub env)
            (filter (\<lambda>i. \<not> intarr_contains pool (int i)) [0..<n]) st of
        Panic err \<Rightarrow> Some (Panic err)
      | Ret ((e, dnsids, out), vs) \<Rightarrow>
          (case collect (int n) (en_order env vs) 0 pool of
             None \<Rightarrow> None
           | Some pool' \<Rightarrow> Some (Ret ((close_round e, dnsids, out), pool'))))"

text \<open>The outer loop, with fuel; \<open>None\<close> is a loop that has not come to its end.\<close>

fun rate_loop ::
  "Cfg_db \<Rightarrow> gopacket \<Rightarrow> u16 \<Rightarrow> string list \<Rightarrow> int list \<Rightarrow> nat \<Rightarrow> nat \<Rightarrow> (nat \<Rightarrow> round_env) \<Rightarrow> nat \<Rightarrow> int list
    \<Rightarrow> test_state \<Rightarrow> test_state outcome option" where
  "rate_loop cfg gp dns_type domains curve n 0 envs r pool st = None"
| "rate_loop cfg gp dns_type domains curve n (Suc fuel) envs r pool st =
     (case rate_round cfg gp dns_type domains curve n (envs r) pool st of
        None \<Rightarrow> None
      | Some (Panic err) \<Rightarrow> Some (Panic err)
      | Some (Ret ((e, dnsids, out), pool')) \<Rightarrow>
          if length pool' = n then Some (Ret (e, dnsids, out))
          else (case next_rate curve e of
                  Panic err \<Rightarrow> Some (Panic err)
                | Ret e' \<Rightarrow> rate_loop cfg gp dns_type domains curve n fuel envs (Suc r) pool' (e', dnsids, out)))"

definition sub_count :: "Cfg_db \<Rightarrow> resolver_entry \<Rightarrow> nat" where
  "sub_count cfg e = (if Rate_concurrent_pool cfg then length (tfwd_ips e) else nat (Rate_subroutines cfg))"

definition rate_test_target ::
  "Cfg_db \<Rightarrow> gopacket \<Rightarrow> u16 \<Rightarrow> string list \<Rightarrow> int list \<Rightarrow> nat \<Rightarrow> (nat \<Rightarrow> round_env) \<Rightarrow> resolver_entry
    \<Rightarrow> test_state outcome option" where
  "rate_test_target cfg gp dns_type domains curve fuel envs e =
     rate_loop cfg gp dns_type domains curve (sub_count cfg e) fuel envs 0 []
       (e, replicate (sub_count cfg e) 0, [])"

subsection \<open>Registering a resolver and handling its answers\<close>

definition active_ports :: "u16 \<Rightarrow> nat \<Rightarrow> u16 list" where
  "active_ports outport n = map (\<lambda>i. outport + of_nat i) [0..<n]"

definition advance_port :: "Cfg_db \<Rightarrow> nat \<Rightarrow> u32 \<Rightarrow> u32" where
  "advance_port cfg fwds p =
     (let p1 = (if Rate_concurrent_pool cfg then p + of_nat fwds else p + 1)
      in if ucast (Port_max cfg) < p1 then p1 - (ucast (Port_max cfg - Port_min cfg) + 1) else p1)"

definition take_resolver :: "Cfg_db \<Rightarrow> string \<Rightarrow> rate_tester \<Rightarrow> rate_tester outcome" where
  "take_resolver cfg key s =
     (case rt_heap s key of
        None \<Rightarrow> Ret s
      | Some e \<Rightarrow>
          let n = sub_count cfg e; outport = ucast (rt_current_port s) :: u16
          in bindO (index (rt_rate_curve s) 0) (\<lambda>r.
               Ret (s\<lparr>rt_resolver_data := filter ((\<noteq>) key) (rt_resolver_data s),
                      rt_current_port := advance_port cfg (length (tfwd_ips e)) (rt_current_port s),
                      rt_heap := (rt_heap s)(key \<mapsto> e\<lparr>re_outport := outport,
                        re_rate_data := replicate n (new_rate_data r (-1))\<rparr>),
                      rt_active := fold (\<lambda>p a. a(p \<mapsto> key)) (active_ports outport n) (rt_active s),
                      rt_counter := rt_counter s + 1\<rparr>)))"

definition release_resolver :: "Cfg_db \<Rightarrow> string \<Rightarrow> rate_tester \<Rightarrow> rate_tester" where
  "release_resolver cfg key s =
     (case rt_heap s key of None \<Rightarrow> s
      | Some e \<Rightarrow>
          s\<lparr>rt_finished := rt_finished s @ [key],
            rt_active := fold (\<lambda>p a. a(p := None))
              (active_ports (re_outport e) (if Rate_concurrent_pool cfg then length (tfwd_ips e) else 1))
              (rt_active s)\<rparr>)"

definition answer_counts :: "dns_msg \<Rightarrow> bool" where
  "answer_counts dns \<longleftrightarrow> dns_ResponseCode dns \<noteq> 4 \<and> dns_Answers dns \<noteq> [] \<and>
     \<not> (length (dns_Answers dns) = 1 \<and> rr_Type (hd (dns_Answers dns)) = DNSTypeHINFO)"

definition rate_Handle_pkt ::
  "gopacket \<Rightarrow> int \<Rightarrow> udp_layer option \<Rightarrow> u8 list \<Rightarrow> rate_tester \<Rightarrow> rate_tester outcome" where
  "rate_Handle_pkt gp rec_time udp pld s =
     (case udp of
        None \<Rightarrow> Ret s
      | Some u \<Rightarrow>
          (case gp_decode gp pld of
             None \<Rightarrow> Ret s
           | Some dns \<Rightarrow>
               if \<not> answer_counts dns then Ret s
               else (case rt_active s (udp_DstPort u) of
                  None \<Rightarrow> Ret s
                | Some key \<Rightarrow>
                    (case rt_heap s key of
                       None \<Rightarrow> Ret s
                     | Some e \<Rightarrow>
                         let subid = unat (udp_DstPort u - re_outport e)
                         in bindO (index (re_rate_data e) subid) (\<lambda>_.
                              Ret (s\<lparr>rt_heap := (rt_heap s)(key \<mapsto> upd_sub subid
                                (record_answer \<lparr>ae_ts = rec_time, ae_size = int (length pld)\<rparr>) e)\<rparr>))))))"

subsection \<open>Cache injection\<close>

definition inject_fwds :: "Cfg_db \<Rightarrow> ip list \<Rightarrow> ip list" where
  "inject_fwds cfg fwds = map snd (takeWhile (\<lambda>(idx, _). \<not> Rate_inject_max_fwds cfg < int idx) (enumerate 0 fwds))"

fun inject_queries :: "(ip \<times> string) list \<Rightarrow> u16 \<Rightarrow> (ip \<times> u16 \<times> string) list" where
  "inject_queries [] dnsid = []"
| "inject_queries ((fwd, q) # qs) dnsid = (fwd, dnsid, q) # inject_queries qs (dnsid + 1)"

text \<open>One routine: the resolvers it takes from the map, in the order it takes them.\<close>

definition inject_routine :: "Cfg_db \<Rightarrow> string list \<Rightarrow> resolver_entry list \<Rightarrow> (ip \<times> u16 \<times> string) list" where
  "inject_routine cfg domains es =
     inject_queries (concat (map (\<lambda>e. List.product (inject_fwds cfg (tfwd_ips e)) domains) es)) 0"

subsection \<open>Rows of the results\<close>

text \<open>\<open>math.Round\<close>: to the nearest integer, halves away from zero.\<close>

definition math_Round :: "rat \<Rightarrow> int" where
  "math_Round x = (if x < 0 then - \<lfloor>- x + 1 / 2\<rfloor> else \<lfloor>x + 1 / 2\<rfloor>)"

definition rate_record :: "rate_curve_pair \<Rightarrow> string list" where
  "rate_record p = map (\<lambda>x. itoa (math_Round x)) [target_tx_rate p, tx_rate p, rx_rate p, rp_loss p]"

definition timestamp_rows :: "Cfg_db \<Rightarrow> resolver_entry \<Rightarrow> string list list outcome" where
  "timestamp_rows cfg e = fold (\<lambda>(idx, d) acc. bindO acc (\<lambda>rows.
       if answer_data d = [] then Ret rows
       else bindO (index (tfwd_ips e) (if Rate_concurrent_pool cfg then idx else 0)) (\<lambda>fwd.
         Ret (rows @ map (\<lambda>a. [ip_string fwd, itoa (ae_ts a), itoa (ae_size a)]) (answer_data d)))))
     (enumerate 0 (re_rate_data e)) (Ret [])"

definition single_entry :: "ip \<Rightarrow> resolver_entry" where
  "single_entry netip = (new_entry netip 0)\<lparr>tfwd_ips := [netip]\<rparr>"

subsection \<open>Source ports and the ports the handler knows\<close>

lemma port_match:
  assumes "Port_min cfg < Port_max cfg" and "Port_min cfg \<le> outport" and "outport \<le> Port_max cfg"
    and "int i < uint (Port_max cfg) - uint (Port_min cfg)" and "i < n"
  shows "sub_port cfg outport i = Ret (uint (active_ports outport n ! i)) \<longleftrightarrow>
    uint outport + int i < uint (Port_max cfg)"
proof -
  define lo hi a where "lo = uint (Port_min cfg)" and "hi = uint (Port_max cfg)" and "a = uint outport"
  have b: "0 \<le> lo" "lo < hi" "lo \<le> a" "a \<le> hi" "hi < 65536" "int i < hi - lo"
    using assms uint_lt2p [of "Port_max cfg"] by (simp_all add: lo_def hi_def a_def word_less_def word_le_def)
  have d: "uint (Port_max cfg - Port_min cfg) = hi - lo"
    using assms(1) by (simp add: lo_def hi_def uint_sub_if_size word_size word_less_def)
  have p: "sub_port cfg outport i = Ret ((a - lo + int i) mod (hi - lo) + lo)"
    using b d by (simp add: sub_port_def go_mod_def a_def [symmetric] lo_def [symmetric])
  have q: "uint (active_ports outport n ! i) = (a + int i) mod 65536"
    using assms(5) by (simp add: active_ports_def a_def uint_word_ariths unsigned_of_nat take_bit_nat_def zmod_int mod_simps)
  show ?thesis
  proof (cases "a + int i < hi")
    case True
    then have "(a - lo + int i) mod (hi - lo) + lo = a + int i" "(a + int i) mod 65536 = a + int i"
      using b by simp_all
    with True show ?thesis by (simp only: p q a_def [symmetric] hi_def [symmetric]) simp
  next
    case False
    have "(a - lo + int i) mod (hi - lo) = (a - lo + int i - (hi - lo)) mod (hi - lo)" by (simp only: minus_mod_self2)
    also have "\<dots> = a + int i - hi" using False b by (subst mod_pos_pos_trivial) simp_all
    finally have l: "(a - lo + int i) mod (hi - lo) + lo = a + int i - hi + lo" by simp
    have "(a + int i) mod 65536 \<noteq> a + int i - hi + lo"
    proof (cases "a + int i < 65536")
      case True
      with False b show ?thesis by simp
    next
      case f: False
      have "(a + int i) mod 65536 = (a + int i - 65536) mod 65536" by simp
      also have "\<dots> = a + int i - 65536" using f b by (subst mod_pos_pos_trivial) simp_all
      finally show ?thesis using b by simp
    qed
    with False l show ?thesis by (simp only: p q a_def [symmetric] hi_def [symmetric]) simp
  qed
qed

text \<open>
  A subroutine sends from the port under which its resolver is registered exactly if that port is
  below \<open>Port_max\<close>: the sending side wraps around at \<open>Port_max - Port_min\<close> ports, one less than the
  range has, the registering side does not wrap at all. The answers to the others are not counted.
\<close>

theorem rate_port_match:
  assumes "Port_min cfg < Port_max cfg" and "Port_min cfg \<le> outport" and "outport \<le> Port_max cfg"
    and "int i < uint (Port_max cfg) - uint (Port_min cfg)" and "i < n"
  shows "sub_port cfg outport i = Ret (uint (active_ports outport n ! i)) \<longleftrightarrow>
    uint outport + int i < uint (Port_max cfg)"
  using assms by (rule port_match)

lemma rate_port_match_witness:
  "sub_port (default_cfg\<lparr>Port_min := 1000, Port_max := 1010\<rparr>) 1008 1 =
     Ret (uint (active_ports 1008 5 ! 1)) \<and>
   \<not> (sub_port (default_cfg\<lparr>Port_min := 1000, Port_max := 1010\<rparr>) 1008 2 = Ret (uint (active_ports 1008 5 ! 2)))"
  using rate_port_match [of "default_cfg\<lparr>Port_min := 1000, Port_max := 1010\<rparr>" 1008 1 5]
    rate_port_match [of "default_cfg\<lparr>Port_min := 1000, Port_max := 1010\<rparr>" 1008 2 5]
  by simp

subsection \<open>The count of answers\<close>

lemma count_rx_none: "\<forall>a \<in> set as. ae_ts a < st \<Longrightarrow> count_rx st en as = 0"
  by (cases as) auto

lemma count_rx_rev:
  assumes "sorted (map ae_ts as)"
  shows "count_rx st en (rev as) = int (length (filter (\<lambda>a. st \<le> ae_ts a \<and> ae_ts a < en) as))"
  using assms
proof (induction as rule: rev_induct)
  case (snoc a as)
  then have le: "\<forall>b \<in> set as. ae_ts b \<le> ae_ts a" and s: "sorted (map ae_ts as)"
    by (auto simp: sorted_append)
  show ?case
  proof (cases "ae_ts a < st")
    case True
    with le have "filter (\<lambda>a. st \<le> ae_ts a \<and> ae_ts a < en) as = []" by (auto simp: filter_empty_conv)
    with True show ?thesis by simp
  next
    case False
    with snoc.IH [OF s] show ?thesis by simp
  qed
qed simp

text \<open>
  C26. When the answers are in the order of their times, the backward loop, which stops at the first one
  before the window, counts exactly the answers inside; the window has the length of the sending
  time and starts no later than this time before now; what was sent and not answered is the loss.
\<close>

theorem rate_rx_counts:
  fixes now :: int and target :: rat and d :: rate_data
  assumes "sorted (map ae_ts (answer_data d))" and "first_response_ts d \<noteq> -1"
    and "0 < duration_send" and "0 \<le> duration_timeout"
  defines "w \<equiv> rx_window (first_response_ts d) now duration_send duration_timeout"
    and "p \<equiv> last (rate_curve_pairs (calc_last_second_rate now target duration_send duration_timeout d))"
  shows "rx_rate p = of_nat (length (filter (\<lambda>a. fst w \<le> ae_ts a \<and> ae_ts a < snd w) (answer_data d))) /
      of_int duration_send * 1000 \<and>
    rx_rate p + rp_loss p = tx_rate p \<and> snd w - fst w = duration_send * 1000 \<and>
    now - (duration_send + duration_timeout) * 1000 \<le> fst w \<and> fst w \<le> now - duration_send * 1000"
proof -
  obtain st en where w: "w = (st, en)" by (cases w)
  have "rx_rate p = of_int (count_rx st en (rev (answer_data d))) / of_int duration_send * 1000"
    "rx_rate p + rp_loss p = tx_rate p"
    using assms(2) w unfolding p_def w_def
    by (simp_all add: calc_last_second_rate_def Let_def diff_divide_distrib algebra_simps)
  moreover have "snd w - fst w = duration_send * 1000 \<and>
    now - (duration_send + duration_timeout) * 1000 \<le> fst w \<and> fst w \<le> now - duration_send * 1000"
    using assms(4) by (auto simp: w_def rx_window_def Let_def)
  ultimately show ?thesis using count_rx_rev [OF assms(1)] w by simp
qed

lemma rate_rx_counts_witness:
  "let d = (new_rate_data 100 1500000)\<lparr>moving_sent_packets := 4,
       answer_data := [\<lparr>ae_ts = 900000, ae_size = 60\<rparr>, \<lparr>ae_ts = 1500000, ae_size = 60\<rparr>, \<lparr>ae_ts = 2600000, ae_size = 60\<rparr>]\<rparr>
   in rx_rate (last (rate_curve_pairs (calc_last_second_rate 3000000 100 2000 150 d))) = 1"
proof -
  define d where "d = (new_rate_data 100 1500000)\<lparr>moving_sent_packets := 4,
     answer_data := [\<lparr>ae_ts = 900000, ae_size = 60\<rparr>, \<lparr>ae_ts = 1500000, ae_size = 60\<rparr>, \<lparr>ae_ts = 2600000, ae_size = 60\<rparr>]\<rparr>"
  have "rx_rate (last (rate_curve_pairs (calc_last_second_rate 3000000 100 2000 150 d))) =
     of_nat (length (filter (\<lambda>a. 1000000 \<le> ae_ts a \<and> ae_ts a < 3000000) (answer_data d))) / of_int 2000 * 1000"
    using rate_rx_counts [of d 2000 150 3000000 100]
    by (simp add: d_def new_rate_data_def rx_window_def Let_def)
  then show ?thesis by (simp add: d_def)
qed

subsection \<open>A test comes to its end\<close>

text \<open>The fields a round of sending leaves alone.\<close>

definition same_test :: "resolver_entry \<Rightarrow> resolver_entry \<Rightarrow> bool" where
  "same_test e e' \<longleftrightarrow> tfwd_ips e' = tfwd_ips e \<and> rate_pos e' = rate_pos e \<and> re_outport e' = re_outport e \<and>
     acc_max_rate e' = acc_max_rate e \<and> acc_rate_data e' = acc_rate_data e \<and>
     length (re_rate_data e') = length (re_rate_data e)"

definition pairs :: "resolver_entry \<Rightarrow> nat \<Rightarrow> rate_curve_pair list" where
  "pairs e i = rate_curve_pairs (re_rate_data e ! i)"

definition mode_ok :: "Cfg_db \<Rightarrow> string list \<Rightarrow> bool" where
  "mode_ok cfg domains \<longleftrightarrow> Domain_mode cfg \<in> {''hash'', ''constant''} \<or>
     (Domain_mode cfg \<in> {''list'', ''inject''} \<and> domains \<noteq> [])"

definition fwds_ok :: "Cfg_db \<Rightarrow> resolver_entry \<Rightarrow> bool" where
  "fwds_ok cfg e \<longleftrightarrow> (if Rate_concurrent_pool cfg then length (re_rate_data e) = length (tfwd_ips e)
     else tfwd_pool_pos e < length (tfwd_ips e))"

lemma same_test_refl [simp]: "same_test e e"
  by (simp add: same_test_def)

lemma same_test_trans: "same_test e e' \<Longrightarrow> same_test e' e'' \<Longrightarrow> same_test e e''"
  by (simp add: same_test_def)

lemma same_test_upd_sub [simp]: "same_test e (upd_sub i f e)"
  by (simp add: same_test_def upd_sub_def)

lemma pairs_upd_sub: "i < length (re_rate_data e) \<Longrightarrow>
    pairs (upd_sub i f e) j = (if j = i then rate_curve_pairs (f (re_rate_data e ! i)) else pairs e j)"
  by (simp add: pairs_def upd_sub_def nth_list_update)

lemma query_domain_Ret: "mode_ok cfg domains \<Longrightarrow> \<exists>q. query_domain cfg domains i = Ret q"
  by (auto simp: mode_ok_def query_domain_def)

lemma sub_send_Ret:
  assumes m: "mode_ok cfg domains" and f: "fwds_ok cfg e" and i: "i < length (re_rate_data e)"
  shows "\<exists>e' dn' out'. sub_send cfg gp t domains i port inp (e, dn, out) = Ret (e', dn', out') \<and>
    same_test e e' \<and> fwds_ok cfg e' \<and> (\<forall>j. pairs e' j = pairs e j)"
proof -
  obtain q where q: "query_domain cfg domains inp = Ret q" using query_domain_Ret [OF m] by blast
  show ?thesis
  proof (cases "Rate_concurrent_pool cfg")
    case True
    with f i q show ?thesis
      by (auto simp: sub_send_def fwds_ok_def same_test_def upd_sub_def pairs_def nth_list_update)
  next
    case False
    with f have l: "tfwd_pool_pos e < length (tfwd_ips e)" by (simp add: fwds_ok_def)
    then have "Suc (tfwd_pool_pos e) mod length (tfwd_ips e) < length (tfwd_ips e)"
      by (intro mod_less_divisor) linarith
    with l False i q show ?thesis
      by (auto simp: sub_send_def fwds_ok_def same_test_def upd_sub_def pairs_def nth_list_update Let_def)
  qed
qed

lemma sub_loop_Ret:
  assumes m: "mode_ok cfg domains" and "fwds_ok cfg e" and "i < length (re_rate_data e)"
  shows "\<exists>e' dn' out'. sub_loop cfg gp t domains i port t0 ins (e, dn, out) = Ret (e', dn', out') \<and>
    same_test e e' \<and> fwds_ok cfg e' \<and> (\<forall>j. pairs e' j = pairs e j)"
  using assms(2,3)
proof (induction ins arbitrary: e dn out)
  case (Cons x ins)
  obtain e1 dn1 out1 where 1: "sub_send cfg gp t domains i port x (e, dn, out) = Ret (e1, dn1, out1)"
    "same_test e e1" "fwds_ok cfg e1" "\<forall>j. pairs e1 j = pairs e j"
    using sub_send_Ret [OF m Cons.prems] by blast
  have "i < length (re_rate_data e1)" using 1(2) Cons.prems(2) by (simp add: same_test_def)
  from Cons.IH [OF 1(3) this] obtain e2 dn2 out2 where
    2: "sub_loop cfg gp t domains i port t0 ins (e1, dn1, out1) = Ret (e2, dn2, out2)"
    "same_test e1 e2" "fwds_ok cfg e2" "\<forall>j. pairs e2 j = pairs e1 j" by blast
  show ?case
  proof (cases "ri_now x - t0 < Rate_increase_interval cfg * 1000")
    case True
    with 1 2 same_test_trans [OF 1(2) 2(2)] show ?thesis by simp
  next
    case False
    with Cons.prems show ?thesis by simp
  qed
qed simp

lemma rate_curve_pairs_answers [simp]: "rate_curve_pairs (fold record_answer as d) = rate_curve_pairs d"
  by (induction as arbitrary: d) (simp_all add: record_answer_def)

lemma sub_verdict_Ret:
  assumes "Rate_concurrent_pool cfg \<or> fin < Rate_subroutines cfg"
  shows "\<exists>v. sub_verdict cfg curve i fin e = Ret v \<and> v \<in> {-1, int i} \<and>
    (int (rate_pos e) = int (length curve) - 1 \<longrightarrow> v = int i)"
  using assms by (auto simp: sub_verdict_def go_div_def)

text \<open>A subroutine appends one pair to its own data and answers with -1 or its number.\<close>

lemma rate_test_target_sub_Ret:
  assumes ports: "Port_min cfg \<noteq> Port_max cfg" and m: "mode_ok cfg domains" and f: "fwds_ok cfg e"
    and i: "i < length (re_rate_data e)" and pos: "rate_pos e < length curve"
    and fin: "Rate_concurrent_pool cfg \<or> fin < Rate_subroutines cfg"
  shows "\<exists>e' dn' out' v p. rate_test_target_sub cfg gp t domains curve fin env i (e, dn, out) = Ret ((e', dn', out'), v) \<and>
    same_test e e' \<and> fwds_ok cfg e' \<and> (\<forall>j. pairs e' j = (if j = i then pairs e i @ [p] else pairs e j)) \<and>
    v \<in> {-1, int i} \<and> (rate_pos e = length curve - 1 \<longrightarrow> v = int i)"
proof -
  have "uint (Port_max cfg - Port_min cfg) \<noteq> 0"
    using ports by (simp add: unsigned_eq_0_iff)
  then obtain port where 0: "sub_port cfg (re_outport e) i = Ret port" by (auto simp: sub_port_def go_mod_def)
  obtain e1 dn1 out1 where 1: "sub_loop cfg gp t domains i port (se_start env) (se_inputs env) (e, dn, out) = Ret (e1, dn1, out1)"
    "same_test e e1" "fwds_ok cfg e1" "\<forall>j. pairs e1 j = pairs e j"
    using sub_loop_Ret [OF m f i] by blast
  have i1: "i < length (re_rate_data e1)" and pos1: "rate_pos e1 = rate_pos e"
    using 1(2) i by (simp_all add: same_test_def)
  let ?g = "calc_last_second_rate (se_now env) (of_int (curve ! rate_pos e)) (Rate_increase_interval cfg)
     (Rate_wait_interval cfg) \<circ> fold record_answer (se_answers env)"
  define e2 where "e2 = upd_sub i ?g e1"
  obtain p where p: "rate_curve_pairs (?g (re_rate_data e1 ! i)) = pairs e1 i @ [p]"
    by (simp add: calc_last_second_rate_def Let_def pairs_def)
  obtain v where v: "sub_verdict cfg curve i fin e2 = Ret v" "v \<in> {-1, int i}"
    "int (rate_pos e2) = int (length curve) - 1 \<longrightarrow> v = int i" using sub_verdict_Ret [OF fin] by blast
  have run: "rate_test_target_sub cfg gp t domains curve fin env i (e, dn, out) = Ret ((e2, dn1, out1), v)"
    using 0 1(1) i1 pos pos1 v(1) by (simp add: rate_test_target_sub_def e2_def)
  have pr: "\<forall>j. pairs e2 j = (if j = i then pairs e i @ [p] else pairs e j)"
    using 1(4) p i1 by (simp add: e2_def pairs_upd_sub)
  have st: "same_test e e2" unfolding e2_def using 1(2) same_test_upd_sub by (rule same_test_trans)
  have fo: "fwds_ok cfg e2" using 1(3) by (simp add: e2_def fwds_ok_def upd_sub_def)
  have "rate_pos e = length curve - 1 \<longrightarrow> v = int i" using v(3) st pos by (auto simp: same_test_def)
  with run pr st fo v(2) show ?thesis by blast
qed

lemma run_subs_Ret:
  assumes ports: "Port_min cfg \<noteq> Port_max cfg" and m: "mode_ok cfg domains"
    and fin: "Rate_concurrent_pool cfg \<or> fin < Rate_subroutines cfg"
    and "fwds_ok cfg e" and "rate_pos e < length curve" and "distinct is"
    and "\<forall>i \<in> set is. i < length (re_rate_data e) \<and> i < length dns"
  shows "\<exists>e' dns' out' vs. run_subs cfg gp t domains curve fin env is (e, dns, out) = Ret ((e', dns', out'), vs) \<and>
    same_test e e' \<and> fwds_ok cfg e' \<and> length dns' = length dns \<and>
    (\<forall>j. \<exists>p. pairs e' j = (if j \<in> set is then pairs e j @ [p] else pairs e j)) \<and>
    list_all2 (\<lambda>i v. v \<in> {-1, int i} \<and> (rate_pos e = length curve - 1 \<longrightarrow> v = int i)) is vs"
  using assms(4-)
proof (induction "is" arbitrary: e dns out)
  case (Cons i "is")
  have i: "i < length (re_rate_data e)" "i < length dns" using Cons.prems by auto
  obtain e1 dn1 out1 v p where 1: "rate_test_target_sub cfg gp t domains curve fin (env i) i (e, dns ! i, out) = Ret ((e1, dn1, out1), v)"
    "same_test e e1" "fwds_ok cfg e1" "\<forall>j. pairs e1 j = (if j = i then pairs e i @ [p] else pairs e j)"
    "v \<in> {-1, int i}" "rate_pos e = length curve - 1 \<longrightarrow> v = int i"
    using rate_test_target_sub_Ret [OF ports m Cons.prems(1) i(1) Cons.prems(2) fin] by blast
  have e1: "rate_pos e1 = rate_pos e" "length (re_rate_data e1) = length (re_rate_data e)"
    using 1(2) by (simp_all add: same_test_def)
  obtain e2 dns2 out2 vs where 2: "run_subs cfg gp t domains curve fin env is (e1, dns[i := dn1], out1) = Ret ((e2, dns2, out2), vs)"
    "same_test e1 e2" "fwds_ok cfg e2" "length dns2 = length (dns[i := dn1])"
    "\<forall>j. \<exists>p. pairs e2 j = (if j \<in> set is then pairs e1 j @ [p] else pairs e1 j)"
    "list_all2 (\<lambda>i v. v \<in> {-1, int i} \<and> (rate_pos e1 = length curve - 1 \<longrightarrow> v = int i)) is vs"
    using Cons.IH [OF 1(3), of "dns[i := dn1]" out1] Cons.prems e1 by auto
  have pr: "\<forall>j. \<exists>p. pairs e2 j = (if j \<in> set (i # is) then pairs e j @ [p] else pairs e j)"
  proof
    fix j
    show "\<exists>p. pairs e2 j = (if j \<in> set (i # is) then pairs e j @ [p] else pairs e j)"
      using spec [OF 2(5), of j] 1(4) Cons.prems(3) by (auto split: if_splits)
  qed
  have len: "length dns2 = length dns" using 2(4) by simp
  have "run_subs cfg gp t domains curve fin env (i # is) (e, dns, out) = Ret ((e2, dns2, out2), v # vs)"
    using i 1(1) 2(1) by simp
  moreover have "list_all2 (\<lambda>i v. v \<in> {-1, int i} \<and> (rate_pos e = length curve - 1 \<longrightarrow> v = int i)) (i # is) (v # vs)"
    using 1(5,6) 2(6) e1 by simp
  ultimately show ?case using same_test_trans [OF 1(2) 2(2)] 2(3) pr len by blast
qed auto

text \<open>The loop on \<open>ret_chan\<close> ends with the last number, whatever their order.\<close>

lemma collect_all:
  assumes "ms \<noteq> []" and "c + int (length ms) = n - int (length pool)"
    and "distinct (filter ((\<noteq>) (-1)) ms)" and "set (filter ((\<noteq>) (-1)) ms) \<inter> set pool = {}"
  shows "collect n ms c pool = Some (pool @ filter ((\<noteq>) (-1)) ms)"
  using assms
proof (induction ms arbitrary: c pool)
  case (Cons m ms)
  have z: "int (length ms) = 0 \<longleftrightarrow> ms = []" by simp
  have l: "c + (1 + int (length ms)) = n - int (length pool)" using Cons.prems(2) by simp
  show ?case
  proof (cases "m = -1")
    case True
    have "c + 1 = n - int (length pool) \<longleftrightarrow> ms = []" unfolding z [symmetric] using l by linarith
    with True Cons show ?thesis by (cases "ms = []") (auto simp: Let_def)
  next
    case False
    then have "m \<notin> set pool" using Cons.prems(4) by auto
    moreover have "set (filter ((\<noteq>) (-1)) ms) \<inter> set (pool @ [m]) = {}" using Cons.prems False by auto
    moreover have "c = n - int (length (pool @ [m])) \<longleftrightarrow> ms = []"
      unfolding z [symmetric] using l by (simp only: length_append list.size) linarith
    ultimately show ?thesis
      using Cons False by (cases "ms = []") (auto simp: Let_def intarr_contains_def)
  qed
qed simp

definition opt_add :: "rate_curve_pair option \<Rightarrow> rate_curve_pair \<Rightarrow> rate_curve_pair" where
  "opt_add x c = (case x of None \<Rightarrow> c | Some p \<Rightarrow> add_pair c p)"

definition pair_at :: "nat \<Rightarrow> rate_data \<Rightarrow> rate_curve_pair option" where
  "pair_at k d = (if length (rate_curve_pairs d) \<le> k then None else Some (rate_curve_pairs d ! k))"

lemma round_pair_map: "round_pair k ds = fold opt_add (map (pair_at k) ds)
    \<lparr>target_tx_rate = -1, rp_duration = -1, tx_rate = 0, rx_rate = 0, rp_loss = 0\<rparr>"
proof -
  have "(\<lambda>d c. if length (rate_curve_pairs d) \<le> k then c else add_pair c (rate_curve_pairs d ! k)) =
      (\<lambda>d. opt_add (pair_at k d))"
    by (intro ext) (simp add: opt_add_def pair_at_def)
  then show ?thesis by (simp add: round_pair_def fold_map comp_def)
qed

lemma round_pair_cong:
  assumes "length ds = length ds'" and "\<And>i. i < length ds \<Longrightarrow> pair_at k (ds' ! i) = pair_at k (ds ! i)"
  shows "round_pair k ds' = round_pair k ds"
proof -
  have "map (pair_at k) ds' = map (pair_at k) ds" using assms by (intro nth_equalityI) simp_all
  then show ?thesis by (simp only: round_pair_map)
qed

text \<open>Between two rounds: \<open>r\<close> rounds are done, and \<open>pool\<close> are the subroutines that have stopped.\<close>

definition test_inv :: "Cfg_db \<Rightarrow> nat \<Rightarrow> nat \<Rightarrow> int list \<Rightarrow> resolver_entry \<Rightarrow> u16 list \<Rightarrow> bool" where
  "test_inv cfg n r pool e dns \<longleftrightarrow> fwds_ok cfg e \<and> length (re_rate_data e) = n \<and> length dns = n \<and>
     distinct pool \<and> set pool \<subseteq> int ` {0..<n} \<and>
     (\<forall>i<n. length (pairs e i) \<le> r \<and> (int i \<notin> set pool \<longrightarrow> length (pairs e i) = r)) \<and>
     length (acc_rate_data e) = r \<and> (\<forall>k<r. acc_rate_data e ! k = round_pair k (re_rate_data e)) \<and>
     (\<forall>p \<in> set (acc_rate_data e). rx_rate p \<le> rx_rate (acc_max_rate e))"

lemma close_round_simps [simp]:
  "re_rate_data (close_round e) = re_rate_data e" "tfwd_ips (close_round e) = tfwd_ips e"
  "tfwd_pool_pos (close_round e) = tfwd_pool_pos e" "rate_pos (close_round e) = rate_pos e"
  "acc_rate_data (close_round e) = acc_rate_data e @ [round_pair (rate_pos e) (re_rate_data e)]"
  by (simp_all add: close_round_def Let_def)

lemma acc_max_close_round:
  "rx_rate (acc_max_rate (close_round e)) = max (rx_rate (acc_max_rate e)) (rx_rate (round_pair (rate_pos e) (re_rate_data e)))"
  by (simp add: close_round_def Let_def max_def)

lemma verdicts_distinct:
  assumes "list_all2 (\<lambda>i v. v \<in> {-1, int i} \<and> P v i) is vs" and "distinct is"
  shows "distinct (filter ((\<noteq>) (-1)) vs)" and "set (filter ((\<noteq>) (-1)) vs) \<subseteq> int ` set is"
  using assms
proof (induction rule: list_all2_induct)
  case (Cons i "is" v vs)
  { case 1 with Cons show ?case by auto }
  { case 2 with Cons show ?case by auto }
qed auto

definition active_subs :: "nat \<Rightarrow> int list \<Rightarrow> nat list" where
  "active_subs n pool = filter (\<lambda>i. \<not> intarr_contains pool (int i)) [0..<n]"

lemma active_subs_simps [simp]:
  "distinct (active_subs n pool)" "i \<in> set (active_subs n pool) \<longleftrightarrow> i < n \<and> int i \<notin> set pool"
  by (auto simp: active_subs_def intarr_contains_def)

lemma length_active_subs:
  assumes "distinct pool" and "set pool \<subseteq> int ` {0..<n}"
  shows "length (active_subs n pool) = n - length pool"
proof -
  have "card (int ` {0..<n} - set pool) = n - length pool"
    using assms by (simp add: card_Diff_subset distinct_card card_image)
  moreover have "int ` set (active_subs n pool) = int ` {0..<n} - set pool" by auto
  moreover have "card (int ` set (active_subs n pool)) = length (active_subs n pool)"
    using card_image [of int "set (active_subs n pool)"] distinct_card [of "active_subs n pool"] by simp
  ultimately show ?thesis by simp
qed

text \<open>The collector adds the subroutines that stop to the pool, in the order of their numbers on the channel.\<close>

lemma collect_round:
  assumes pool: "distinct pool" "set pool \<subseteq> int ` {0..<n}" "length pool < n"
    and vs: "list_all2 (\<lambda>i v. v \<in> {-1, int i} \<and> P i v) (active_subs n pool) vs" and ms: "mset ms = mset vs"
  obtains st where "collect (int n) ms 0 pool = Some (pool @ st)" "distinct (pool @ st)"
    "set (pool @ st) \<subseteq> int ` {0..<n}" "(\<forall>v \<in> set vs. v \<noteq> -1) \<longrightarrow> length (pool @ st) = n"
proof
  let ?st = "filter ((\<noteq>) (-1)) ms"
  have fmset: "mset ?st = mset (filter ((\<noteq>) (-1)) vs)" by (simp add: ms mset_filter)
  have d: "distinct ?st" using verdicts_distinct(1) [OF vs] fmset mset_eq_imp_distinct_iff by fastforce
  have sub: "set ?st \<subseteq> int ` set (active_subs n pool)"
    using verdicts_distinct(2) [OF vs] fmset mset_eq_setD by fastforce
  then have disj: "set ?st \<inter> set pool = {}" by auto
  have lm: "length ms = n - length pool"
    using mset_eq_length [OF ms] list_all2_lengthD [OF vs] length_active_subs [OF pool(1,2)] by simp
  show "collect (int n) ms 0 pool = Some (pool @ ?st)"
  proof (rule collect_all)
    show "ms \<noteq> []" using lm pool(3) by auto
    show "0 + int (length ms) = int n - int (length pool)" using lm pool(3) by simp
  qed (use d disj in simp_all)
  show "distinct (pool @ ?st)" using pool(1) d disj by auto
  show "set (pool @ ?st) \<subseteq> int ` {0..<n}" using pool(2) sub by auto
  show "(\<forall>v \<in> set vs. v \<noteq> -1) \<longrightarrow> length (pool @ ?st) = n"
  proof
    assume "\<forall>v \<in> set vs. v \<noteq> -1"
    then have "\<forall>v \<in> set ms. v \<noteq> -1" using mset_eq_setD [OF ms] by simp
    then have "?st = ms" by (intro filter_True) auto
    then show "length (pool @ ?st) = n" using lm pool(3) by simp
  qed
qed

text \<open>The pairs of earlier rounds stay, so the sums over them do.\<close>

lemma round_pair_grown:
  assumes "same_test e e1" and "\<forall>j. \<exists>p. pairs e1 j = (if j \<in> A then pairs e j @ [p] else pairs e j)"
    and "\<forall>i < length (re_rate_data e). i \<in> A \<longrightarrow> k < length (pairs e i)"
  shows "round_pair k (re_rate_data e1) = round_pair k (re_rate_data e)"
proof (rule round_pair_cong)
  fix i assume i: "i < length (re_rate_data e)"
  then show "pair_at k (re_rate_data e1 ! i) = pair_at k (re_rate_data e ! i)"
    using spec [OF assms(2), of i] assms(3) assms(1)
    by (auto simp: same_test_def pair_at_def pairs_def nth_append split: if_splits)
qed (use assms(1) in \<open>simp add: same_test_def\<close>)

lemma rate_round_inv:
  assumes ports: "Port_min cfg \<noteq> Port_max cfg" and m: "mode_ok cfg domains"
    and inv: "test_inv cfg n r pool e dns" and pool: "length pool < n" and pos: "rate_pos e = r" "r < length curve"
    and subs: "Rate_concurrent_pool cfg \<or> n = nat (Rate_subroutines cfg)"
    and ord: "\<And>vs. mset (en_order env vs) = mset vs"
  shows "\<exists>e' dns' out' pool'. rate_round cfg gp t domains curve n env pool (e, dns, out) =
      Some (Ret ((e', dns', out'), pool')) \<and> test_inv cfg n (Suc r) pool' e' dns' \<and> rate_pos e' = r \<and>
      (Suc r = length curve \<longrightarrow> length pool' = n)"
proof -
  let ?act = "active_subs n pool"
  note I = inv [unfolded test_inv_def]
  have fin: "Rate_concurrent_pool cfg \<or> int (length pool) < Rate_subroutines cfg" using subs pool by linarith
  obtain e1 dns1 out1 vs where run: "run_subs cfg gp t domains curve (int (length pool)) (en_sub env) ?act (e, dns, out) =
      Ret ((e1, dns1, out1), vs)" and e1: "same_test e e1" "fwds_ok cfg e1" "length dns1 = length dns"
    "\<forall>j. \<exists>p. pairs e1 j = (if j \<in> set ?act then pairs e j @ [p] else pairs e j)"
    and vs: "list_all2 (\<lambda>i v. v \<in> {-1, int i} \<and> (rate_pos e = length curve - 1 \<longrightarrow> v = int i)) ?act vs"
    using run_subs_Ret [OF ports m fin, of e curve ?act dns gp t "en_sub env" out] I pos by auto
  obtain st where st: "collect (int n) (en_order env vs) 0 pool = Some (pool @ st)" "distinct (pool @ st)"
    "set (pool @ st) \<subseteq> int ` {0..<n}" "(\<forall>v \<in> set vs. v \<noteq> -1) \<longrightarrow> length (pool @ st) = n"
    using I by (elim conjE) (rule collect_round [OF _ _ pool vs ord])
  have rr: "rate_round cfg gp t domains curve n env pool (e, dns, out) = Some (Ret ((close_round e1, dns1, out1), pool @ st))"
    using run st(1) by (simp add: rate_round_def active_subs_def [symmetric])
  have e1r: "rate_pos e1 = r" "length (re_rate_data e1) = n" "acc_rate_data e1 = acc_rate_data e" "acc_max_rate e1 = acc_max_rate e"
    using e1(1) I pos by (simp_all add: same_test_def)
  have len: "length (pairs e1 i) \<le> Suc r \<and> (int i \<notin> set pool \<longrightarrow> length (pairs e1 i) = Suc r)" if "i < n" for i
    using spec [OF e1(4), of i] I that by (auto split: if_splits)
  have "acc_rate_data (close_round e1) ! k = round_pair k (re_rate_data e1)" if "k < Suc r" for k
    using that I e1r round_pair_grown [OF e1(1,4), of k] by (cases "k = r") (auto simp: nth_append)
  with I e1 e1r st len have "test_inv cfg n (Suc r) (pool @ st) (close_round e1) dns1"
    unfolding test_inv_def by (auto simp: acc_max_close_round max.coboundedI1 fwds_ok_def pairs_def)
  moreover have "length (pool @ st) = n" if "Suc r = length curve"
  proof -
    have "list_all2 (\<lambda>i v. v = int i) ?act vs" using vs that pos(1) by (auto elim: list_all2_mono)
    then have "\<forall>v \<in> set vs. v \<noteq> -1" by (induction rule: list_all2_induct) auto
    then show ?thesis using st(4) by blast
  qed
  ultimately show ?thesis using rr e1r by auto
qed

lemma rate_loop_inv:
  assumes ports: "Port_min cfg \<noteq> Port_max cfg" and m: "mode_ok cfg domains"
    and subs: "Rate_concurrent_pool cfg \<or> n = nat (Rate_subroutines cfg)"
    and ord: "\<And>r vs. mset (en_order (envs r) vs) = mset vs"
    and "test_inv cfg n r pool e dns" and "length pool < n" and "rate_pos e = r"
    and "length curve = r + fuel" and "0 < fuel"
  shows "\<exists>e' dns' out' pool' r'. rate_loop cfg gp t domains curve n fuel envs r pool (e, dns, out) =
      Some (Ret (e', dns', out')) \<and> test_inv cfg n r' pool' e' dns' \<and> r < r' \<and> r' \<le> length curve"
  using assms(5-)
proof (induction fuel arbitrary: r pool e dns out)
  case (Suc fuel)
  have rl: "r < length curve" using Suc.prems(4) by simp
  obtain e1 dns1 out1 pool1 where 1: "rate_round cfg gp t domains curve n (envs r) pool (e, dns, out) =
      Some (Ret ((e1, dns1, out1), pool1))" "test_inv cfg n (Suc r) pool1 e1 dns1" "rate_pos e1 = r"
      "Suc r = length curve \<longrightarrow> length pool1 = n"
    using rate_round_inv [OF ports m Suc.prems(1-3) rl subs ord] by blast
  show ?case
  proof (cases "length pool1 = n")
    case True
    then have "rate_loop cfg gp t domains curve n (Suc fuel) envs r pool (e, dns, out) = Some (Ret (e1, dns1, out1))"
      by (simp add: 1(1))
    with 1(2) rl show ?thesis by (meson Suc_leI lessI)
  next
    case False
    with 1(4) Suc.prems(4) have r: "Suc r < length curve" and fuel: "0 < fuel" by (cases fuel; simp)+
    have "distinct pool1" "set pool1 \<subseteq> int ` {0..<n}" using 1(2) by (simp_all add: test_inv_def)
    then have "length pool1 \<le> n"
      using card_mono [of "int ` {0..<n}" "set pool1"] by (simp add: distinct_card card_image)
    with False have lt: "length pool1 < n" by simp
    obtain e2 where e2: "next_rate curve e1 = Ret e2" "rate_pos e2 = Suc r"
      "re_rate_data e2 = map (\<lambda>d. d\<lparr>limiter_rate := curve ! Suc r\<rparr>) (re_rate_data e1)"
      "tfwd_ips e2 = tfwd_ips e1" "tfwd_pool_pos e2 = tfwd_pool_pos e1" "acc_rate_data e2 = acc_rate_data e1"
      "acc_max_rate e2 = acc_max_rate e1"
      using r 1(3) by (simp add: next_rate_def)
    have rp: "round_pair k (re_rate_data e2) = round_pair k (re_rate_data e1)" for k
      by (rule round_pair_cong) (simp_all add: e2(3) pair_at_def)
    have l: "length (re_rate_data e1) = n" "length (re_rate_data e2) = n"
      using 1(2) by (simp_all add: test_inv_def e2(3))
    have pr: "pairs e2 i = pairs e1 i" if "i < n" for i
      using that l by (simp add: pairs_def e2(3))
    have "fwds_ok cfg e1" using 1(2) by (simp add: test_inv_def)
    then have fo: "fwds_ok cfg e2" using l e2(4,5) by (auto simp: fwds_ok_def split: if_splits)
    have inv: "test_inv cfg n (Suc r) pool1 e2 dns1"
      using 1(2) e2(4-) rp l pr fo by (simp add: test_inv_def)
    have "length curve = Suc r + fuel" using Suc.prems(4) by simp
    from Suc.IH [OF inv lt e2(2) this fuel] obtain e' dns' out' pool' r' where
      2: "rate_loop cfg gp t domains curve n fuel envs (Suc r) pool1 (e2, dns1, out1) = Some (Ret (e', dns', out'))"
      "test_inv cfg n r' pool' e' dns'" "Suc r < r'" "r' \<le> length curve" by blast
    have "rate_loop cfg gp t domains curve n (Suc fuel) envs r pool (e, dns, out) = Some (Ret (e', dns', out'))"
      by (simp add: 1(1) False e2(1) 2(1))
    with 2 show ?thesis by (meson Suc_lessD)
  qed
qed simp

text \<open>The pairs that the subroutines entered for round \<open>k\<close>, in their order.\<close>

definition pairs_of_round :: "nat \<Rightarrow> rate_data list \<Rightarrow> rate_curve_pair list" where
  "pairs_of_round k ds = concat (map (\<lambda>d. take 1 (drop k (rate_curve_pairs d))) ds)"

lemma round_pair_fold:
  "round_pair k ds = fold (\<lambda>p c. add_pair c p) (pairs_of_round k ds)
    \<lparr>target_tx_rate = -1, rp_duration = -1, tx_rate = 0, rx_rate = 0, rp_loss = 0\<rparr>"
proof -
  have t: "take (Suc 0) (drop k xs) = (if length xs \<le> k then [] else [xs ! k])" for xs :: "rate_curve_pair list"
    by (simp add: not_le Cons_nth_drop_Suc [symmetric])
  have "fold (\<lambda>d c. if length (rate_curve_pairs d) \<le> k then c else add_pair c (rate_curve_pairs d ! k)) ds c =
      fold (\<lambda>p c. add_pair c p) (pairs_of_round k ds) c" for c
    by (induction ds arbitrary: c) (simp_all add: pairs_of_round_def t)
  then show ?thesis by (simp add: round_pair_def)
qed

lemma add_pairs_sums:
  "rx_rate (fold (\<lambda>p c. add_pair c p) ps c) = rx_rate c + sum_list (map rx_rate ps)"
  "tx_rate (fold (\<lambda>p c. add_pair c p) ps c) = tx_rate c + sum_list (map tx_rate ps)"
  "rp_loss (fold (\<lambda>p c. add_pair c p) ps c) = rp_loss c + sum_list (map rp_loss ps)"
  by (induction ps arbitrary: c) (simp_all add: add_pair_def Let_def)

lemma add_pairs_target:
  "target_tx_rate c \<noteq> -1 \<Longrightarrow> target_tx_rate (fold (\<lambda>p c. add_pair c p) ps c) = target_tx_rate c \<and>
    rp_duration (fold (\<lambda>p c. add_pair c p) ps c) = rp_duration c"
  by (induction ps arbitrary: c) (simp_all add: add_pair_def Let_def)

lemma round_pair_sums:
  "rx_rate (round_pair k ds) = (\<Sum>p \<leftarrow> pairs_of_round k ds. rx_rate p)"
  "tx_rate (round_pair k ds) = (\<Sum>p \<leftarrow> pairs_of_round k ds. tx_rate p)"
  "rp_loss (round_pair k ds) = (\<Sum>p \<leftarrow> pairs_of_round k ds. rp_loss p)"
  by (simp_all add: round_pair_fold add_pairs_sums)

lemma round_pair_target:
  assumes "pairs_of_round k ds = p # ps" and "target_tx_rate p \<noteq> -1"
  shows "target_tx_rate (round_pair k ds) = target_tx_rate p \<and> rp_duration (round_pair k ds) = rp_duration p"
  unfolding round_pair_fold assms(1) fold_simps(2)
  using add_pairs_target [of "add_pair \<lparr>target_tx_rate = -1, rp_duration = -1, tx_rate = 0, rx_rate = 0, rp_loss = 0\<rparr> p" ps]
    assms(2) by (simp add: add_pair_def)

text \<open>
  C8. A test ends after at most as many rounds as the rate curve has values, whatever rates are
  measured and in whatever order the subroutines report; no index is out of range and no round
  waits forever. In the accumulated entry of a round the receiving rate, the sending rate and the loss
  are the sums of those that the subroutines entered for that round, the target rate and the
  duration are those of the first of them, and the accumulated maximum is at least the receiving
  rate of every round.
\<close>

theorem rate_test_ends:
  assumes "Port_min cfg \<noteq> Port_max cfg" and "mode_ok cfg domains" and "curve \<noteq> []"
    and "rate_pos e = 0" and "acc_rate_data e = []" and "tfwd_ips e \<noteq> []" and "tfwd_pool_pos e = 0"
    and "re_rate_data e = replicate (sub_count cfg e) (new_rate_data limit (-1))" and "0 < sub_count cfg e"
    and ord: "\<And>r vs. mset (en_order (envs r) vs) = mset vs"
  shows "\<exists>e' dns' out'. rate_test_target cfg gp t domains curve (length curve) envs e = Some (Ret (e', dns', out')) \<and>
    1 \<le> length (acc_rate_data e') \<and> length (acc_rate_data e') \<le> length curve \<and>
    (\<forall>k < length (acc_rate_data e'). let ps = pairs_of_round k (re_rate_data e') in
       rx_rate (acc_rate_data e' ! k) = (\<Sum>p \<leftarrow> ps. rx_rate p) \<and>
       tx_rate (acc_rate_data e' ! k) = (\<Sum>p \<leftarrow> ps. tx_rate p) \<and>
       rp_loss (acc_rate_data e' ! k) = (\<Sum>p \<leftarrow> ps. rp_loss p) \<and>
       (\<forall>p ps'. ps = p # ps' \<and> target_tx_rate p \<noteq> -1 \<longrightarrow>
          target_tx_rate (acc_rate_data e' ! k) = target_tx_rate p \<and>
          rp_duration (acc_rate_data e' ! k) = rp_duration p)) \<and>
    (\<forall>p \<in> set (acc_rate_data e'). rx_rate p \<le> rx_rate (acc_max_rate e'))"
proof -
  let ?n = "sub_count cfg e"
  have inv: "test_inv cfg ?n 0 [] e (replicate ?n 0)"
    using assms(4-8) by (auto simp: test_inv_def fwds_ok_def sub_count_def pairs_def new_rate_data_def)
  have subs: "Rate_concurrent_pool cfg \<or> ?n = nat (Rate_subroutines cfg)" by (simp add: sub_count_def)
  obtain e' dns' out' pool' r' where 1: "rate_loop cfg gp t domains curve ?n (length curve) envs 0 []
      (e, replicate ?n 0, []) = Some (Ret (e', dns', out'))" "test_inv cfg ?n r' pool' e' dns'" "0 < r'" "r' \<le> length curve"
    using rate_loop_inv [where envs = envs, OF assms(1,2) subs ord inv _ assms(4), of curve "length curve" gp t "[]"]
      assms(3,9) by auto
  then have "1 \<le> length (acc_rate_data e') \<and> length (acc_rate_data e') \<le> length curve"
    "\<forall>k < length (acc_rate_data e'). acc_rate_data e' ! k = round_pair k (re_rate_data e')"
    "\<forall>p \<in> set (acc_rate_data e'). rx_rate p \<le> rx_rate (acc_max_rate e')"
    by (auto simp: test_inv_def)
  with 1(1) show ?thesis using round_pair_sums round_pair_target unfolding rate_test_target_def Let_def by fastforce
qed

definition ex_rate_cfg :: Cfg_db where
  "ex_rate_cfg = default_cfg\<lparr>Port_min := 1000, Port_max := 1010, Rate_subroutines := 2,
     Domain_mode := ''constant'', Dns_query := ''example.org''\<rparr>"

definition ex_entry :: resolver_entry where
  "ex_entry = (new_entry [192, 0, 2, 1] (-1))\<lparr>tfwd_ips := [[192, 0, 2, 1]], re_outport := 1000,
     re_rate_data := replicate 2 (new_rate_data 50 (-1))\<rparr>"

definition ex_round :: round_env where
  "ex_round = \<lparr>en_sub = (\<lambda>_. \<lparr>se_start = 0, se_inputs = [\<lparr>ri_now = 0, ri_hash = '''', ri_pick = 0, ri_rnd = 0\<rparr>],
     se_answers = [], se_now = 2150000\<rparr>), en_order = rev\<rparr>"

lemma rate_test_ends_witness:
  "\<exists>e' dns' out'. rate_test_target ex_rate_cfg ex_gp 1 [] [50, 100] 2 (\<lambda>_. ex_round) ex_entry = Some (Ret (e', dns', out')) \<and>
     1 \<le> length (acc_rate_data e') \<and> length (acc_rate_data e') \<le> 2 \<and>
     rx_rate (acc_rate_data e' ! 0) = (\<Sum>p \<leftarrow> pairs_of_round 0 (re_rate_data e'). rx_rate p)"
proof -
  have "rate_test_target ex_rate_cfg ex_gp 1 [] [50, 100] 2 (\<lambda>_. ex_round) ex_entry =
    rate_test_target ex_rate_cfg ex_gp 1 [] [50, 100] (length [50, 100 :: int]) (\<lambda>_. ex_round) ex_entry"
    by (simp add: numeral_2_eq_2)
  moreover obtain e' dns' out' where
    "rate_test_target ex_rate_cfg ex_gp 1 [] [50, 100] (length [50, 100 :: int]) (\<lambda>_. ex_round) ex_entry =
      Some (Ret (e', dns', out'))" "1 \<le> length (acc_rate_data e')" "length (acc_rate_data e') \<le> length [50, 100 :: int]"
    "\<forall>k < length (acc_rate_data e'). let ps = pairs_of_round k (re_rate_data e') in
       rx_rate (acc_rate_data e' ! k) = (\<Sum>p \<leftarrow> ps. rx_rate p) \<and>
       tx_rate (acc_rate_data e' ! k) = (\<Sum>p \<leftarrow> ps. tx_rate p) \<and>
       rp_loss (acc_rate_data e' ! k) = (\<Sum>p \<leftarrow> ps. rp_loss p) \<and>
       (\<forall>p ps'. ps = p # ps' \<and> target_tx_rate p \<noteq> -1 \<longrightarrow>
          target_tx_rate (acc_rate_data e' ! k) = target_tx_rate p \<and>
          rp_duration (acc_rate_data e' ! k) = rp_duration p)"
    using rate_test_ends [of ex_rate_cfg "[]" "[50, 100]" ex_entry 50 "\<lambda>_. ex_round" ex_gp 1]
    by (auto simp: ex_rate_cfg_def default_cfg_def mode_ok_def ex_entry_def new_entry_def sub_count_def ex_round_def)
  ultimately show ?thesis
    by (intro exI [of _ e'] exI [of _ dns'] exI [of _ out']) (fastforce simp: Let_def)
qed

end
