(* ===== verification/RateSystem.thy ===== *)
theory RateSystem
  imports RateLimit
begin

section \<open>Senders and handler of the rate-limit tester together\<close>

text \<open>
  \<open>send_packets\<close> of every routine and the handlers of the packets share the entries and the map of
  active ports. A step is a section under the lock, a subroutine's interval, the end of a round or a packet.
\<close>

inductive rate_step :: "Cfg_db \<Rightarrow> gopacket \<Rightarrow> rate_tester \<Rightarrow> rate_tester \<Rightarrow> bool" for cfg gp where
  take_r: "key \<in> set (rt_resolver_data s) \<Longrightarrow> take_resolver cfg key s = Ret s' \<Longrightarrow> rate_step cfg gp s s'"
| release: "key \<notin> set (rt_resolver_data s) \<Longrightarrow> rate_step cfg gp s (release_resolver cfg key s)"
| sub: "key \<notin> set (rt_resolver_data s) \<Longrightarrow> rt_heap s key = Some e \<Longrightarrow>
    rate_test_target_sub cfg gp dns_type (rt_domains s) (rt_rate_curve s) fin env i (e, dnsid, out) = Ret ((e', r), v) \<Longrightarrow>
    rate_step cfg gp s (s\<lparr>rt_heap := (rt_heap s)(key \<mapsto> e')\<rparr>)"
| round_end: "key \<notin> set (rt_resolver_data s) \<Longrightarrow> rt_heap s key = Some e \<Longrightarrow>
    next_rate (rt_rate_curve s) (close_round e) = Ret e' \<Longrightarrow>
    rate_step cfg gp s (s\<lparr>rt_heap := (rt_heap s)(key \<mapsto> e')\<rparr>)"
| test_end: "key \<notin> set (rt_resolver_data s) \<Longrightarrow> rt_heap s key = Some e \<Longrightarrow>
    rate_step cfg gp s (s\<lparr>rt_heap := (rt_heap s)(key \<mapsto> close_round e)\<rparr>)"
| packet: "rate_Handle_pkt gp rec_time udp pld s = Ret s' \<Longrightarrow> rate_step cfg gp s s'"

definition rate_start :: "Cfg_db \<Rightarrow> (string \<rightharpoonup> resolver_entry) \<Rightarrow> string list \<Rightarrow> int list \<Rightarrow> string list \<Rightarrow> rate_tester" where
  "rate_start cfg m keys curve domains = \<lparr>rt_heap = m, rt_resolver_data = keys, rt_active = Map.empty,
     rt_finished = [], rt_rate_curve = curve, rt_current_port = ucast (Port_min cfg), rt_counter = 0,
     rt_domains = domains\<rparr>"

inductive rate_run :: "Cfg_db \<Rightarrow> gopacket \<Rightarrow> rate_tester \<Rightarrow> bool" for cfg gp where
  start: "rate_run cfg gp (rate_start cfg m keys curve domains)"
| step: "rate_run cfg gp s \<Longrightarrow> rate_step cfg gp s s' \<Longrightarrow> rate_run cfg gp s'"

subsection \<open>An active port names a subroutine of its entry\<close>

definition rate_ok :: "rate_tester \<Rightarrow> bool" where
  "rate_ok s \<longleftrightarrow> (\<forall>p key. rt_active s p = Some key \<longrightarrow> key \<notin> set (rt_resolver_data s) \<and>
     (\<exists>e. rt_heap s key = Some e \<and> unat (p - re_outport e) < length (re_rate_data e)))"

definition same_slots :: "resolver_entry \<Rightarrow> resolver_entry \<Rightarrow> bool" where
  "same_slots e e' \<longleftrightarrow> re_outport e' = re_outport e \<and> length (re_rate_data e') = length (re_rate_data e)"

lemma rate_ok_upd:
  assumes "rate_ok s" and "rt_heap s key = Some e" and "same_slots e e'"
  shows "rate_ok (s\<lparr>rt_heap := (rt_heap s)(key \<mapsto> e')\<rparr>)"
  using assms unfolding rate_ok_def same_slots_def by fastforce

lemma fold_fun_upd:
  "fold (\<lambda>p a. a(p := v)) ps f x = (if x \<in> set ps then v else f x)"
  by (induction ps arbitrary: f) auto

lemma active_port_slot: "p \<in> set (active_ports outport n) \<Longrightarrow> unat (p - outport) < n"
proof -
  assume "p \<in> set (active_ports outport n)"
  then obtain i where i: "i < n" "p = outport + of_nat i" by (auto simp: active_ports_def)
  have "unat (of_nat i :: u16) \<le> i" by (simp add: unat_of_nat)
  with i show ?thesis by simp
qed

lemma sub_send_slots:
  "sub_send cfg gp t domains i port x (e, dn, out) = Ret (e', dn', out') \<Longrightarrow> same_slots e e'"
  by (auto simp: sub_send_def same_slots_def upd_sub_def Let_def split: if_splits)

lemma sub_loop_slots:
  "sub_loop cfg gp t domains i port t0 ins (e, dn, out) = Ret (e', dn', out') \<Longrightarrow> same_slots e e'"
proof (induction ins arbitrary: e dn out)
  case (Cons x ins)
  show ?case
  proof (cases "ri_now x - t0 < Rate_increase_interval cfg * 1000")
    case True
    with Cons.prems obtain e1 dn1 out1 where
      1: "sub_send cfg gp t domains i port x (e, dn, out) = Ret (e1, dn1, out1)"
      "sub_loop cfg gp t domains i port t0 ins (e1, dn1, out1) = Ret (e', dn', out')" by auto
    show ?thesis using sub_send_slots [OF 1(1)] Cons.IH [OF 1(2)] by (simp add: same_slots_def)
  next
    case False
    with Cons.prems show ?thesis by (simp add: same_slots_def)
  qed
qed (simp add: same_slots_def)

lemma rate_test_target_sub_slots:
  assumes "rate_test_target_sub cfg gp t domains curve fin env i (e, dn, out) = Ret ((e', r), v)"
  shows "same_slots e e'"
  using assms
  by (auto simp: rate_test_target_sub_def Let_def same_slots_def upd_sub_def dest!: sub_loop_slots)

lemma take_resolver_ok:
  assumes ok: "rate_ok s" and key: "key \<in> set (rt_resolver_data s)" and t: "take_resolver cfg key s = Ret s'"
  shows "rate_ok s'"
proof (cases "rt_heap s key")
  case None
  with ok t show ?thesis by (simp add: take_resolver_def)
next
  case (Some e)
  let ?n = "sub_count cfg e" and ?o = "ucast (rt_current_port s) :: u16"
  obtain r where r: "index (rt_rate_curve s) 0 = Ret r" using t Some by (auto simp: take_resolver_def Let_def)
  have s': "rt_active s' p = (if p \<in> set (active_ports ?o ?n) then Some key else rt_active s p)"
    "rt_heap s' = (rt_heap s)(key \<mapsto> e\<lparr>re_outport := ?o, re_rate_data := replicate ?n (new_rate_data r (-1))\<rparr>)"
    "set (rt_resolver_data s') = set (rt_resolver_data s) - {key}" for p
    using t Some r by (auto simp: take_resolver_def Let_def fold_fun_upd)
  have "k \<noteq> key" if "rt_active s p = Some k" for p k
    using ok key that by (auto simp: rate_ok_def)
  with ok show ?thesis
    unfolding rate_ok_def s' using active_port_slot [of _ ?o ?n] by (auto split: if_splits)
qed

lemma rate_Handle_pkt_ok:
  assumes "rate_ok s" and "rate_Handle_pkt gp rec_time udp pld s = Ret s'"
  shows "rate_ok s'"
  using assms
  by (auto simp: rate_Handle_pkt_def Let_def split: option.splits if_splits
      intro!: rate_ok_upd simp: same_slots_def upd_sub_def)

lemma rate_step_ok: "rate_step cfg gp s s' \<Longrightarrow> rate_ok s \<Longrightarrow> rate_ok s'"
proof (induction rule: rate_step.induct)
  case (take_r key s s')
  then show ?case using take_resolver_ok by blast
next
  case (release key s)
  then show ?case by (auto simp: release_resolver_def rate_ok_def fold_fun_upd split: option.split if_splits)
next
  case (sub key s e dns_type fin env i dnsid out e' r v)
  then show ?case using rate_ok_upd rate_test_target_sub_slots by blast
next
  case (round_end key s e e')
  then have "same_slots e e'" by (auto simp: next_rate_def same_slots_def close_round_def Let_def)
  with round_end show ?case by (intro rate_ok_upd)
next
  case (test_end key s e)
  have "same_slots e (close_round e)" by (simp add: same_slots_def close_round_def Let_def)
  with test_end show ?case by (intro rate_ok_upd)
next
  case (packet rec_time udp pld s s')
  then show ?case using rate_Handle_pkt_ok by blast
qed

lemma rate_run_ok: "rate_run cfg gp s \<Longrightarrow> rate_ok s"
proof (induction rule: rate_run.induct)
  case (start m keys curve domains)
  then show ?case by (simp add: rate_ok_def rate_start_def)
next
  case (step s s')
  then show ?case using rate_step_ok by blast
qed

subsection \<open>The handler\<close>

text \<open>
  C11. The handler of a packet never indexes out of range: in every interleaving of the senders and of
  other handlers, also when the ports of two resolvers overlap or were not all released, the
  difference between the port of an answer and the first port of the entry found is the number of one
  of its subroutines.
\<close>

theorem rate_handler_total:
  assumes "rate_run cfg gp s"
  shows "\<exists>s'. rate_Handle_pkt gp rec_time udp pld s = Ret s'"
proof (cases udp)
  case (Some u)
  have ok: "rate_ok s" using assms by (rule rate_run_ok)
  show ?thesis
  proof (cases "rt_active s (udp_DstPort u)")
    case None
    with Some show ?thesis by (auto simp: rate_Handle_pkt_def split: option.split)
  next
    case (Some key)
    with ok obtain e where "rt_heap s key = Some e" "unat (udp_DstPort u - re_outport e) < length (re_rate_data e)"
      by (auto simp: rate_ok_def)
    with Some \<open>udp = Some u\<close> show ?thesis by (auto simp: rate_Handle_pkt_def Let_def split: option.split)
  qed
qed (simp add: rate_Handle_pkt_def)

lemma rate_handler_total_witness:
  "\<exists>s'. rate_Handle_pkt ex_gp 7 (Some \<lparr>udp_SrcPort = 53, udp_DstPort = 1000\<rparr>) (replicate 12 0)
     (rate_start ex_rate_cfg [''a'' \<mapsto> ex_entry] [''a''] [50] []) = Ret s'"
  by (rule rate_handler_total [OF rate_run.start])

text \<open>
  C40. Without a pool the next resolver gets the next port, although the resolver before it has
  \<open>Rate_subroutines\<close> ports in use: an answer to the second subroutine of the first resolver is
  counted for the first subroutine of the second resolver, and not for its own.
\<close>

theorem rate_ports_overlap:
  assumes cfg: "\<not> Rate_concurrent_pool cfg" "2 \<le> Rate_subroutines cfg"
    and k: "k1 \<noteq> k2" "rt_heap s k1 = Some e1" "rt_heap s k2 = Some e2"
    and port: "unat (rt_current_port s) + 1 < unat (Port_max cfg)" "Port_min cfg \<le> ucast (rt_current_port s)"
    and t: "take_resolver cfg k1 s = Ret s1" "take_resolver cfg k2 s1 = Ret s2"
    and a: "gp_decode gp pld = Some dns" "answer_counts dns"
    and u: "sub_port cfg (ucast (rt_current_port s)) 1 = Ret (uint (udp_DstPort u))"
  shows "\<exists>s3 e. rate_Handle_pkt gp rec_time (Some u) pld s2 = Ret s3 \<and> rt_heap s3 k1 = rt_heap s1 k1 \<and>
    rt_heap s3 k2 = Some e \<and> answer_data (re_rate_data e ! 0) = [\<lparr>ae_ts = rec_time, ae_size = int (length pld)\<rparr>]"
proof -
  define p where "p = unat (rt_current_port s)"
  let ?o = "ucast (rt_current_port s) :: u16" and ?n = "nat (Rate_subroutines cfg)"
  have pm: "unat (Port_max cfg) < 65536" using unsigned_less [of "Port_max cfg", where ?'a = nat] by simp
  have ui: "uint w = int (unat w)" for w :: u16 by simp
  have p: "p + 1 < unat (Port_max cfg)" using port(1) by (simp add: p_def)
  have uo: "unat ?o = p" using p pm by (simp add: p_def unsigned_ucast_eq take_bit_nat_eq_self)
  obtain r where r: "index (rt_rate_curve s) 0 = Ret r" using t(1) k by (auto simp: take_resolver_def Let_def)
  have cp: "unat (rt_current_port s + 1) = p + 1" using p pm by (simp add: p_def unat_word_ariths)
  have "unat (ucast (Port_max cfg) :: u32) = unat (Port_max cfg)" by (simp only: go_words)
  then have adv: "advance_port cfg m (rt_current_port s) = rt_current_port s + 1" for m
    using cfg(1) p cp by (simp add: advance_port_def Let_def word_less_nat_alt)
  have n: "sub_count cfg e = ?n" for e using cfg(1) by (simp add: sub_count_def)
  have s1: "rt_heap s1 = (rt_heap s)(k1 \<mapsto> e1\<lparr>re_outport := ?o, re_rate_data := replicate ?n (new_rate_data r (-1))\<rparr>)"
    "rt_current_port s1 = rt_current_port s + 1" "rt_rate_curve s1 = rt_rate_curve s"
    using t(1) k r by (auto simp: take_resolver_def Let_def n adv)
  let ?o2 = "ucast (rt_current_port s + 1) :: u16"
  have s2: "rt_heap s2 = (rt_heap s1)(k2 \<mapsto> e2\<lparr>re_outport := ?o2, re_rate_data := replicate ?n (new_rate_data r (-1))\<rparr>)"
    "rt_active s2 q = (if q \<in> set (active_ports ?o2 ?n) then Some k2 else rt_active s1 q)" for q
    using t(2) k r by (auto simp: take_resolver_def Let_def n s1 fold_fun_upd)
  have "sub_port cfg ?o 1 = Ret (uint (active_ports ?o 2 ! 1)) \<longleftrightarrow> uint ?o + int 1 < uint (Port_max cfg)"
  proof (rule port_match)
    show "Port_min cfg \<le> ?o" by (rule port(2))
    show lt: "?o \<le> Port_max cfg" using p by (simp add: word_le_nat_alt uo)
    have "unat (Port_min cfg) \<le> p" using port(2) by (simp add: word_le_nat_alt uo)
    then show "int 1 < uint (Port_max cfg) - uint (Port_min cfg)" "Port_min cfg < Port_max cfg"
      using p unfolding ui word_less_nat_alt by linarith+
  qed simp
  moreover have "uint ?o + int 1 < uint (Port_max cfg)" unfolding ui uo using p by linarith
  ultimately have "udp_DstPort u = ?o + 1" using u by (simp add: active_ports_def word_uint_eq_iff [symmetric])
  also have "\<dots> = ?o2" by (simp add: ucast16_add)
  finally have dst: "udp_DstPort u = ?o2" .
  have "?o2 \<in> set (active_ports ?o2 ?n)"
    unfolding active_ports_def set_map by (rule image_eqI [of _ _ 0]) (use cfg(2) in simp_all)
  then have "rt_active s2 (udp_DstPort u) = Some k2" by (simp add: s2 dst)
  then show ?thesis using a k(1) cfg(2)
    by (simp add: rate_Handle_pkt_def Let_def s2(1) dst upd_sub_def record_answer_def new_rate_data_def s1(1))
qed

definition ex_answer :: dns_msg where
  "ex_answer = (ex_msg 5)\<lparr>dns_Answers := [\<lparr>rr_Type = DNSTypeA, rr_Class = DNSClassIN, rr_TTL = 60,
     rr_IP = [203, 0, 113, 1], rr_Data = None\<rparr>]\<rparr>"

definition ex_rate_gp :: gopacket where
  "ex_rate_gp = ex_gp\<lparr>gp_decode := (\<lambda>b. if length b < 12 then None else Some ex_answer)\<rparr>"

lemma rate_ports_overlap_witness:
  "\<exists>s1 s2 s3 e. take_resolver ex_rate_cfg ''a'' (rate_start ex_rate_cfg [''a'' \<mapsto> ex_entry, ''b'' \<mapsto> ex_entry] [''a'', ''b''] [50] []) = Ret s1 \<and>
     take_resolver ex_rate_cfg ''b'' s1 = Ret s2 \<and>
     rate_Handle_pkt ex_rate_gp 7 (Some \<lparr>udp_SrcPort = 53, udp_DstPort = 1001\<rparr>) (replicate 12 0) s2 = Ret s3 \<and>
     rt_heap s3 ''a'' = rt_heap s1 ''a'' \<and> rt_heap s3 ''b'' = Some e \<and>
     answer_data (re_rate_data e ! 0) = [\<lparr>ae_ts = 7, ae_size = int (length (replicate 12 (0 :: u8)))\<rparr>]"
proof -
  let ?s = "rate_start ex_rate_cfg [''a'' \<mapsto> ex_entry, ''b'' \<mapsto> ex_entry] [''a'', ''b''] [50] []"
  obtain s1 where 1: "take_resolver ex_rate_cfg ''a'' ?s = Ret s1" "rt_heap s1 ''b'' = Some ex_entry" "rt_rate_curve s1 = [50]"
    by (simp add: take_resolver_def rate_start_def Let_def)
  obtain s2 where 2: "take_resolver ex_rate_cfg ''b'' s1 = Ret s2"
    by (simp add: take_resolver_def Let_def 1)
  have "\<exists>s3 e. rate_Handle_pkt ex_rate_gp 7 (Some \<lparr>udp_SrcPort = 53, udp_DstPort = 1001\<rparr>) (replicate 12 0) s2 = Ret s3 \<and>
      rt_heap s3 ''a'' = rt_heap s1 ''a'' \<and> rt_heap s3 ''b'' = Some e \<and>
      answer_data (re_rate_data e ! 0) = [\<lparr>ae_ts = 7, ae_size = int (length (replicate 12 (0 :: u8)))\<rparr>]"
  proof (rule rate_ports_overlap [OF _ _ _ _ _ _ _ 1(1) 2, where dns = ex_answer])
    show "rt_heap ?s ''a'' = Some ex_entry" "rt_heap ?s ''b'' = Some ex_entry" by (simp_all add: rate_start_def)
    show "gp_decode ex_rate_gp (replicate 12 0) = Some ex_answer" by (simp add: ex_rate_gp_def)
    show "answer_counts ex_answer" by (simp add: answer_counts_def ex_answer_def ex_msg_def)
    show "sub_port ex_rate_cfg (ucast (rt_current_port ?s)) 1 = Ret (uint (udp_DstPort \<lparr>udp_SrcPort = 53, udp_DstPort = 1001\<rparr>))"
      by (simp add: rate_start_def sub_port_def go_mod_def ex_rate_cfg_def)
  qed (simp_all add: rate_start_def ex_rate_cfg_def default_cfg_def)
  with 1(1) 2 show ?thesis by blast
qed

end
