(* ===== verification/QminFiles.thy ===== *)
theory QminFiles
  imports QminScanner
begin

section \<open>The files of a QMIN scan (qmin/scanner/scanner.go, parquet_writer.go, temp_store.go)\<close>

text \<open>
  From the arguments of the command to the result files: the inputs are read in batches, each batch is
  scanned into a temporary store, and the store is copied to \<open>result.parquet\<close> in the directory of its
  input. A store is the list of its rows; the encodings gob and Parquet are library code. The file
  system is a record of what \<open>os.Stat\<close>, \<open>os.ReadDir\<close> and the readers return; that a directory can be
  created and \<open>metadata.json\<close> written is taken for granted.
\<close>

subsection \<open>The temporary store and its copy\<close>

type_synonym temp_store = "ParquetQueryResult list"

definition NewTempStore :: temp_store where
  "NewTempStore = []"

definition WriteSingle :: "ParquetQueryResult \<Rightarrow> temp_store \<Rightarrow> temp_store" where
  "WriteSingle row t = t @ [row]"

definition WriteBatch :: "ParquetQueryResult list \<Rightarrow> temp_store \<Rightarrow> temp_store" where
  "WriteBatch rows t = fold WriteSingle rows t"

definition WriteOutputParquet :: "temp_store \<Rightarrow> ParquetQueryResult list" where
  "WriteOutputParquet t = fold (\<lambda>b out. out @ b) (WriteOutputParquet_batches t) []"

lemma WriteBatch_append: "WriteBatch rows t = t @ rows"
  by (induction rows arbitrary: t) (simp_all add: WriteBatch_def WriteSingle_def)

lemma WriteOutputParquet_id: "WriteOutputParquet t = t"
proof -
  have "fold (\<lambda>b out. out @ b) bs acc = acc @ concat bs" for bs and acc :: temp_store
    by (induction bs arbitrary: acc) auto
  then show ?thesis
    by (simp add: WriteOutputParquet_def WriteOutputParquet_batches_def concat_batches)
qed

subsection \<open>The input files\<close>

datatype path_stat = Absent | StatError | File string | Dir string

text \<open>
  A text input is its lines and whether the scanner came to the end; a Parquet input is what the reader
  returns for a buffer of the batch size.
\<close>

record qmin_fs =
  fs_Stat :: "string \<Rightarrow> path_stat"
  fs_ReadDir :: "string \<Rightarrow> (string \<times> bool) list option"
  fs_Lines :: "string \<Rightarrow> (string list \<times> bool) option"
  fs_Parquet :: "string \<Rightarrow> int \<Rightarrow> (InputFileFormat list \<times> read_end) list option"

text \<open>The network, the random numbers and the order of arrival of one call of \<open>scanResolvers\<close>.\<close>

record call_env =
  ce_net :: "nat \<Rightarrow> nat \<Rightarrow> nat \<Rightarrow> net_env"
  ce_rnd :: "nat \<Rightarrow> nat \<Rightarrow> nat \<Rightarrow> int"
  ce_order :: "nat \<Rightarrow> QueryResult list \<Rightarrow> QueryResult list"

definition millis :: "int \<Rightarrow> int" where
  "millis n = int64 (n * 1000000)"

definition scan_batch ::
  "qmin_cfg \<Rightarrow> call_env \<Rightarrow> string \<Rightarrow> InputFileFormat list \<Rightarrow> temp_store \<Rightarrow> temp_store outcome" where
  "scan_batch cfg w fileName batch t =
     scanResolvers cfg (ce_net w) (ce_rnd w) (ce_order w) batch t (qc_LabelDepth cfg) (qc_Rounds cfg)
       (millis (qc_Timeout cfg)) (millis (qc_RetryTimeout cfg)) fileName"

fun scan_batches ::
  "qmin_cfg \<Rightarrow> (nat \<Rightarrow> call_env) \<Rightarrow> string \<Rightarrow> nat \<Rightarrow> InputFileFormat list list \<Rightarrow> temp_store \<Rightarrow> temp_store outcome" where
  "scan_batches cfg w fileName k [] t = Ret t"
| "scan_batches cfg w fileName k (b # bs) t =
     bindO (scan_batch cfg (w k) fileName b t) (scan_batches cfg w fileName (k + 1) bs)"

text \<open>The two readers: the store, or the error \<open>scanFile\<close> ends the program with.\<close>

definition readInputTXTAndScan ::
  "qmin_cfg \<Rightarrow> qmin_fs \<Rightarrow> (nat \<Rightarrow> call_env) \<Rightarrow> string \<Rightarrow> string \<Rightarrow> (string + temp_store) outcome" where
  "readInputTXTAndScan cfg fs w path fileName =
     (case fs_Lines fs path of
        None \<Rightarrow> Ret (Inl ''Could not Open input file'')
      | Some (lines, ended) \<Rightarrow>
          bindO (readInputTXT_batches (qc_BatchSize cfg) lines) (\<lambda>bs.
            if ended then bindO (scan_batches cfg w fileName 0 bs NewTempStore) (\<lambda>t. Ret (Inr t))
            else bindO (scan_batches cfg w fileName 0
                          (filter (\<lambda>b. int (length b) = qc_BatchSize cfg) bs) NewTempStore)
                   (\<lambda>t. Ret (Inl ''error reading file''))))"

definition readInputAndScan ::
  "qmin_cfg \<Rightarrow> qmin_fs \<Rightarrow> (nat \<Rightarrow> call_env) \<Rightarrow> string \<Rightarrow> string \<Rightarrow> (string + temp_store) outcome" where
  "readInputAndScan cfg fs w path fileName =
     (case fs_Parquet fs path (qc_BatchSize cfg) of
        None \<Rightarrow> Ret (Inl ''Could not Open input file'')
      | Some reads \<Rightarrow>
          if qc_BatchSize cfg < 0 then Panic NegativeArgument
          else case readInput_batches reads of (bs, err) \<Rightarrow>
            bindO (scan_batches cfg w fileName 0 bs NewTempStore)
              (\<lambda>t. Ret (case err of Some e \<Rightarrow> Inl (''error while reading data: '' @ e) | None \<Rightarrow> Inr t)))"

text \<open>The files below the working directory, and \<open>scanFile\<close>, which adds one or ends the program.\<close>

type_synonym out_files = "string \<rightharpoonup> ParquetQueryResult list"

definition result_path :: "string \<Rightarrow> string" where
  "result_path dir = dir @ ''/result.parquet''"

definition write_result :: "string \<Rightarrow> (string + temp_store) \<Rightarrow> out_files \<Rightarrow> out_files outcome" where
  "write_result dir r out =
     (case r of Inl e \<Rightarrow> Panic (LogFatal e)
      | Inr t \<Rightarrow> Ret (out(result_path dir \<mapsto> WriteOutputParquet t)))"

definition scanFile ::
  "qmin_cfg \<Rightarrow> qmin_fs \<Rightarrow> (nat \<Rightarrow> call_env) \<Rightarrow> string \<Rightarrow> string \<Rightarrow> out_files \<Rightarrow> out_files outcome" where
  "scanFile cfg fs w path dir out =
     (if fs_Stat fs path = Absent then Panic (LogFatal ''File not Found'')
      else case scanFile_kind path of
        Unsupported \<Rightarrow> Ret out
      | kind \<Rightarrow>
         (let name = (case fs_Stat fs path of File n \<Rightarrow> Ret n | Dir n \<Rightarrow> Ret n
                      | _ \<Rightarrow> Panic (PanicError ''nil pointer dereference'')) in
          bindO name (\<lambda>fileName.
            bindO (if kind = TextInput then readInputTXTAndScan cfg fs w path fileName
                   else readInputAndScan cfg fs w path fileName)
              (\<lambda>r. write_result dir r out))))"

subsection \<open>Start_scan\<close>

text \<open>A result directory is named after its input, up to the first dot.\<close>

definition stem :: "string \<Rightarrow> string" where
  "stem name = hd (split_on CHR ''.'' name)"

definition dir_entries :: "string \<Rightarrow> (string \<times> bool) list \<Rightarrow> (string \<times> string) list" where
  "dir_entries arg es = map (\<lambda>(n, d). (arg @ ''/'' @ n, stem n)) (filter (\<lambda>(n, d). \<not> d) es)"

definition arg_jobs :: "qmin_fs \<Rightarrow> string \<Rightarrow> (string \<times> string) list" where
  "arg_jobs fs arg =
     (case fs_Stat fs arg of
        File name \<Rightarrow> [(arg, stem name)]
      | Dir name \<Rightarrow> (case fs_ReadDir fs arg of None \<Rightarrow> [] | Some es \<Rightarrow> dir_entries arg es)
      | _ \<Rightarrow> [])"

definition scan_jobs :: "qmin_fs \<Rightarrow> string list \<Rightarrow> (string \<times> string) list" where
  "scan_jobs fs args = concat (map (arg_jobs fs) args)"

fun run_jobs ::
  "qmin_cfg \<Rightarrow> qmin_fs \<Rightarrow> (nat \<Rightarrow> nat \<Rightarrow> call_env) \<Rightarrow> string \<Rightarrow> nat \<Rightarrow> (string \<times> string) list \<Rightarrow> out_files \<Rightarrow> out_files outcome" where
  "run_jobs cfg fs w wd k [] out = Ret out"
| "run_jobs cfg fs w wd k ((path, st) # js) out =
     bindO (scanFile cfg fs (w k) path (wd @ ''/'' @ st) out) (run_jobs cfg fs w wd (k + 1) js)"

record ScanStat =
  ss_Input :: string
  ss_NumResolver :: int
  ss_Timeout :: int
  ss_RetryTimeout :: int
  ss_Protocol :: string
  ss_LabelDepth :: int
  ss_Rounds :: int
  ss_BaseURL :: string

definition scan_stats :: "qmin_cfg \<Rightarrow> ScanStat" where
  "scan_stats cfg = \<lparr>ss_Input = '''', ss_NumResolver = 0, ss_Timeout = qc_Timeout cfg,
     ss_RetryTimeout = qc_RetryTimeout cfg, ss_Protocol = qc_Protocol cfg,
     ss_LabelDepth = qc_LabelDepth cfg, ss_Rounds = qc_Rounds cfg, ss_BaseURL = qc_BaseURL cfg\<rparr>"

text \<open>
  \<open>stamp\<close> is the start time formatted to the minute, \<open>mkdir_ok\<close> whether the working directory could be
  created. The result is the files written and the metadata.
\<close>

definition qmin_Start_scan ::
  "qmin_cfg \<Rightarrow> qmin_fs \<Rightarrow> (nat \<Rightarrow> nat \<Rightarrow> call_env) \<Rightarrow> string \<Rightarrow> bool \<Rightarrow> string list \<Rightarrow> bool \<Rightarrow> (out_files \<times> ScanStat) outcome" where
  "qmin_Start_scan cfg fs w stamp mkdir_ok inArg inputIsResolver =
     (if fs_Stat fs (qc_OutputDir cfg) = Absent then Panic (LogFatal ''Output directory does not exist'')
      else if fs_Stat fs (qc_OutputDir cfg) = StatError then Panic (LogFatal ''Couldn't access output directory'')
      else if \<not> mkdir_ok then Panic (LogFatal ''Failed to create output directory: '')
      else let wd = qc_OutputDir cfg @ stamp in
        bindO (if inputIsResolver
               then bindO (index inArg 0) (\<lambda>a.
                 bindO (scan_batch cfg (w 0 0) ''programArgument''
                          [\<lparr>Queried_ip = a, Resolver_type = ''Unset''\<rparr>] NewTempStore) (\<lambda>t.
                   Ret (Map.empty(result_path wd \<mapsto> WriteOutputParquet t))))
               else run_jobs cfg fs w wd 0 (scan_jobs fs inArg) Map.empty)
          (\<lambda>out. Ret (out, scan_stats cfg)))"

subsection \<open>Every line of every input is measured\<close>

definition good_call :: "call_env \<Rightarrow> bool" where
  "good_call w \<longleftrightarrow> (\<forall>i j k. sane_net (ce_net w i j k)) \<and> (\<forall>i xs. mset (ce_order w i xs) = mset xs)"

definition good_input :: "qmin_cfg \<Rightarrow> InputFileFormat \<Rightarrow> bool" where
  "good_input cfg res \<longleftrightarrow> Queried_ip res = [] \<or> Resolver_type res = [] \<or> good_setup cfg res"

text \<open>The rows a list of resolvers owes: four per round for each, with its file name.\<close>

definition rows_of_scan :: "int \<Rightarrow> string \<Rightarrow> InputFileFormat list \<Rightarrow> ParquetQueryResult list \<Rightarrow> bool" where
  "rows_of_scan rounds fileName rs rows \<longleftrightarrow>
     mset (map row_of rows) = repeat_mset (nat rounds) (mset (scan_keys rs)) \<and>
     list_all (\<lambda>r. pq_FileName r = fileName \<and>
       (if pq_NXCheck r then pq_NxOptimization r \<in> {-1, 0, 1} else pq_NxOptimization r = -1)) rows"

lemma scan_keys_append: "scan_keys (rs @ rs') = scan_keys rs @ scan_keys rs'"
  by (simp add: scan_keys_def)

lemma rows_of_scan_append:
  "rows_of_scan n f rs rows \<Longrightarrow> rows_of_scan n f rs' rows' \<Longrightarrow> rows_of_scan n f (rs @ rs') (rows @ rows')"
  by (simp add: rows_of_scan_def scan_keys_append repeat_mset_distrib2)

lemma rows_of_scan_Nil: "rows_of_scan n f [] []"
  by (simp add: rows_of_scan_def scan_keys_def)

lemma scan_batch_Ret:
  assumes "list_all (good_input cfg) b" and "good_call w"
  shows "\<exists>new. scan_batch cfg w f b t = Ret (t @ new) \<and> rows_of_scan (qc_Rounds cfg) f b new"
proof -
  have "\<forall>res \<in> set b. Queried_ip res \<noteq> [] \<longrightarrow> Resolver_type res \<noteq> [] \<longrightarrow> good_setup cfg res"
    using assms(1) by (auto simp: list_all_iff good_input_def)
  from scan_rows_complete [OF this, of "ce_net w" "ce_order w" "ce_rnd w" t "qc_LabelDepth cfg" "qc_Rounds cfg"
      "millis (qc_Timeout cfg)" "millis (qc_RetryTimeout cfg)" f]
  show ?thesis using assms(2)
    by (simp add: scan_batch_def rows_of_scan_def good_call_def list_all_iff)
qed

lemma scan_batches_Ret:
  assumes "list_all (good_input cfg) (concat bs)" and "\<forall>k. good_call (w k)"
  shows "\<exists>new. scan_batches cfg w f k bs t = Ret (t @ new) \<and> rows_of_scan (qc_Rounds cfg) f (concat bs) new"
  using assms(1)
proof (induction bs arbitrary: k t)
  case Nil
  show ?case by (simp add: rows_of_scan_Nil)
next
  case (Cons b bs)
  obtain new where b: "scan_batch cfg (w k) f b t = Ret (t @ new)" and nb: "rows_of_scan (qc_Rounds cfg) f b new"
    using scan_batch_Ret [of cfg b "w k" f t] Cons.prems assms(2) by auto
  obtain new' where "scan_batches cfg w f (k + 1) bs (t @ new) = Ret ((t @ new) @ new')"
    and "rows_of_scan (qc_Rounds cfg) f (concat bs) new'"
    using Cons.IH [of "k + 1" "t @ new"] Cons.prems by auto
  with b nb show ?case by (simp add: rows_of_scan_append)
qed

definition text_input :: "string \<Rightarrow> InputFileFormat" where
  "text_input t = \<lparr>Queried_ip = t, Resolver_type = ''unset''\<rparr>"

text \<open>A text input that can be read to its end, and whose lines are addresses or empty.\<close>

definition readable_text :: "qmin_cfg \<Rightarrow> qmin_fs \<Rightarrow> string \<Rightarrow> string \<Rightarrow> string list \<Rightarrow> bool" where
  "readable_text cfg fs path name lines \<longleftrightarrow>
     fs_Stat fs path = File name \<and> scanFile_kind path = TextInput \<and> fs_Lines fs path = Some (lines, True) \<and>
     list_all (\<lambda>l. good_input cfg (text_input l)) lines"

lemma scanFile_text:
  assumes "readable_text cfg fs path name lines" and "0 \<le> qc_BatchSize cfg" and "\<forall>k. good_call (w k)"
  shows "\<exists>rows. scanFile cfg fs w path dir out = Ret (out(result_path dir \<mapsto> rows)) \<and>
    rows_of_scan (qc_Rounds cfg) name (map text_input lines) rows"
proof -
  define bs where "bs = batches (\<lambda>n. int n = qc_BatchSize cfg) [] (map text_input lines)"
  have bs: "readInputTXT_batches (qc_BatchSize cfg) lines = Ret bs"
    using assms(2) by (simp add: readInputTXT_batches_def bs_def text_input_def [abs_def])
  have cc: "concat bs = map text_input lines" by (simp add: bs_def concat_batches)
  have "list_all (good_input cfg) (concat bs)"
    using assms(1) by (simp add: cc readable_text_def list_all_iff)
  from scan_batches_Ret [OF this assms(3), of name 0 NewTempStore] obtain rows
    where "scan_batches cfg w name 0 bs NewTempStore = Ret rows"
      and r: "rows_of_scan (qc_Rounds cfg) name (map text_input lines) rows"
    by (auto simp: cc NewTempStore_def)
  then have "readInputTXTAndScan cfg fs w path name = Ret (Inr rows)"
    using assms(1) by (simp add: readInputTXTAndScan_def readable_text_def bs)
  then have "scanFile cfg fs w path dir out = Ret (out(result_path dir \<mapsto> rows))"
    using assms(1) by (simp add: scanFile_def readable_text_def write_result_def WriteOutputParquet_id)
  with r show ?thesis by blast
qed

text \<open>Jobs with different directories do not disturb each other.\<close>

definition job_path :: "string \<Rightarrow> string \<Rightarrow> string" where
  "job_path wd st = result_path (wd @ ''/'' @ st)"

lemma job_path_inj [simp]: "job_path wd st = job_path wd st' \<longleftrightarrow> st = st'"
  by (simp add: job_path_def result_path_def)

lemma run_jobs_Ret:
  assumes "\<And>path st out k. (path, st) \<in> set js \<Longrightarrow>
      \<exists>rows. scanFile cfg fs (w k) path (wd @ ''/'' @ st) out = Ret (out(job_path wd st \<mapsto> rows)) \<and> P path rows"
    and "distinct (map snd js)"
  shows "\<exists>out'. run_jobs cfg fs w wd k js out = Ret out' \<and>
    (\<forall>(path, st) \<in> set js. \<exists>rows. out' (job_path wd st) = Some rows \<and> P path rows) \<and>
    (\<forall>p. p \<notin> job_path wd ` snd ` set js \<longrightarrow> out' p = out p)"
  using assms
proof (induction js arbitrary: k out)
  case Nil
  then show ?case by simp
next
  case (Cons j js)
  obtain path st where j: "j = (path, st)" by force
  have "(path, st) \<in> set (j # js)" by (simp add: j)
  from Cons.prems(1) [OF this] obtain rows
    where f: "scanFile cfg fs (w k) path (wd @ ''/'' @ st) out = Ret (out(job_path wd st \<mapsto> rows))" and P: "P path rows"
    by blast
  have d: "distinct (map snd js)" using Cons.prems(2) by (simp add: j)
  have ok: "\<exists>rows. scanFile cfg fs (w k) path (wd @ ''/'' @ st) out = Ret (out(job_path wd st \<mapsto> rows)) \<and> P path rows"
    if "(path, st) \<in> set js" for path st out k
    by (rule Cons.prems(1)) (use that in simp)
  from Cons.IH [OF ok d, of "k + 1" "out(job_path wd st \<mapsto> rows)"] obtain out'
    where r: "run_jobs cfg fs w wd (k + 1) js (out(job_path wd st \<mapsto> rows)) = Ret out'"
      and js: "\<forall>(path, st) \<in> set js. \<exists>rows. out' (job_path wd st) = Some rows \<and> P path rows"
      and other: "\<forall>p. p \<notin> job_path wd ` snd ` set js \<longrightarrow> out' p = (out(job_path wd st \<mapsto> rows)) p"
    by blast
  have "job_path wd st \<notin> job_path wd ` snd ` set js"
    using Cons.prems(2) by (force simp: j)
  with other have own: "out' (job_path wd st) = Some rows" by simp
  have "run_jobs cfg fs w wd k (j # js) out = Ret out'" using f r by (simp add: j)
  moreover have "\<forall>(path, st) \<in> set (j # js). \<exists>rows. out' (job_path wd st) = Some rows \<and> P path rows"
    using own P js by (simp add: j)
  moreover have "\<forall>p. p \<notin> job_path wd ` snd ` set (j # js) \<longrightarrow> out' p = out p"
    using other by (simp add: j)
  ultimately show ?case by blast
qed

lemma scan_jobs_files:
  assumes "\<forall>a \<in> set args. fs_Stat fs a = File (name a)"
  shows "scan_jobs fs args = map (\<lambda>a. (a, stem (name a))) args"
  using assms by (induction args) (auto simp: scan_jobs_def arg_jobs_def)

text \<open>
  C6. A scan of text files loses nothing from the arguments to the result files: when the inputs can be
  read, hold addresses (or empty lines), and differ in their names up to the first dot, the program
  ends with one result file per input and nothing else; the file holds exactly four rows per round and
  address of its input, one of each kind of query, whatever the batch size, the answers and their
  order; and the metadata names the settings of the scan.
\<close>

theorem scan_output_complete:
  assumes "fs_Stat fs (qc_OutputDir cfg) = Dir d" and "0 \<le> qc_BatchSize cfg" and "\<forall>k i. good_call (w k i)"
    and "\<forall>a \<in> set args. readable_text cfg fs a (name a) (lines a)"
    and "distinct (map (\<lambda>a. stem (name a)) args)"
  shows "\<exists>out. qmin_Start_scan cfg fs w stamp True args False = Ret (out, scan_stats cfg) \<and>
    dom out = (\<lambda>a. job_path (qc_OutputDir cfg @ stamp) (stem (name a))) ` set args \<and>
    (\<forall>a \<in> set args. \<exists>rows. out (job_path (qc_OutputDir cfg @ stamp) (stem (name a))) = Some rows \<and>
       rows_of_scan (qc_Rounds cfg) (name a) (map text_input (lines a)) rows)"
proof -
  let ?wd = "qc_OutputDir cfg @ stamp"
  let ?js = "map (\<lambda>a. (a, stem (name a))) args"
  have jobs: "scan_jobs fs args = ?js"
    by (rule scan_jobs_files) (use assms(4) in \<open>auto simp: readable_text_def\<close>)
  have ok: "\<exists>rows. scanFile cfg fs (w k) path (?wd @ ''/'' @ st) out = Ret (out(job_path ?wd st \<mapsto> rows)) \<and>
      rows_of_scan (qc_Rounds cfg) (name path) (map text_input (lines path)) rows"
    if "(path, st) \<in> set ?js" for path st out k
    unfolding job_path_def by (rule scanFile_text) (use that assms(2,3,4) in auto)
  have "distinct (map snd ?js)" using assms(5) by (simp add: o_def)
  from run_jobs_Ret [where w = w and k = 0 and out = Map.empty, OF ok this] obtain out
    where r: "run_jobs cfg fs w ?wd 0 ?js Map.empty = Ret out"
      and own: "\<forall>(path, st) \<in> set ?js. \<exists>rows. out (job_path ?wd st) = Some rows \<and>
        rows_of_scan (qc_Rounds cfg) (name path) (map text_input (lines path)) rows"
      and other: "\<forall>p. p \<notin> job_path ?wd ` snd ` set ?js \<longrightarrow> out p = None" by auto
  have "qmin_Start_scan cfg fs w stamp True args False = Ret (out, scan_stats cfg)"
    using assms(1) r by (simp add: qmin_Start_scan_def jobs)
  moreover have "dom out = (\<lambda>a. job_path ?wd (stem (name a))) ` set args"
    using own other by (force simp: dom_def image_iff)
  ultimately show ?thesis using own by auto
qed

text \<open>The names of two inputs that agree up to the first dot lead to one result file, the last.\<close>

lemma same_stem_overwrites:
  assumes "readable_text cfg fs a na la" and "readable_text cfg fs b nb lb" and "stem na = stem nb"
    and "0 \<le> qc_BatchSize cfg" and "\<forall>k i. good_call (w k i)"
  shows "\<exists>rows. run_jobs cfg fs w wd k [(a, stem na), (b, stem nb)] out = Ret (out(job_path wd (stem nb) \<mapsto> rows)) \<and>
    rows_of_scan (qc_Rounds cfg) nb (map text_input lb) rows"
proof -
  obtain rows where "scanFile cfg fs (w k) a (wd @ ''/'' @ stem nb) out = Ret (out(job_path wd (stem nb) \<mapsto> rows))"
    using scanFile_text [OF assms(1,4), of "w k" "wd @ ''/'' @ stem nb" out] assms(5) by (auto simp: job_path_def)
  moreover obtain rows' where
    "scanFile cfg fs (w (k + 1)) b (wd @ ''/'' @ stem nb) (out(job_path wd (stem nb) \<mapsto> rows)) =
       Ret (out(job_path wd (stem nb) \<mapsto> rows'))" "rows_of_scan (qc_Rounds cfg) nb (map text_input lb) rows'"
    using scanFile_text [OF assms(2,4), of "w (k + 1)" "wd @ ''/'' @ stem nb" "out(job_path wd (stem nb) \<mapsto> rows)"]
      assms(5) by (auto simp: job_path_def)
  ultimately show ?thesis using assms(3) by auto
qed

lemma stem_example: "stem ''scan.2024.txt'' = stem ''scan.2025.txt''"
  by (simp add: stem_def)

definition ex_fs :: qmin_fs where
  "ex_fs = \<lparr>fs_Stat = (\<lambda>p. if p = ''out/'' then Dir ''out'' else File p), fs_ReadDir = (\<lambda>_. None),
     fs_Lines = (\<lambda>p. Some (if p = ''a.txt'' then [''192.0.2.1'', '''', ''192.0.2.2''] else [''192.0.2.3''], True)),
     fs_Parquet = (\<lambda>_ _. None)\<rparr>"

definition ex_call :: call_env where
  "ex_call = \<lparr>ce_net = (\<lambda>_ _ _. net_of (Inl ''read udp: i/o timeout'')), ce_rnd = (\<lambda>_ _ _. 7), ce_order = (\<lambda>_. rev)\<rparr>"

lemma ex_fs_readable:
  "readable_text ex_qcfg ex_fs ''a.txt'' ''a.txt'' [''192.0.2.1'', '''', ''192.0.2.2'']"
  "readable_text ex_qcfg ex_fs ''b.txt'' ''b.txt'' [''192.0.2.3'']"
  by code_simp+

lemma ex_call_good: "good_call ex_call"
  by (simp add: good_call_def ex_call_def sane_net_def net_of_def)

lemma scan_output_complete_witness:
  "\<exists>out rows. qmin_Start_scan ex_qcfg ex_fs (\<lambda>_ _. ex_call) ''now'' True [''a.txt'', ''b.txt''] False =
     Ret (out, scan_stats ex_qcfg) \<and> out ''out/now/a/result.parquet'' = Some rows \<and> length rows = 16"
proof -
  let ?lines = "\<lambda>p. if p = ''a.txt'' then [''192.0.2.1'', '''', ''192.0.2.2''] else [''192.0.2.3'']"
  have d: "fs_Stat ex_fs (qc_OutputDir ex_qcfg) = Dir ''out''" by (simp add: ex_fs_def ex_qcfg_def)
  have b: "0 \<le> qc_BatchSize ex_qcfg" by (simp add: ex_qcfg_def)
  have r: "\<forall>a \<in> set [''a.txt'', ''b.txt'']. readable_text ex_qcfg ex_fs a a (?lines a)"
    using ex_fs_readable by simp
  have st: "distinct (map stem [''a.txt'', ''b.txt''])" by (simp add: stem_def)
  from scan_output_complete [where w = "\<lambda>_ _. ex_call" and name = "\<lambda>a. a" and stamp = "''now''", OF d b _ r st]
    ex_call_good obtain out rows
    where s: "qmin_Start_scan ex_qcfg ex_fs (\<lambda>_ _. ex_call) ''now'' True [''a.txt'', ''b.txt''] False =
        Ret (out, scan_stats ex_qcfg)"
      and o: "out (job_path (qc_OutputDir ex_qcfg @ ''now'') (stem ''a.txt'')) = Some rows"
      and m: "rows_of_scan (qc_Rounds ex_qcfg) ''a.txt'' (map text_input (?lines ''a.txt'')) rows"
    by auto
  have "mset (map row_of rows) = repeat_mset 2 (mset (scan_keys (map text_input (?lines ''a.txt''))))"
    using m by (simp add: rows_of_scan_def ex_qcfg_def)
  then have "size (mset (map row_of rows)) = 16" by (simp add: scan_keys_def four_rows_def text_input_def)
  then have "length rows = 16" by simp
  moreover have "out ''out/now/a/result.parquet'' = Some rows"
    using o by (simp add: job_path_def result_path_def ex_qcfg_def stem_def)
  ultimately show ?thesis using s by blast
qed

end
