(* ===== verification/ResultWriter.thy ===== *)
theory ResultWriter
  imports UdpScanner
begin

section \<open>From the channel to the results (scanner/base_scanner.go)\<close>

text \<open>
  The packet handlers queue finished items in \<open>Write_chan\<close>, which has room for 4096; one routine takes
  them out, \<open>Write_results\<close> to write rows to the CSV file, \<open>Store_internal\<close> to keep the items. Both
  have one loop: a \<open>select\<close> between the channel and \<open>Stop_chan\<close>. When the stop channel is closed,
  \<open>select\<close> may choose it also while items are waiting, and the routine returns.
\<close>

definition write_chan_cap :: nat where
  "write_chan_cap = 4096"

subsection \<open>What a writer adds to the results\<close>

locale result_sink =
  fixes put :: "'i \<Rightarrow> 'o \<Rightarrow> 'o" and content :: "'o \<Rightarrow> 'r list" and row :: "'i \<Rightarrow> 'r list"
  assumes put_content: "content (put i out) = content out @ row i"
begin

lemma content_fold: "content (fold put is out) = content out @ concat (map row is)"
  by (induction "is" arbitrary: out) (simp_all add: put_content)

text \<open>Later items do not change earlier rows.\<close>

lemma content_prefix: "prefix (content (fold put is out)) (content (fold put (is @ js) out))"
  by (simp add: content_fold)

end

text \<open>The CSV file of the UDP scanner and the list of an internal scan.\<close>

definition udp_Write_item :: "Cfg_db \<Rightarrow> gopacket \<Rightarrow> udp_item \<Rightarrow> string list list \<Rightarrow> string list list" where
  "udp_Write_item cfg gp it file = file @ [udp_scan_item_to_strarr cfg gp it]"

definition store_item :: "'i \<Rightarrow> 'i list \<Rightarrow> 'i list" where
  "store_item it stored = Store_internal stored [it]"

interpretation udp_csv: result_sink "udp_Write_item cfg gp" "\<lambda>file. file" "\<lambda>it. [udp_scan_item_to_strarr cfg gp it]"
  by unfold_locales (simp add: udp_Write_item_def)

interpretation stored: result_sink store_item "\<lambda>l. l" "\<lambda>it. [it]"
  by unfold_locales (simp add: store_item_def Store_internal_append)

subsection \<open>The loop and its producers\<close>

record ('i, 'o) writer =
  wr_chan :: "'i list"
  wr_out :: 'o
  wr_stop :: bool
  wr_returned :: bool

text \<open>A producer that finds the channel full blocks, so queueing is a step with a guard.\<close>

inductive writer_step :: "('i \<Rightarrow> 'o \<Rightarrow> 'o) \<Rightarrow> ('i, 'o) writer \<Rightarrow> 'i list \<Rightarrow> ('i, 'o) writer \<Rightarrow> bool" for put where
  Queue: "length (wr_chan s) < write_chan_cap \<Longrightarrow> writer_step put s [i] (s\<lparr>wr_chan := wr_chan s @ [i]\<rparr>)"
| Take: "wr_chan s = i # rest \<Longrightarrow> \<not> wr_returned s \<Longrightarrow>
    writer_step put s [] (s\<lparr>wr_chan := rest, wr_out := put i (wr_out s)\<rparr>)"
| Stop: "\<not> wr_stop s \<Longrightarrow> writer_step put s [] (s\<lparr>wr_stop := True\<rparr>)"
| Return: "wr_stop s \<Longrightarrow> \<not> wr_returned s \<Longrightarrow> writer_step put s [] (s\<lparr>wr_returned := True\<rparr>)"

inductive writer_run :: "('i \<Rightarrow> 'o \<Rightarrow> 'o) \<Rightarrow> 'o \<Rightarrow> ('i, 'o) writer \<Rightarrow> 'i list \<Rightarrow> bool" for put init where
  Begin: "writer_run put init \<lparr>wr_chan = [], wr_out = init, wr_stop = False, wr_returned = False\<rparr> []"
| Next: "writer_run put init s queued \<Longrightarrow> writer_step put s new s' \<Longrightarrow> writer_run put init s' (queued @ new)"

lemma writer_run_prefix:
  "writer_run put init s queued \<Longrightarrow>
    \<exists>written. queued = written @ wr_chan s \<and> wr_out s = fold put written init \<and>
      length (wr_chan s) \<le> write_chan_cap \<and> (wr_returned s \<longrightarrow> wr_stop s)"
proof (induction rule: writer_run.induct)
  case Begin
  show ?case by simp
next
  case (Next s queued new s')
  then obtain written where "queued = written @ wr_chan s" "wr_out s = fold put written init"
    "length (wr_chan s) \<le> write_chan_cap" "wr_returned s \<longrightarrow> wr_stop s" by blast
  with Next.hyps(2) show ?case
  proof cases
    case (Take i rest)
    then show ?thesis using \<open>queued = written @ wr_chan s\<close> \<open>wr_out s = fold put written init\<close>
        \<open>length (wr_chan s) \<le> write_chan_cap\<close> \<open>wr_returned s \<longrightarrow> wr_stop s\<close>
      by (intro exI [of _ "written @ [i]"]) simp
  qed auto
qed

text \<open>Every way to cut the queued items is reached: some are written, up to 4096 are left behind.\<close>

lemma writer_queue:
  assumes "writer_run put init s queued" and "length (wr_chan s) + length its \<le> write_chan_cap"
  shows "writer_run put init (s\<lparr>wr_chan := wr_chan s @ its\<rparr>) (queued @ its)"
  using assms
proof (induction its arbitrary: s queued)
  case Nil
  then show ?case by simp
next
  case (Cons i its)
  have "writer_run put init (s\<lparr>wr_chan := wr_chan s @ [i]\<rparr>) (queued @ [i])"
    by (rule Next [OF Cons.prems(1)]) (use Cons.prems(2) in \<open>simp add: Queue\<close>)
  from Cons.IH [OF this] Cons.prems(2) show ?case by simp
qed

lemma writer_write_one:
  assumes "writer_run put init \<lparr>wr_chan = [], wr_out = out, wr_stop = False, wr_returned = False\<rparr> queued"
  shows "writer_run put init \<lparr>wr_chan = [], wr_out = put i out, wr_stop = False, wr_returned = False\<rparr> (queued @ [i])"
proof -
  have "writer_run put init \<lparr>wr_chan = [i], wr_out = out, wr_stop = False, wr_returned = False\<rparr> (queued @ [i])"
    using writer_queue [OF assms, where its = "[i]"] by (simp add: write_chan_cap_def)
  from Next [OF this Take, of i "[]"] show ?thesis by simp
qed

lemma writer_write_all:
  "writer_run put init \<lparr>wr_chan = [], wr_out = fold put is init, wr_stop = False, wr_returned = False\<rparr> is"
proof (induction "is" rule: rev_induct)
  case Nil
  show ?case using Begin by simp
next
  case (snoc i "is")
  from writer_write_one [OF snoc] show ?case by simp
qed

lemma writer_leaves_behind:
  assumes "length lost \<le> write_chan_cap"
  shows "writer_run put init \<lparr>wr_chan = lost, wr_out = fold put written init, wr_stop = True, wr_returned = True\<rparr>
    (written @ lost)"
proof -
  have "writer_run put init \<lparr>wr_chan = lost, wr_out = fold put written init, wr_stop = False, wr_returned = False\<rparr>
      (written @ lost)"
    using writer_queue [OF writer_write_all, where its = lost and put = put and init = init] assms by simp
  from Next [OF this Stop]
  have "writer_run put init \<lparr>wr_chan = lost, wr_out = fold put written init, wr_stop = True, wr_returned = False\<rparr>
      (written @ lost)" by simp
  from Next [OF this Return] show ?thesis by simp
qed

text \<open>
  C20. The results of a scan are a beginning of what its handlers queued, in that order: at every moment
  the file of the UDP scanner holds the rows of the items written so far, and what is queued and not
  written is in the channel, at most 4096 items. When the stop channel has been closed that is all that
  is known: for any items written and any 4096 or fewer behind them there is a run in which the writer
  returned and left those behind.
\<close>

theorem udp_results_prefix:
  "(\<forall>s queued. writer_run (udp_Write_item cfg gp) [] s queued \<longrightarrow>
      (\<exists>written. queued = written @ wr_chan s \<and> wr_out s = map (udp_scan_item_to_strarr cfg gp) written \<and>
         length (wr_chan s) \<le> write_chan_cap)) \<and>
   (\<forall>written lost. length lost \<le> write_chan_cap \<longrightarrow>
      (\<exists>s. writer_run (udp_Write_item cfg gp) [] s (written @ lost) \<and> wr_returned s \<and>
         wr_out s = map (udp_scan_item_to_strarr cfg gp) written))"
proof (intro conjI allI impI)
  fix s queued
  assume "writer_run (udp_Write_item cfg gp) [] s queued"
  from writer_run_prefix [OF this] udp_csv.content_fold [of cfg gp _ "[]"]
  show "\<exists>written. queued = written @ wr_chan s \<and> wr_out s = map (udp_scan_item_to_strarr cfg gp) written \<and>
      length (wr_chan s) \<le> write_chan_cap" by (auto simp: concat_map_singleton)
next
  fix written lost :: "udp_item list"
  assume "length lost \<le> write_chan_cap"
  from writer_leaves_behind [OF this, where put = "udp_Write_item cfg gp" and init = "[]" and written = written]
  show "\<exists>s. writer_run (udp_Write_item cfg gp) [] s (written @ lost) \<and> wr_returned s \<and>
      wr_out s = map (udp_scan_item_to_strarr cfg gp) written"
    using udp_csv.content_fold [of cfg gp written "[]"] by (fastforce simp: concat_map_singleton)
qed

definition ex_item :: udp_item where
  "ex_item = new_udp_item 1 0 (be_put_uint32 0xC0000201) 1000 7"

lemma udp_results_prefix_witness:
  "\<exists>s. writer_run (udp_Write_item default_cfg ex_gp) [] s [ex_item, ex_item] \<and> wr_returned s \<and>
     wr_out s = [udp_scan_item_to_strarr default_cfg ex_gp ex_item]"
proof -
  have "length [ex_item] \<le> write_chan_cap" by (simp add: write_chan_cap_def)
  with conjunct2 [OF udp_results_prefix [of default_cfg ex_gp]]
  have "\<exists>s. writer_run (udp_Write_item default_cfg ex_gp) [] s ([ex_item] @ [ex_item]) \<and> wr_returned s \<and>
      wr_out s = map (udp_scan_item_to_strarr default_cfg ex_gp) [ex_item]" by blast
  then show ?thesis by simp
qed

end
