(* ===== verification/NetSetup.thy ===== *)
theory NetSetup
  imports UdpScanner
begin

section \<open>The network around a scan (common/base.go, udp_bind.go, udp_sender.go, tcp_sender.go)\<close>

text \<open>
  What the modules set up before they send, and take down afterwards: the Ethernet header from the
  output of the command \<open>ip\<close>, the UDP ports bound so that the kernel stays silent, the firewall rule
  that keeps it from resetting TCP connections, and the two ways to hand a packet to the kernel. What
  a command prints, whether a port can be bound and the serialisation of layers are arguments.
\<close>

subsection \<open>Gateway and MAC address\<close>

text \<open>\<open>strings.Fields\<close>: the maximal runs of characters that are no white space.\<close>

fun fields_loop :: "string \<Rightarrow> string \<Rightarrow> string list" where
  "fields_loop cur [] = (if cur = [] then [] else [cur])"
| "fields_loop cur (c # s) =
     (if is_space c then (if cur = [] then fields_loop [] s else cur # fields_loop [] s)
      else fields_loop (cur @ [c]) s)"

definition Fields :: "string \<Rightarrow> string list" where
  "Fields s = fields_loop [] s"

text \<open>\<open>net.ParseMAC\<close>: six, eight or twenty bytes, written with colons, dashes or dots.\<close>

definition hex_byte :: "string \<Rightarrow> u8 option" where
  "hex_byte s = (case s of
     [a, b] \<Rightarrow> (case (hex_val a, hex_val b) of (Some x, Some y) \<Rightarrow> Some (of_nat (16 * x + y)) | _ \<Rightarrow> None)
   | _ \<Rightarrow> None)"

fun hex_bytes :: "string list \<Rightarrow> u8 list option" where
  "hex_bytes [] = Some []"
| "hex_bytes (g # gs) =
     (case (hex_byte g, hex_bytes gs) of (Some b, Some bs) \<Rightarrow> Some (b # bs) | _ \<Rightarrow> None)"

definition ParseMAC :: "string \<Rightarrow> u8 list option" where
  "ParseMAC s =
     (if length s < 14 then None
      else if s ! 2 = CHR '':'' \<or> s ! 2 = CHR ''-'' then
        (let gs = split_on (s ! 2) s
         in if length gs \<in> {6, 8, 20} then hex_bytes gs else None)
      else if s ! 4 = CHR ''.'' then
        (let gs = split_on CHR ''.'' s
         in if 2 * length gs \<in> {6, 8, 20} \<and> list_all (\<lambda>g. length g = 4) gs
            then hex_bytes (concat (map (\<lambda>g. [take 2 g, drop 2 g]) gs)) else None)
      else None)"

datatype setup_err = CommandFailed | NotFound | BadAddress

text \<open>The first field \<open>via\<close> with a field behind it; what is behind it is parsed, well or not.\<close>

fun gateway_field :: "string list \<Rightarrow> ip option" where
  "gateway_field (f # g # fs) = (if f = ''via'' then Some (parse_ip g) else gateway_field (g # fs))"
| "gateway_field _ = None"

definition get_def_gateway :: "string option \<Rightarrow> setup_err + ip" where
  "get_def_gateway out =
     (case out of None \<Rightarrow> Inl CommandFailed
      | Some t \<Rightarrow> (case gateway_field (Fields t) of None \<Rightarrow> Inl NotFound | Some a \<Rightarrow> Inr a))"

text \<open>The first field that is the address and has four fields behind it names the MAC address.\<close>

fun mac_field :: "ip \<Rightarrow> string list \<Rightarrow> string option" where
  "mac_field a [] = None"
| "mac_field a (f # fs) =
     (if ip_equal (parse_ip f) a \<and> 4 \<le> length fs then Some (fs ! 3) else mac_field a fs)"

definition get_mac_addr :: "ip \<Rightarrow> string option \<Rightarrow> setup_err + u8 list" where
  "get_mac_addr a out =
     (case out of None \<Rightarrow> Inl CommandFailed
      | Some t \<Rightarrow> (case mac_field a (Fields t) of None \<Rightarrow> Inl NotFound
          | Some m \<Rightarrow> (case ParseMAC m of None \<Rightarrow> Inl BadAddress | Some hw \<Rightarrow> Inr hw)))"

text \<open>
  \<open>Base_init\<close>: the header of the frames, or the panic. \<open>iface\<close> is the hardware address of the
  interface, \<open>None\<close> if there is no such interface; \<open>neigh\<close> is the output of \<open>ip neigh\<close> for an address.
\<close>

definition Base_init_header ::
  "u8 list option \<Rightarrow> string option \<Rightarrow> (ip \<Rightarrow> string option) \<Rightarrow> u8 list outcome" where
  "Base_init_header iface route neigh =
     (case iface of None \<Rightarrow> Panic (PanicError ''no such network interface'')
      | Some srcMac \<Rightarrow>
          if srcMac = [] then Panic (PanicError ''no src MAC'')
          else case get_def_gateway route of
            Inl e \<Rightarrow> Panic (PanicError ''default gateway not found'')
          | Inr gwIp \<Rightarrow> (case get_mac_addr gwIp (neigh gwIp) of
                Inl e \<Rightarrow> Panic (PanicError ''MAC address not found'')
              | Inr dstMac \<Rightarrow> eth_header dstMac srcMac))"

lemma Base_init_example:
  "Base_init_header (Some [2, 0, 0, 0, 0, 1])
     (Some ''default via 192.168.1.1 dev eth0 proto dhcp metric 100'')
     (\<lambda>a. Some ''192.168.1.1 dev eth0 lladdr 52:54:00:12:35:02 REACHABLE'') =
   Ret [0x52, 0x54, 0, 0x12, 0x35, 2, 2, 0, 0, 0, 0, 1, 0x08, 0x00]"
  by code_simp

subsection \<open>Binding the ports\<close>

lemma next_port:
  assumes "p \<le> (ucast (m :: u16) :: u32)"
  shows "unat (p + 1) = unat p + 1" and "unat p \<le> unat m"
proof -
  show le: "unat p \<le> unat m" using assms by (simp add: word_le_nat_alt go_words)
  show "unat (p + 1) = unat p + 1" using le u16_less [of m] by (simp add: unat_word_ariths)
qed

text \<open>
  The loop counts in 32 bits, so it also ends when the last port is 65535. \<open>can_bind\<close> tells whether
  the kernel lets the program have a port; the ports of the sockets are the result.
\<close>

function bind_loop :: "(u32 \<Rightarrow> bool) \<Rightarrow> u16 \<Rightarrow> u32 \<Rightarrow> u32 list \<Rightarrow> u32 list" where
  "bind_loop can_bind port_max port socks =
     (if port \<le> ucast port_max
      then bind_loop can_bind port_max (port + 1) (if can_bind port then socks @ [port] else socks)
      else socks)"
  by auto

termination bind_loop
proof (relation "measure (\<lambda>(c, m, p, s). unat m + 1 - unat p)")
  fix can_bind m socks and p :: u32
  assume "p \<le> ucast (m :: u16)"
  from next_port [OF this]
  show "((can_bind, m, p + 1, if can_bind p then socks @ [p] else socks), can_bind, m, p, socks)
      \<in> measure (\<lambda>(c, m, p, s). unat m + 1 - unat p)" by simp
qed simp

declare bind_loop.simps [simp del]

definition Bind_ports :: "Cfg_db \<Rightarrow> (u32 \<Rightarrow> bool) \<Rightarrow> u32 list" where
  "Bind_ports cfg can_bind = bind_loop can_bind (Port_max cfg) (ucast (Port_min cfg)) []"

lemma bind_loop_ports:
  "map unat (bind_loop can_bind m p socks) =
     map unat socks @ filter (\<lambda>n. can_bind (of_nat n)) [unat p..<unat m + 1]"
proof (induction can_bind m p socks rule: bind_loop.induct)
  case (1 can_bind m p socks)
  show ?case
  proof (cases "p \<le> ucast m")
    case True
    have "[unat p..<unat m + 1] = unat p # [unat (p + 1)..<unat m + 1]"
      using next_port [OF True] by (simp add: upt_conv_Cons)
    then show ?thesis using 1 True by (simp add: bind_loop.simps [of can_bind m p])
  next
    case False
    then have "unat m < unat p" by (simp add: word_le_nat_alt go_words)
    with False show ?thesis by (simp add: bind_loop.simps [of can_bind m p])
  qed
qed

lemma udp_loop_range:
  assumes "Port_min cfg \<le> Port_max cfg"
  shows "udp_loop_ok cfg ((update_sync_init cfg ^^ n) (us_loop (udp_init cfg)))"
  by (induction n) (use assms in \<open>simp_all add: update_sync_init_ok, simp_all add: udp_init_def udp_loop_ok_def\<close>)

text \<open>Every port the UDP scanner sends from is bound, if the kernel lets the program have it.\<close>

lemma udp_ports_bound:
  assumes "Port_min cfg \<le> Port_max cfg"
  shows "map unat (Bind_ports cfg can_bind) =
      filter (\<lambda>n. can_bind (of_nat n)) [unat (Port_min cfg)..<unat (Port_max cfg) + 1]"
    and "unat (li_port ((update_sync_init cfg ^^ n) (us_loop (udp_init cfg))))
      \<in> set [unat (Port_min cfg)..<unat (Port_max cfg) + 1]"
proof -
  show "map unat (Bind_ports cfg can_bind) =
      filter (\<lambda>n. can_bind (of_nat n)) [unat (Port_min cfg)..<unat (Port_max cfg) + 1]"
    by (simp only: Bind_ports_def bind_loop_ports go_words) simp
  show "unat (li_port ((update_sync_init cfg ^^ n) (us_loop (udp_init cfg))))
      \<in> set [unat (Port_min cfg)..<unat (Port_max cfg) + 1]"
    using udp_loop_range [OF assms, of n] by (auto simp: udp_loop_ok_def word_le_nat_alt)
qed

definition Unbind_ports :: "u32 list \<Rightarrow> (u32 \<Rightarrow> bool) \<Rightarrow> (u32 \<Rightarrow> bool)" where
  "Unbind_ports socks bound = (\<lambda>p. bound p \<and> p \<notin> set socks)"

subsection \<open>Handing a packet to the kernel\<close>

text \<open>
  The library turns layers to bytes: all of them at once, the IP header alone, the header read back,
  or the transport layer with its payload. An error of the library is a panic.
\<close>

record 't codec =
  serialize_all :: "ipv4_layer \<Rightarrow> 't \<Rightarrow> u8 list \<Rightarrow> u8 list option"
  serialize_ip :: "ipv4_layer \<Rightarrow> u8 list option"
  parse_header :: "u8 list \<Rightarrow> u8 list option"
  serialize_transport :: "'t \<Rightarrow> u8 list \<Rightarrow> u8 list option"

datatype handed = Frame "u8 list" | RawIP "u8 list" "u8 list"

definition or_panic :: "'a option \<Rightarrow> 'a outcome" where
  "or_panic x = (case x of Some y \<Rightarrow> Ret y | None \<Rightarrow> Panic (PanicError ''serialize''))"

text \<open>
  \<open>Send_udp_pkt\<close> and \<open>Send_tcp_pkt\<close> are the same function of their layer. \<open>raw_con\<close> tells whether
  \<open>L3_Raw_con\<close> has been set; a write to the nil pointer is a panic.
\<close>

definition send_pkt ::
  "'t codec \<Rightarrow> Cfg_db \<Rightarrow> bool \<Rightarrow> u8 list \<Rightarrow> ipv4_layer \<Rightarrow> 't \<Rightarrow> u8 list \<Rightarrow> handed outcome" where
  "send_pkt c cfg raw_con eth i t payload =
     (if Craft_ethernet cfg
      then bindO (or_panic (serialize_all c i t payload)) (\<lambda>b. Ret (Frame (RawL2_Send eth b)))
      else bindO (or_panic (serialize_ip c i)) (\<lambda>hb.
           bindO (or_panic (parse_header c hb)) (\<lambda>h.
           bindO (or_panic (serialize_transport c t payload)) (\<lambda>b.
             if raw_con then Ret (RawIP h b) else Panic (PanicError ''nil pointer dereference'')))))"

definition Send_udp_pkt :: "udp_layer codec \<Rightarrow> Cfg_db \<Rightarrow> bool \<Rightarrow> u8 list \<Rightarrow> ipv4_layer \<Rightarrow> udp_layer \<Rightarrow> u8 list \<Rightarrow> handed outcome" where
  "Send_udp_pkt = send_pkt"

definition Send_tcp_pkt :: "tcp_layer codec \<Rightarrow> Cfg_db \<Rightarrow> bool \<Rightarrow> u8 list \<Rightarrow> ipv4_layer \<Rightarrow> tcp_layer \<Rightarrow> u8 list \<Rightarrow> handed outcome" where
  "Send_tcp_pkt = send_pkt"

text \<open>What leaves the interface behind the Ethernet header.\<close>

fun on_wire :: "handed \<Rightarrow> u8 list" where
  "on_wire (Frame b) = drop 14 b"
| "on_wire (RawIP h b) = h @ b"

text \<open>
  If serialising all layers is the header as it is read back, followed by the transport layer, the two
  ways put the same packet on the wire.
\<close>

lemma send_ways_agree:
  assumes "serialize_ip c i = Some hb" and "parse_header c hb = Some h" and "serialize_transport c t p = Some b"
    and "serialize_all c i t p = Some (h @ b)" and "eth_header d s = Ret eth"
  shows "\<exists>x y. send_pkt c (cfg\<lparr>Craft_ethernet := True\<rparr>) True eth i t p = Ret x \<and>
    send_pkt c (cfg\<lparr>Craft_ethernet := False\<rparr>) True eth i t p = Ret y \<and> on_wire x = on_wire y"
  using assms RawL2_frame [OF assms(5)] by (simp add: send_pkt_def or_panic_def)

subsection \<open>The firewall rule\<close>

text \<open>
  \<open>iptables -C\<close> succeeds if the chain holds the rule, \<open>-A\<close> appends it, \<open>-D\<close> deletes the first that is
  equal. A command can also fail because \<open>sudo\<close> does.
\<close>

definition check_rule :: "bool \<Rightarrow> 'r \<Rightarrow> 'r list \<Rightarrow> bool" where
  "check_rule sudo r chain \<longleftrightarrow> sudo \<and> r \<in> set chain"

definition append_rule :: "bool \<Rightarrow> 'r \<Rightarrow> 'r list \<Rightarrow> 'r list option" where
  "append_rule sudo r chain = (if sudo then Some (chain @ [r]) else None)"

definition delete_rule :: "bool \<Rightarrow> 'r \<Rightarrow> 'r list \<Rightarrow> 'r list option" where
  "delete_rule sudo r chain = (if sudo \<and> r \<in> set chain then Some (remove1 r chain) else None)"

text \<open>The chain and the field \<open>Set_iptables\<close>, which stays as it was when the rule cannot be set.\<close>

definition Set_iptable_rule :: "bool \<Rightarrow> 'r \<Rightarrow> 'r list \<times> bool \<Rightarrow> 'r list \<times> bool" where
  "Set_iptable_rule sudo r s =
     (if \<not> check_rule sudo r (fst s)
      then (case append_rule sudo r (fst s) of Some chain \<Rightarrow> (chain, True) | None \<Rightarrow> s)
      else (fst s, False))"

definition Remove_iptable_rule :: "bool \<Rightarrow> 'r \<Rightarrow> 'r list \<times> bool \<Rightarrow> 'r list \<times> bool" where
  "Remove_iptable_rule sudo r s =
     (if snd s then (case delete_rule sudo r (fst s) of Some chain \<Rightarrow> (chain, snd s) | None \<Rightarrow> s) else s)"

text \<open>
  During the scan the chain holds the rule, and what the program has added it takes away: behind the
  scan the chain is the one before it, also if others have added rules meanwhile.
\<close>

lemma iptables_restored:
  assumes "Set_iptable_rule True r (chain, False) = (chain', flag)"
  shows "r \<in> set chain'"
    and "fst (Remove_iptable_rule True r (chain' @ later, flag)) = chain @ later"
  using assms by (auto simp: Set_iptable_rule_def Remove_iptable_rule_def check_rule_def append_rule_def
      delete_rule_def remove1_append split: if_splits)

text \<open>
  Two programs at the same time: the second finds the rule of the first, and when the first ends, the
  second goes on without it.
\<close>

lemma iptables_shared:
  assumes "r \<notin> set chain" and "Set_iptable_rule True r (chain, False) = (chain1, flag1)"
    and "Set_iptable_rule True r (chain1, False) = (chain2, flag2)"
  shows "r \<notin> set (fst (Remove_iptable_rule True r (chain2, flag1)))"
  using assms by (auto simp: Set_iptable_rule_def Remove_iptable_rule_def check_rule_def append_rule_def
      delete_rule_def remove1_append split: if_splits)

end
