(* ===== verification/Startup.thy ===== *)
theory Startup
  imports NetSetup Traceroute RateLimit "HOL-Library.Multiset"
begin

section \<open>How a module starts its routines and waits for them\<close>

text \<open>
  \<open>Start_scan\<close>, \<open>Start_internal\<close>, \<open>Start_traceroute\<close> and \<open>Start_ratetest\<close> acquire what the module needs (the
  raw connection, the firewall rule, the ports), start the routines, wait until they are done, and
  release it. Each is a script here: the list of what the main routine does, computed from the
  configuration, the arguments and what the system answers. \<open>proc_step\<close> runs a script together with the
  routines it has started; what these do inside is the matter of the other theories.
\<close>

subsection \<open>Routines, wait groups, scripts\<close>

datatype routine =
    R_Handle_ctrl_c
  | R_Packet_capture
  | R_Write_results string
  | R_Store_internal
  | R_Timeout
  | R_Close_handle
  | R_Read_ips_file string
  | R_gen_ips ip int
  | R_gen_ips_nets "ip list" int
  | R_init_udp
  | R_init_tcp
  | R_close_later
  | R_init_traceroute u16
  | R_trt_Write_results
  | R_inject nat
  | R_rate_writer string
  | R_send_packets nat
  | R_Process_pkt

text \<open>The groups of a module, of the senders of the rate tester, and of an internal scan it runs.\<close>

datatype group = Wg | Sender_wg | Internal_wg

text \<open>\<open>Go g r\<close> starts a routine, which calls \<open>Done\<close> on \<open>g\<close> when it returns.\<close>

datatype act =
    Add group nat
  | Go "group option" routine
  | Wait group
  | Set_rule
  | Remove_rule
  | Bind
  | Unbind
  | Raw_con
  | Close_stop
  | Exits ExitCode
  | Panics go_panic

text \<open>What the system answers: interface, commands, sockets, files, the items of an internal scan.\<close>

record start_env =
  se_iface :: "u8 list option"
  se_route :: "string option"
  se_neigh :: "ip \<Rightarrow> string option"
  se_raw :: bool
  se_handle :: bool
  se_sudo :: bool
  se_can_bind :: "u32 \<Rightarrow> bool"
  se_stat :: "string \<Rightarrow> bool"
  se_lines :: "string \<Rightarrow> string list option"
  se_keys :: "string list"
  se_items :: "udp_item list"

definition panics :: "'a outcome \<Rightarrow> act list" where
  "panics m = (case m of Ret x \<Rightarrow> [] | Panic e \<Rightarrow> [Panics e])"

definition ensure :: "bool \<Rightarrow> string \<Rightarrow> act list" where
  "ensure b msg = (if b then [] else [Panics (PanicError msg)])"

subsection \<open>Initialisation\<close>

definition Base_init :: "start_env \<Rightarrow> act list" where
  "Base_init env = panics (Base_init_header (se_iface env) (se_route env) (se_neigh env))"

definition Scanner_init :: "start_env \<Rightarrow> act list" where
  "Scanner_init env = Base_init env @ [Go None R_Handle_ctrl_c]"

definition raw_connection :: "start_env \<Rightarrow> act list" where
  "raw_connection env = ensure (se_raw env) ''raw socket'' @ [Raw_con]"

definition udp_Sender_init :: "start_env \<Rightarrow> Cfg_db \<Rightarrow> act list" where
  "udp_Sender_init env cfg = raw_connection env @ ensure (udp_DNS_type cfg \<noteq> None) ''wrong DNS query type''"

definition tcp_Sender_init :: "start_env \<Rightarrow> act list" where
  "tcp_Sender_init env = raw_connection env"

definition Get_ether_handle :: "start_env \<Rightarrow> act list" where
  "Get_ether_handle env = ensure (se_handle env) ''ethernet handle''"

definition senders :: "group \<Rightarrow> routine list \<Rightarrow> act list" where
  "senders g rs = concat (map (\<lambda>r. [Add g 1, Go (Some g) r]) rs)"

definition routines :: "Cfg_db \<Rightarrow> nat" where
  "routines cfg = unat (Number_routines cfg)"

subsection \<open>The UDP scanner\<close>

definition scan_supplier :: "string \<times> ip \<times> int \<Rightarrow> routine" where
  "scan_supplier = (\<lambda>(fname, netip, hostsize).
     if fname \<noteq> '''' then R_Read_ips_file fname else R_gen_ips netip hostsize)"

definition scan_routines :: "group \<Rightarrow> nat \<Rightarrow> routine \<Rightarrow> routine \<Rightarrow> act list" where
  "scan_routines g n writer supplier = [Add g n, Go (Some g) R_Packet_capture, Go (Some g) writer,
     Go (Some g) R_Timeout, Go (Some g) supplier]"

text \<open>The test for a missing argument looks at \<open>os.Args\<close>, the words of the whole command line.\<close>

definition udp_Start_scan :: "start_env \<Rightarrow> Cfg_db \<Rightarrow> string list \<Rightarrow> string list \<Rightarrow> string \<Rightarrow> act list" where
  "udp_Start_scan env cfg os_Args args outpath =
     Scanner_init env @ udp_Sender_init env cfg @
     (case udp_start_arg os_Args args of
        Panic e \<Rightarrow> [Panics e]
      | Ret None \<Rightarrow> []
      | Ret (Some a) \<Rightarrow> (case Get_cidr_filename (se_stat env) a of
          Inl code \<Rightarrow> [Exits code]
        | Inr target \<Rightarrow> [Bind] @ Get_ether_handle env @
            scan_routines Wg 5 (R_Write_results outpath) (scan_supplier target) @
            senders Wg (replicate (routines cfg) R_init_udp) @
            [Go (Some Wg) R_Close_handle, Wait Wg, Unbind]))"

definition udp_Start_internal :: "group \<Rightarrow> start_env \<Rightarrow> Cfg_db \<Rightarrow> ip list \<Rightarrow> int \<Rightarrow> act list" where
  "udp_Start_internal g env cfg nets hostsize =
     Base_init env @ udp_Sender_init env cfg @ Get_ether_handle env @
     scan_routines g 6 R_Store_internal (R_gen_ips_nets nets hostsize) @
     [Go (Some g) R_init_udp, Go (Some g) R_Close_handle, Wait g]"

subsection \<open>The TCP scanner\<close>

definition tcp_Start_scan :: "start_env \<Rightarrow> Cfg_db \<Rightarrow> string list \<Rightarrow> string \<Rightarrow> act list" where
  "tcp_Start_scan env cfg args outpath =
     Scanner_init env @ tcp_Sender_init env @ [Set_rule] @
     (case args of [] \<Rightarrow> []
      | a # rest \<Rightarrow> (case Get_cidr_filename (se_stat env) a of
          Inl code \<Rightarrow> [Exits code]
        | Inr target \<Rightarrow> Get_ether_handle env @
            scan_routines Wg 5 (R_Write_results outpath) (scan_supplier target) @
            senders Wg (replicate (routines cfg) R_init_tcp) @
            [Go (Some Wg) R_Close_handle, Wait Wg, Remove_rule]))"

subsection \<open>Traceroute\<close>

definition Start_traceroute :: "start_env \<Rightarrow> Cfg_db \<Rightarrow> string list \<Rightarrow> act list" where
  "Start_traceroute env cfg args =
     Base_init env @ [Set_rule] @
     (case trt_start_arg args of NoTarget \<Rightarrow> [Exits WRONG_INPUT_ARGS]
      | SingleIp a \<Rightarrow> [Go None R_close_later]
      | TargetFile f \<Rightarrow> [Add Wg 1, Go (Some Wg) (R_Read_ips_file f)]) @
     Get_ether_handle env @
     [Add Wg 4, Go (Some Wg) R_Packet_capture, Go (Some Wg) R_Timeout, Go (Some Wg) R_trt_Write_results] @
     senders Wg (map R_init_traceroute (trt_start_ports cfg)) @
     [Go (Some Wg) R_Close_handle, Wait Wg, Remove_rule]"

subsection \<open>The rate-limit tester\<close>

definition probe_acts :: "start_env \<Rightarrow> Cfg_db \<Rightarrow> (string \<rightharpoonup> resolver_entry) \<Rightarrow> act list" where
  "probe_acts env cfg m =
     (case nets_of_entries (List.map_filter m (se_keys env)) [] of
        Panic e \<Rightarrow> [Panics e]
      | Ret nets \<Rightarrow>
          udp_Start_internal Internal_wg env (cfg\<lparr>Verbosity := 4, Pkts_per_sec := 20000\<rparr>) (map Uint322ip nets) 8 @
          panics (assign_found (se_items env) (se_keys env) m))"

text \<open>What follows the reading of the forwarders; a mode that does not exist ends the run.\<close>

definition forwarders_acts :: "start_env \<Rightarrow> Cfg_db \<Rightarrow> string \<Rightarrow> act list \<Rightarrow> act list" where
  "forwarders_acts env cfg fname rest =
     (case se_lines env fname of
        None \<Rightarrow> [Panics (LogFatal ''open'')]
      | Some ls \<Rightarrow> (case read_forwarders cfg Ret ls of
          Panic e \<Rightarrow> [Panics e]
        | Ret (m, ok) \<Rightarrow> (if Rate_mode cfg = ''probe'' then probe_acts env cfg m else []) @
            (if ok then rest else [])))"

definition inject_acts :: "Cfg_db \<Rightarrow> act list" where
  "inject_acts cfg = senders Sender_wg (map R_inject [0..<nat (Rate_inject_routines cfg)]) @ [Wait Sender_wg]"

definition domains_acts :: "start_env \<Rightarrow> Cfg_db \<Rightarrow> act list" where
  "domains_acts env cfg =
     (let read = (\<lambda>mx. case se_lines env (Domain_list cfg) of
                     None \<Rightarrow> [Panics (LogFatal ''open'')] | Some ls \<Rightarrow> panics (read_domains mx ls [])) in
      if Domain_mode cfg = ''list'' then read 0
      else if Domain_mode cfg = ''inject'' then read (Rate_inject_count cfg) @ inject_acts cfg
      else [])"

text \<open>
  The writer of the results is in no group; main takes the lock \<open>open_writer\<close> before it closes the stop
  channel (theory \<open>RateEnd\<close>).
\<close>

definition ratetest_acts :: "start_env \<Rightarrow> Cfg_db \<Rightarrow> string \<Rightarrow> act list" where
  "ratetest_acts env cfg outpath =
     domains_acts env cfg @ Get_ether_handle env @
     [Add Wg 1, Go (Some Wg) R_Packet_capture, Go None (R_rate_writer outpath)] @
     senders Sender_wg (map R_send_packets [0..<routines cfg]) @
     [Wait Sender_wg, Close_stop, Wait Wg, Unbind]"

definition Start_ratetest :: "start_env \<Rightarrow> Cfg_db \<Rightarrow> string list \<Rightarrow> string \<Rightarrow> act list" where
  "Start_ratetest env cfg args outpath =
     (case rate_curve_of cfg of None \<Rightarrow> []
      | Some curve \<Rightarrow> udp_Sender_init env cfg @ Base_init env @ [Bind] @
          (case args of [] \<Rightarrow> []
           | a # more_args \<Rightarrow> (case Get_cidr_filename (se_stat env) a of
               Inl code \<Rightarrow> [Exits code]
             | Inr (fname, netip, hostsize) \<Rightarrow>
                 if fname \<noteq> '''' then forwarders_acts env cfg fname (ratetest_acts env cfg outpath)
                 else ratetest_acts env cfg outpath)))"

end
