(* ===== verification/StartSystem.thy ===== *)
theory StartSystem
  imports Startup
begin

section \<open>A module running: the script of main and the routines it has started\<close>

datatype ending = Exited ExitCode | Crashed go_panic

text \<open>
  \<open>pr_chain\<close> is the OUTPUT chain of the firewall and the field \<open>Set_iptables\<close>, \<open>pr_bound\<close> the UDP ports
  the program holds, \<open>pr_raw\<close> whether \<open>L3_Raw_con\<close> has been set.
\<close>

record proc =
  pr_script :: "act list"
  pr_alive :: "(group option \<times> routine) multiset"
  pr_count :: "group \<Rightarrow> int"
  pr_chain :: "string list \<times> bool"
  pr_bound :: "u32 list"
  pr_raw :: bool
  pr_stop :: bool
  pr_end :: "ending option"

definition rst_rule :: string where
  "rst_rule = ''-p tcp --tcp-flags RST RST -j DROP''"

definition die :: "ending \<Rightarrow> proc \<Rightarrow> proc" where
  "die e s = s\<lparr>pr_script := [], pr_alive := {#}, pr_end := Some e\<rparr>"

text \<open>What main does; \<open>s\<close> has the rest of the script already.\<close>

fun exec :: "start_env \<Rightarrow> Cfg_db \<Rightarrow> act \<Rightarrow> proc \<Rightarrow> proc" where
  "exec env cfg (Add g n) s = s\<lparr>pr_count := (pr_count s)(g := pr_count s g + int n)\<rparr>"
| "exec env cfg (Go g r) s = s\<lparr>pr_alive := add_mset (g, r) (pr_alive s)\<rparr>"
| "exec env cfg (Wait g) s = s"
| "exec env cfg Set_rule s = s\<lparr>pr_chain := Set_iptable_rule (se_sudo env) rst_rule (pr_chain s)\<rparr>"
| "exec env cfg Remove_rule s = s\<lparr>pr_chain := Remove_iptable_rule (se_sudo env) rst_rule (pr_chain s)\<rparr>"
| "exec env cfg Bind s = s\<lparr>pr_bound := Bind_ports cfg (se_can_bind env)\<rparr>"
| "exec env cfg Unbind s = s\<lparr>pr_bound := []\<rparr>"
| "exec env cfg Raw_con s = s\<lparr>pr_raw := True\<rparr>"
| "exec env cfg Close_stop s = s\<lparr>pr_stop := True\<rparr>"
| "exec env cfg (Exits code) s = die (Exited code) s"
| "exec env cfg (Panics e) s = die (Crashed e) s"

text \<open>\<open>Wait\<close> blocks until the counter of the group is zero.\<close>

fun ready :: "act \<Rightarrow> proc \<Rightarrow> bool" where
  "ready (Wait g) s \<longleftrightarrow> pr_count s g = 0"
| "ready a s \<longleftrightarrow> True"

text \<open>
  The routines that close the stop channel, and those that run until it is closed. The handler of a packet,
  \<open>R_Process_pkt\<close>, is started by the capture for each packet, in no group, and returns when it is done.
\<close>

fun closes_stop :: "routine \<Rightarrow> bool" where
  "closes_stop R_Handle_ctrl_c = True"
| "closes_stop (R_Read_ips_file f) = True"
| "closes_stop (R_gen_ips a n) = True"
| "closes_stop (R_gen_ips_nets ns n) = True"
| "closes_stop R_close_later = True"
| "closes_stop r = False"

fun until_stop :: "routine \<Rightarrow> bool" where
  "until_stop (R_inject i) = False"
| "until_stop (R_send_packets i) = False"
| "until_stop R_Process_pkt = False"
| "until_stop r = (\<not> closes_stop r)"

definition leave :: "group option \<Rightarrow> routine \<Rightarrow> proc \<Rightarrow> proc" where
  "leave g r s = s\<lparr>pr_alive := pr_alive s - {#(g, r)#},
     pr_count := (case g of None \<Rightarrow> pr_count s | Some h \<Rightarrow> (pr_count s)(h := pr_count s h - 1))\<rparr>"

inductive proc_step :: "start_env \<Rightarrow> Cfg_db \<Rightarrow> proc \<Rightarrow> proc \<Rightarrow> bool" for env cfg where
  Main: "pr_script s = a # as \<Longrightarrow> ready a s \<Longrightarrow> proc_step env cfg s (exec env cfg a (s\<lparr>pr_script := as\<rparr>))"
| Done: "(g, r) \<in># pr_alive s \<Longrightarrow> until_stop r \<longrightarrow> pr_stop s \<Longrightarrow> proc_step env cfg s (leave g r s)"
| Stop: "(g, r) \<in># pr_alive s \<Longrightarrow> closes_stop r \<Longrightarrow> proc_step env cfg s (s\<lparr>pr_stop := True\<rparr>)"
| Spawn: "(g, R_Packet_capture) \<in># pr_alive s \<Longrightarrow>
    proc_step env cfg s (s\<lparr>pr_alive := add_mset (None, R_Process_pkt) (pr_alive s)\<rparr>)"
| Crash: "(g, r) \<in># pr_alive s \<Longrightarrow> proc_step env cfg s (die (Crashed e) s)"

definition proc_init :: "string list \<Rightarrow> act list \<Rightarrow> proc" where
  "proc_init chain as = \<lparr>pr_script = as, pr_alive = {#}, pr_count = (\<lambda>g. 0), pr_chain = (chain, False),
     pr_bound = [], pr_raw = False, pr_stop = False, pr_end = None\<rparr>"

inductive proc_run :: "start_env \<Rightarrow> Cfg_db \<Rightarrow> string list \<Rightarrow> act list \<Rightarrow> proc \<Rightarrow> bool" for env cfg chain as where
  Begin: "proc_run env cfg chain as (proc_init chain as)"
| Next: "proc_run env cfg chain as s \<Longrightarrow> proc_step env cfg s s' \<Longrightarrow> proc_run env cfg chain as s'"

lemma die_simps [simp]:
  "pr_script (die e s) = []" "pr_alive (die e s) = {#}" "pr_end (die e s) = Some e"
  "pr_count (die e s) = pr_count s" "pr_chain (die e s) = pr_chain s" "pr_bound (die e s) = pr_bound s"
  "pr_raw (die e s) = pr_raw s"
  by (simp_all add: die_def)

lemma leave_simps [simp]:
  "pr_script (leave g r s) = pr_script s" "pr_chain (leave g r s) = pr_chain s"
  "pr_bound (leave g r s) = pr_bound s" "pr_raw (leave g r s) = pr_raw s" "pr_end (leave g r s) = pr_end s"
  "pr_alive (leave g r s) = pr_alive s - {#(g, r)#}"
  by (simp_all add: leave_def)

subsection \<open>Counting\<close>

text \<open>
  The check of a script against a group: \<open>c\<close> routines have been added and not started yet. A routine is
  added before it starts, and main waits only when all that were added have been started.
\<close>

fun counts :: "group \<Rightarrow> nat \<Rightarrow> act list \<Rightarrow> bool" where
  "counts g c [] \<longleftrightarrow> True"
| "counts g c (Add h n # as) \<longleftrightarrow> counts g (if h = g then c + n else c) as"
| "counts g c (Go x r # as) \<longleftrightarrow> (if x = Some g then 0 < c \<and> counts g (c - 1) as else counts g c as)"
| "counts g c (Wait h # as) \<longleftrightarrow> (h = g \<longrightarrow> c = 0) \<and> counts g c as"
| "counts g c (a # as) \<longleftrightarrow> counts g c as"

definition alive_in :: "group \<Rightarrow> proc \<Rightarrow> nat" where
  "alive_in g s = size (filter_mset (\<lambda>x. fst x = Some g) (pr_alive s))"

definition counted :: "group \<Rightarrow> proc \<Rightarrow> bool" where
  "counted g s \<longleftrightarrow> (\<exists>c. pr_count s g = int (alive_in g s) + int c \<and> counts g c (pr_script s))"

lemma counted_die: "counted g s \<Longrightarrow> counted g (die e s)"
  unfolding counted_def alive_in_def by (auto intro!: exI [of _ "nat (pr_count s g)"])

lemma counted_exec:
  assumes "counted g s" and "pr_script s = a # as"
  shows "counted g (exec env cfg a (s\<lparr>pr_script := as\<rparr>))"
proof -
  obtain c where c: "pr_count s g = int (alive_in g s) + int c" "counts g c (a # as)"
    using assms by (auto simp: counted_def)
  have ended: "counted g (s\<lparr>pr_script := [], pr_alive := {#}, pr_end := x\<rparr>)" for x
    using c(1) by (auto simp: counted_def alive_in_def intro!: exI [of _ "nat (pr_count s g)"])
  show ?thesis
  proof (cases a)
    case (Add h n)
    with c show ?thesis by (auto simp: counted_def alive_in_def intro!: exI [of _ "if h = g then c + n else c"])
  next
    case (Go x r)
    with c show ?thesis
      by (auto simp: counted_def alive_in_def intro!: exI [of _ "if x = Some g then c - 1 else c"])
  qed (use c ended in \<open>auto simp: counted_def alive_in_def die_def\<close>)
qed

lemma alive_in_leave:
  assumes "(x, r) \<in># pr_alive s"
  shows "alive_in g (leave x r s) = alive_in g s - (if x = Some g then 1 else 0)"
    and "x = Some g \<Longrightarrow> 0 < alive_in g s"
proof -
  obtain M where M: "pr_alive s = add_mset (x, r) M" using multi_member_split [OF assms] ..
  show "alive_in g (leave x r s) = alive_in g s - (if x = Some g then 1 else 0)"
    and "x = Some g \<Longrightarrow> 0 < alive_in g s" by (simp_all add: alive_in_def M)
qed

lemma counted_step: "proc_step env cfg s s' \<Longrightarrow> counted g s \<Longrightarrow> counted g s'"
proof (induction rule: proc_step.induct)
  case (Main s a as)
  then show ?case using counted_exec by blast
next
  case (Done x r s)
  then obtain c where "pr_count s g = int (alive_in g s) + int c" "counts g c (pr_script s)"
    by (auto simp: counted_def)
  with alive_in_leave [OF Done(1), of g] show ?case
    unfolding counted_def by (auto simp: leave_def alive_in_def split: option.splits intro!: exI [of _ c])
next
  case (Stop x r s)
  then show ?case by (auto simp: counted_def alive_in_def)
next
  case (Spawn x s)
  then show ?case by (auto simp: counted_def alive_in_def)
next
  case (Crash x r s e)
  from Crash.prems show ?case by (rule counted_die)
qed

lemma proc_run_counted: "proc_run env cfg chain as s \<Longrightarrow> counts g 0 as \<Longrightarrow> counted g s"
proof (induction rule: proc_run.induct)
  case Begin
  then show ?case by (simp add: counted_def alive_in_def proc_init_def)
qed (use counted_step in blast)

subsection \<open>What the routines of a group rely on\<close>

text \<open>
  The check of a script against a resource: \<open>held\<close> tells whether it is held, \<open>quiet\<close> that no routine of the
  group can be alive. A routine of the group starts only while the resource is held, the resource is released
  only when the group is quiet, and the group is quiet at the end.
\<close>

fun cover :: "act \<Rightarrow> (act \<Rightarrow> bool) \<Rightarrow> group \<Rightarrow> bool \<Rightarrow> bool \<Rightarrow> act list \<Rightarrow> bool" where
  "cover on off g held quiet [] \<longleftrightarrow> quiet"
| "cover on off g held quiet (a # as) \<longleftrightarrow>
     (if a = on then cover on off g True quiet as
      else if off a then quiet \<and> cover on off g False quiet as
      else case a of
        Wait h \<Rightarrow> cover on off g held (quiet \<or> h = g) as
      | Go x r \<Rightarrow> if x = Some g then held \<and> cover on off g held False as else cover on off g held quiet as
      | _ \<Rightarrow> cover on off g held quiet as)"

text \<open>The acts that neither start nor wait nor end.\<close>

fun plain :: "act \<Rightarrow> bool" where
  "plain (Go x r) = False"
| "plain (Wait g) = False"
| "plain (Exits code) = False"
| "plain (Panics e) = False"
| "plain a = True"

lemma exec_plain:
  "plain a \<Longrightarrow> pr_script (exec env cfg a s) = pr_script s"
  "plain a \<Longrightarrow> alive_in g (exec env cfg a s) = alive_in g s"
  by (cases a; simp add: alive_in_def)+

lemma alive_in_exec_Go:
  "alive_in g (exec env cfg (Go x r) s) = alive_in g s + (if x = Some g then 1 else 0)"
  by (simp add: alive_in_def)

lemma alive_in_script [simp]: "alive_in g (s\<lparr>pr_script := as\<rparr>) = alive_in g s"
  by (simp add: alive_in_def)

lemma cover_plain:
  "plain a \<Longrightarrow> cover on off g held quiet (a # as) \<longleftrightarrow>
    (if a = on then cover on off g True quiet as else if off a then quiet \<and> cover on off g False quiet as
     else cover on off g held quiet as)"
  by (cases a) simp_all

text \<open>
  A resource of a module: what acquires it, what releases it, and what holding it means. Holding it
  depends on the firewall, the ports and the raw connection only.
\<close>

locale resource =
  fixes on :: act and off :: "act \<Rightarrow> bool" and held :: "start_env \<Rightarrow> Cfg_db \<Rightarrow> proc \<Rightarrow> bool"
  assumes acquire: "held env cfg (exec env cfg on s)"
    and keep: "\<not> off a \<Longrightarrow> held env cfg s \<Longrightarrow> held env cfg (exec env cfg a s)"
    and frame: "pr_chain s' = pr_chain s \<Longrightarrow> pr_bound s' = pr_bound s \<Longrightarrow> pr_raw s' = pr_raw s \<Longrightarrow>
      held env cfg s' = held env cfg s"
    and on_plain: "plain on" and off_plain: "off a \<Longrightarrow> plain a"
begin

definition covered :: "start_env \<Rightarrow> Cfg_db \<Rightarrow> group \<Rightarrow> proc \<Rightarrow> bool" where
  "covered env cfg g s \<longleftrightarrow> (\<exists>got quiet. cover on off g got quiet (pr_script s) \<and>
     (got \<longrightarrow> held env cfg s) \<and> (\<not> got \<or> quiet \<longrightarrow> alive_in g s = 0))"

lemma coveredI:
  "cover on off g got quiet (pr_script s) \<Longrightarrow> (got \<Longrightarrow> held env cfg s) \<Longrightarrow>
    (\<not> got \<or> quiet \<Longrightarrow> alive_in g s = 0) \<Longrightarrow> covered env cfg g s"
  unfolding covered_def by blast

lemma covered_quiet: "pr_script s = [] \<Longrightarrow> alive_in g s = 0 \<Longrightarrow> covered env cfg g s"
  unfolding covered_def by (rule exI [of _ False], rule exI [of _ True]) simp

lemma covered_exec:
  assumes "covered env cfg g s" and "counted g s" and "pr_script s = a # as" and "ready a s"
  shows "covered env cfg g (exec env cfg a (s\<lparr>pr_script := as\<rparr>))"
proof -
  let ?t = "s\<lparr>pr_script := as\<rparr>" and ?s' = "exec env cfg a (s\<lparr>pr_script := as\<rparr>)"
  obtain got quiet where c: "cover on off g got quiet (a # as)" "got \<longrightarrow> held env cfg s"
    "\<not> got \<or> quiet \<longrightarrow> alive_in g s = 0" using assms by (auto simp: covered_def)
  have t: "got \<longrightarrow> held env cfg ?t" using c(2) frame [of ?t s env cfg] by simp
  have go: "covered env cfg g ?s'"
    if "cover on off g got' quiet' as" "pr_script ?s' = as" "got' \<longrightarrow> held env cfg ?s'"
      "\<not> got' \<or> quiet' \<longrightarrow> alive_in g ?s' = 0" for got' quiet'
    by (rule coveredI [of g got' quiet']) (use that in auto)
  have w: "alive_in g s = 0" if "a = Wait g"
    using that assms(2,4) by (auto simp: counted_def)
  have on: "held env cfg ?s'" if "a = on" using acquire that by simp
  have k: "got \<longrightarrow> held env cfg ?s'" if "\<not> off a" using keep t that by blast
  show ?thesis
  proof (cases "plain a")
    case True
    note p = exec_plain(1) [OF True, of env cfg ?t] exec_plain(2) [OF True, of g env cfg ?t]
    show ?thesis
    proof (cases "a = on")
      case on: True
      then have "cover on off g True quiet as" using c(1) unfolding cover_plain [OF True] by simp
      then show ?thesis by (rule go) (use on c(3) p \<open>a = on \<Longrightarrow> held env cfg ?s'\<close> in auto)
    next
      case False
      then have "cover on off g (got \<and> \<not> off a) quiet as" "off a \<longrightarrow> quiet"
        using c(1) False unfolding cover_plain [OF True] by (auto split: if_splits)
      then show ?thesis by (intro go [of "got \<and> \<not> off a" quiet]) (use c(3) p k in auto)
    qed
  next
    case False
    then have n: "a \<noteq> on" "\<not> off a" using on_plain off_plain by blast+
    show ?thesis
    proof (cases a)
      case (Wait h)
      have "cover on off g got (quiet \<or> h = g) as" using c(1) n Wait by simp
      then show ?thesis by (rule go) (use c(3) k n w in \<open>auto simp: Wait\<close>)
    next
      case (Go x r)
      have "cover on off g got (quiet \<and> x \<noteq> Some g) as" and x: "x = Some g \<longrightarrow> got"
        using c(1) n Go by (auto split: if_splits)
      moreover have "pr_script ?s' = as" by (simp add: Go)
      moreover have "\<not> got \<or> quiet \<and> x \<noteq> Some g \<longrightarrow> alive_in g ?s' = 0"
        unfolding Go alive_in_exec_Go using c(3) x by auto
      ultimately show ?thesis using k n by (intro go)
    qed (use False in \<open>auto intro!: covered_quiet simp: alive_in_def\<close>)
  qed
qed

lemma covered_step:
  assumes "proc_step env cfg s s'" and "covered env cfg g s" and "counted g s"
  shows "covered env cfg g s'"
  using assms(1)
proof cases
  case (Main a as)
  with assms(2,3) covered_exec show ?thesis by blast
next
  case (Done x r)
  obtain got quiet where c: "cover on off g got quiet (pr_script s)" "got \<longrightarrow> held env cfg s"
    "\<not> got \<or> quiet \<longrightarrow> alive_in g s = 0" using assms(2) by (auto simp: covered_def)
  have "held env cfg s' = held env cfg s" by (rule frame) (simp_all add: Done)
  with c show ?thesis
    by (intro coveredI [of g got quiet]) (simp_all add: Done(1) alive_in_leave(1) [OF Done(2)])
next
  case (Stop x r)
  have "held env cfg s' = held env cfg s" by (rule frame) (simp_all add: Stop)
  with assms(2) show ?thesis unfolding covered_def Stop by (auto simp: alive_in_def)
next
  case (Spawn x)
  have "held env cfg s' = held env cfg s" by (rule frame) (simp_all add: Spawn)
  with assms(2) show ?thesis unfolding covered_def Spawn by (auto simp: alive_in_def)
next
  case (Crash x r e)
  then show ?thesis by (intro covered_quiet) (simp_all add: alive_in_def)
qed

lemma cover_panics: "cover on off g got quiet (panics m @ as) \<longleftrightarrow> cover on off g got quiet as"
  using on_plain off_plain [of "Panics e" for e] by (auto simp: panics_def split: outcome.split)

lemma cover_ensure: "cover on off g got quiet (ensure b msg @ as) \<longleftrightarrow> cover on off g got quiet as"
  using on_plain off_plain [of "Panics (PanicError msg)"] by (auto simp: ensure_def)

lemma cover_senders:
  assumes "on \<noteq> Add h 1" and "\<not> off (Add h 1)"
  shows "cover on off g got quiet (senders h rs @ as) \<longleftrightarrow>
    (if h = g \<and> rs \<noteq> [] then got \<and> cover on off g got False as else cover on off g got quiet as)"
proof (induction rs arbitrary: quiet)
  case Nil
  then show ?case by (simp add: senders_def)
next
  case (Cons r rs)
  have "on \<noteq> Go (Some h) r" "\<not> off (Go (Some h) r)"
    using on_plain off_plain [of "Go (Some h) r"] by auto
  with assms Cons.IH [of quiet] Cons.IH [of False] show ?case
    by (cases "h = g"; cases "rs = []"; cases got) (simp_all add: senders_def)
qed

text \<open>While a routine of the group is alive the resource is held; when main is at its end, none is alive.\<close>

lemma held_while_alive:
  assumes "proc_run env cfg chain as s" and "counts g 0 as" and "cover on off g False True as"
  shows "0 < alive_in g s \<Longrightarrow> held env cfg s" and "pr_script s = [] \<Longrightarrow> alive_in g s = 0"
proof -
  have "covered env cfg g s" using assms
  proof (induction rule: proc_run.induct)
    case Begin
    then show ?case unfolding covered_def
      by (intro exI [of _ False] exI [of _ True]) (simp add: proc_init_def alive_in_def)
  next
    case (Next s s')
    then show ?case using covered_step proc_run_counted by blast
  qed
  then obtain got quiet where "cover on off g got quiet (pr_script s)" "got \<longrightarrow> held env cfg s"
    "\<not> got \<or> quiet \<longrightarrow> alive_in g s = 0" unfolding covered_def by blast
  then show "0 < alive_in g s \<Longrightarrow> held env cfg s" and "pr_script s = [] \<Longrightarrow> alive_in g s = 0" by auto
qed

end

interpretation rule: resource Set_rule "\<lambda>a. a = Remove_rule"
  "\<lambda>env cfg s. se_sudo env \<longrightarrow> rst_rule \<in> set (fst (pr_chain s))"
proof
  fix env :: start_env and cfg :: Cfg_db and s :: proc and a :: act
  show "se_sudo env \<longrightarrow> rst_rule \<in> set (fst (pr_chain (exec env cfg Set_rule s)))"
    by (auto simp: Set_iptable_rule_def check_rule_def append_rule_def)
  assume "a \<noteq> Remove_rule" "se_sudo env \<longrightarrow> rst_rule \<in> set (fst (pr_chain s))"
  then show "se_sudo env \<longrightarrow> rst_rule \<in> set (fst (pr_chain (exec env cfg a s)))"
    by (cases a) (auto simp: Set_iptable_rule_def check_rule_def append_rule_def)
qed auto

interpretation ports: resource Bind "\<lambda>a. a = Unbind"
  "\<lambda>env cfg s. pr_bound s = Bind_ports cfg (se_can_bind env)"
proof
  fix env :: start_env and cfg :: Cfg_db and s :: proc and a :: act
  assume "a \<noteq> Unbind" "pr_bound s = Bind_ports cfg (se_can_bind env)"
  then show "pr_bound (exec env cfg a s) = Bind_ports cfg (se_can_bind env)" by (cases a) auto
qed auto

interpretation raw: resource Raw_con "\<lambda>a. False" "\<lambda>env cfg s. pr_raw s"
proof
  fix env :: start_env and cfg :: Cfg_db and s :: proc and a :: act
  assume "pr_raw s"
  then show "pr_raw (exec env cfg a s)" by (cases a) auto
qed auto

subsection \<open>The scripts of the modules\<close>

lemma counts_append_neutral [simp]:
  "counts g c (panics m @ as) \<longleftrightarrow> counts g c as" "counts g c (ensure b msg @ as) \<longleftrightarrow> counts g c as"
  by (auto simp: panics_def ensure_def split: outcome.split)

lemma counts_senders [simp]: "counts g c (senders h rs @ as) \<longleftrightarrow> counts g c as"
  by (induction rs) (auto simp: senders_def)

lemmas script_simps = rule.cover_panics rule.cover_ensure rule.cover_senders ports.cover_panics
  ports.cover_ensure ports.cover_senders raw.cover_panics raw.cover_ensure raw.cover_senders

lemmas init_defs = Scanner_init_def Base_init_def udp_Sender_init_def tcp_Sender_init_def
  raw_connection_def Get_ether_handle_def scan_routines_def

lemma udp_script:
  "counts g 0 (udp_Start_scan env cfg os_Args args out)"
  "cover Bind (\<lambda>a. a = Unbind) g False True (udp_Start_scan env cfg os_Args args out)"
  "cover Raw_con (\<lambda>a. False) g False True (udp_Start_scan env cfg os_Args args out)"
  by (auto simp: udp_Start_scan_def init_defs script_simps split: outcome.split option.split sum.split)

lemma internal_script:
  "counts g 0 (udp_Start_internal h env cfg nets n @ as) \<longleftrightarrow> counts g 0 as"
  "cover Bind (\<lambda>a. a = Unbind) g True True (udp_Start_internal h env cfg nets n @ as) \<longleftrightarrow>
     cover Bind (\<lambda>a. a = Unbind) g True True as"
  "cover Raw_con (\<lambda>a. False) g got True (udp_Start_internal h env cfg nets n @ as) \<longleftrightarrow>
     cover Raw_con (\<lambda>a. False) g True True as"
  by (auto simp: udp_Start_internal_def init_defs script_simps)

lemma tcp_script:
  "counts g 0 (tcp_Start_scan env cfg args out)"
  "cover Set_rule (\<lambda>a. a = Remove_rule) g False True (tcp_Start_scan env cfg args out)"
  "cover Raw_con (\<lambda>a. False) g False True (tcp_Start_scan env cfg args out)"
  by (auto simp: tcp_Start_scan_def init_defs script_simps split: list.split sum.split)

lemma trt_script:
  "counts g 0 (Start_traceroute env cfg args)"
  "cover Set_rule (\<lambda>a. a = Remove_rule) g False True (Start_traceroute env cfg args)"
  by (auto simp: Start_traceroute_def init_defs script_simps split: trt_target.split)

lemma domains_script:
  "counts g 0 (domains_acts env cfg @ as) \<longleftrightarrow> counts g 0 as"
  "cover Bind (\<lambda>a. a = Unbind) g True True (domains_acts env cfg @ as) \<longleftrightarrow>
     cover Bind (\<lambda>a. a = Unbind) g True True as"
  "cover Raw_con (\<lambda>a. False) g True True (domains_acts env cfg @ as) \<longleftrightarrow>
     cover Raw_con (\<lambda>a. False) g True True as"
  by (auto simp: domains_acts_def inject_acts_def Let_def script_simps split: option.split)

lemma ratetest_script:
  "counts g 0 (ratetest_acts env cfg out)"
  "cover Bind (\<lambda>a. a = Unbind) g True True (ratetest_acts env cfg out)"
  "cover Raw_con (\<lambda>a. False) g True True (ratetest_acts env cfg out)"
  unfolding ratetest_acts_def by (auto simp: domains_script init_defs script_simps)

lemma forwarders_script:
  "counts g 0 as \<Longrightarrow> counts g 0 (forwarders_acts env cfg f as)"
  "cover Bind (\<lambda>a. a = Unbind) g True True as \<Longrightarrow> cover Bind (\<lambda>a. a = Unbind) g True True (forwarders_acts env cfg f as)"
  "cover Raw_con (\<lambda>a. False) g True True as \<Longrightarrow> cover Raw_con (\<lambda>a. False) g True True (forwarders_acts env cfg f as)"
  by (auto simp: forwarders_acts_def probe_acts_def internal_script script_simps split: option.split outcome.split;
      auto simp: panics_def split: outcome.split)+

lemma rate_script:
  "counts g 0 (Start_ratetest env cfg args out)"
  "cover Bind (\<lambda>a. a = Unbind) g False True (Start_ratetest env cfg args out)"
  "cover Raw_con (\<lambda>a. False) g False True (Start_ratetest env cfg args out)"
  by (auto simp: Start_ratetest_def init_defs script_simps forwarders_script ratetest_script
      split: option.split list.split sum.split)

subsection \<open>Starting and waiting\<close>

definition orderly :: "group \<Rightarrow> bool \<Rightarrow> proc \<Rightarrow> bool" where
  "orderly g need s \<longleftrightarrow> 0 \<le> pr_count s g \<and> (0 < alive_in g s \<longrightarrow> need) \<and> (pr_script s = [] \<longrightarrow> alive_in g s = 0)"

lemma orderlyI:
  assumes "proc_run env cfg chain as s" and "counts g 0 as"
    and "0 < alive_in g s \<Longrightarrow> need" and "pr_script s = [] \<Longrightarrow> alive_in g s = 0"
  shows "orderly g need s"
  using proc_run_counted [OF assms(1,2)] assms(3,4) by (auto simp: orderly_def counted_def)

definition has_ports :: "start_env \<Rightarrow> Cfg_db \<Rightarrow> proc \<Rightarrow> bool" where
  "has_ports env cfg s \<longleftrightarrow> pr_raw s \<and> pr_bound s = Bind_ports cfg (se_can_bind env)"

definition has_rule :: "proc \<Rightarrow> bool" where
  "has_rule s \<longleftrightarrow> rst_rule \<in> set (fst (pr_chain s))"

subsection \<open>The handlers of packets\<close>

text \<open>The scripts start every capture in a group, and no handler.\<close>

definition grouped :: "act list \<Rightarrow> bool" where
  "grouped as \<longleftrightarrow> (\<forall>x r. Go x r \<in> set as \<longrightarrow> r \<noteq> R_Process_pkt \<and> (r = R_Packet_capture \<longrightarrow> x \<noteq> None))"

lemma grouped_simps [simp]:
  "grouped []" "grouped (as @ bs) \<longleftrightarrow> grouped as \<and> grouped bs"
  "grouped (Go x r # as) \<longleftrightarrow> r \<noteq> R_Process_pkt \<and> (r = R_Packet_capture \<longrightarrow> x \<noteq> None) \<and> grouped as"
  "(\<And>x r. a \<noteq> Go x r) \<Longrightarrow> grouped (a # as) \<longleftrightarrow> grouped as"
  by (auto simp: grouped_def)

lemma grouped_parts [simp]:
  "grouped (panics m)" "grouped (ensure b msg)" "grouped (senders g rs) \<longleftrightarrow> R_Process_pkt \<notin> set rs"
  by (auto simp: grouped_def panics_def ensure_def senders_def split: outcome.split)

lemma grouped_init [simp]:
  "grouped (Base_init env)" "grouped (Scanner_init env)" "grouped (raw_connection env)"
  "grouped (udp_Sender_init env cfg)" "grouped (tcp_Sender_init env)" "grouped (Get_ether_handle env)"
  by (simp_all add: init_defs)

lemma grouped_scan_routines [simp]:
  "grouped (scan_routines g n w u) \<longleftrightarrow> w \<noteq> R_Process_pkt \<and> u \<noteq> R_Process_pkt"
  by (auto simp: scan_routines_def)

lemma grouped_modules:
  "grouped (udp_Start_scan env cfg os_Args args out)" "grouped (tcp_Start_scan env cfg args out)"
  "grouped (Start_traceroute env cfg targs)"
  by (auto simp: udp_Start_scan_def tcp_Start_scan_def Start_traceroute_def scan_supplier_def
      split: outcome.split option.split sum.split list.split trt_target.split)

lemma grouped_ratetest: "grouped (Start_ratetest env cfg args out)"
proof -
  have d: "grouped (domains_acts env cfg)"
    by (auto simp: domains_acts_def inject_acts_def Let_def split: option.split)
  have p: "grouped (probe_acts env cfg m)" for m
    by (auto simp: probe_acts_def udp_Start_internal_def split: outcome.split)
  have r: "grouped (ratetest_acts env cfg out)" by (auto simp: ratetest_acts_def d)
  then have f: "grouped (forwarders_acts env cfg fname (ratetest_acts env cfg out))" for fname
    by (auto simp: forwarders_acts_def p split: option.split outcome.split)
  show ?thesis by (auto simp: Start_ratetest_def r f split: option.split list.split sum.split)
qed

lemma grouped_run:
  assumes "proc_run env cfg chain as s" and "grouped as"
  shows "grouped (pr_script s) \<and> (None, R_Packet_capture) \<notin># pr_alive s"
  using assms
proof (induction rule: proc_run.induct)
  case Begin
  then show ?case by (simp add: proc_init_def)
next
  case (Next s s')
  from Next.hyps(2) show ?case
  proof cases
    case (Main a as')
    with Next show ?thesis by (cases a) (auto simp: die_def)
  qed (use Next in \<open>auto dest: in_diffD\<close>)
qed

text \<open>A step that starts the handler of a packet.\<close>

definition starts_handler :: "proc \<Rightarrow> proc \<Rightarrow> bool" where
  "starts_handler s s' \<longleftrightarrow> count (pr_alive s) (None, R_Process_pkt) < count (pr_alive s') (None, R_Process_pkt)"

definition handlers_have :: "start_env \<Rightarrow> Cfg_db \<Rightarrow> bool \<Rightarrow> proc \<Rightarrow> bool" where
  "handlers_have env cfg need s \<longleftrightarrow> (\<forall>s'. proc_step env cfg s s' \<and> starts_handler s s' \<longrightarrow> need)"

lemma handlers_haveI:
  assumes run: "proc_run env cfg chain as s" and g: "grouped as" and need: "\<And>h. 0 < alive_in h s \<Longrightarrow> need"
  shows "handlers_have env cfg need s"
  unfolding handlers_have_def
proof (intro allI impI)
  fix s' assume h: "proc_step env cfg s s' \<and> starts_handler s s'"
  then have "proc_step env cfg s s'" by blast
  then show need
  proof cases
    case (Main a as')
    have "grouped (pr_script s)" using grouped_run [OF run g] by blast
    with Main h show ?thesis by (cases a) (auto simp: starts_handler_def die_def)
  next
    case (Spawn x)
    then obtain j where x: "x = Some j" using grouped_run [OF run g] by (cases x) auto
    obtain M where "pr_alive s = add_mset (Some j, R_Packet_capture) M"
      using multi_member_split [OF Spawn(2)] x by blast
    then have "0 < alive_in j s" by (simp add: alive_in_def)
    then show ?thesis by (rule need)
  qed (use h in \<open>auto simp: starts_handler_def\<close>)
qed

text \<open>
  C14. In every run of the UDP scan, the TCP scan, a traceroute or a rate test, whatever its routines do
  and wherever it fails: no counter of a wait group is ever negative (which would be a panic); a routine of
  a group is alive only while what it needs is there: the raw connection and the bound ports for the UDP
  scan and the rate test, the raw connection and the firewall rule for the TCP scan, the rule for a
  traceroute, where the rule is there if \<open>sudo\<close> lets the program set it (the code runs on without it);
  and when main is at its end no routine of a group is left. The capture starts the handler of a packet
  only while the same things are there. The routines of no group are not waited for: the one for Ctrl-C,
  the one that ends a traceroute of one address, the writer of the rate test, and the handlers, which
  can still run and send when the rule is gone (\<open>handler_outlives_rule\<close>).
\<close>

theorem routines_have_resources:
  "(proc_run env cfg chain (udp_Start_scan env cfg os_Args args out) s \<longrightarrow>
      (\<forall>g. orderly g (has_ports env cfg s) s) \<and> handlers_have env cfg (has_ports env cfg s) s) \<and>
   (proc_run env cfg chain (Start_ratetest env cfg args out) s \<longrightarrow>
      (\<forall>g. orderly g (has_ports env cfg s) s) \<and> handlers_have env cfg (has_ports env cfg s) s) \<and>
   (proc_run env cfg chain (tcp_Start_scan env cfg args out) s \<longrightarrow>
      (\<forall>g. orderly g (pr_raw s \<and> (se_sudo env \<longrightarrow> has_rule s)) s) \<and>
      handlers_have env cfg (pr_raw s \<and> (se_sudo env \<longrightarrow> has_rule s)) s) \<and>
   (proc_run env cfg chain (Start_traceroute env cfg args) s \<longrightarrow>
      (\<forall>g. orderly g (se_sudo env \<longrightarrow> has_rule s) s) \<and> handlers_have env cfg (se_sudo env \<longrightarrow> has_rule s) s)"
proof (intro conjI impI)
  assume r: "proc_run env cfg chain (udp_Start_scan env cfg os_Args args out) s"
  have n: "has_ports env cfg s" if "0 < alive_in g s" for g
    using that ports.held_while_alive(1) [OF r udp_script(1,2)] raw.held_while_alive(1) [OF r udp_script(1,3)]
    by (auto simp: has_ports_def)
  show "\<forall>g. orderly g (has_ports env cfg s) s"
    using ports.held_while_alive(2) [OF r udp_script(1,2)] n by (auto intro: orderlyI [OF r udp_script(1)])
  show "handlers_have env cfg (has_ports env cfg s) s" using n by (rule handlers_haveI [OF r grouped_modules(1)])
next
  assume r: "proc_run env cfg chain (Start_ratetest env cfg args out) s"
  have n: "has_ports env cfg s" if "0 < alive_in g s" for g
    using that ports.held_while_alive(1) [OF r rate_script(1,2)] raw.held_while_alive(1) [OF r rate_script(1,3)]
    by (auto simp: has_ports_def)
  show "\<forall>g. orderly g (has_ports env cfg s) s"
    using ports.held_while_alive(2) [OF r rate_script(1,2)] n by (auto intro: orderlyI [OF r rate_script(1)])
  show "handlers_have env cfg (has_ports env cfg s) s" using n by (rule handlers_haveI [OF r grouped_ratetest])
next
  assume r: "proc_run env cfg chain (tcp_Start_scan env cfg args out) s"
  have n: "pr_raw s \<and> (se_sudo env \<longrightarrow> has_rule s)" if "0 < alive_in g s" for g
    using that rule.held_while_alive(1) [OF r tcp_script(1,2)] raw.held_while_alive(1) [OF r tcp_script(1,3)]
    by (auto simp: has_rule_def)
  show "\<forall>g. orderly g (pr_raw s \<and> (se_sudo env \<longrightarrow> has_rule s)) s"
    using rule.held_while_alive(2) [OF r tcp_script(1,2)] n by (auto intro: orderlyI [OF r tcp_script(1)])
  show "handlers_have env cfg (pr_raw s \<and> (se_sudo env \<longrightarrow> has_rule s)) s"
    using n by (rule handlers_haveI [OF r grouped_modules(2)])
next
  assume r: "proc_run env cfg chain (Start_traceroute env cfg args) s"
  have n: "se_sudo env \<longrightarrow> has_rule s" if "0 < alive_in g s" for g
    using that rule.held_while_alive(1) [OF r trt_script(1,2)] by (auto simp: has_rule_def)
  show "\<forall>g. orderly g (se_sudo env \<longrightarrow> has_rule s) s"
    using rule.held_while_alive(2) [OF r trt_script(1,2)] n by (auto intro: orderlyI [OF r trt_script(1)])
  show "handlers_have env cfg (se_sudo env \<longrightarrow> has_rule s) s"
    using n by (rule handlers_haveI [OF r grouped_modules(3)])
qed

subsection \<open>The firewall afterwards\<close>

text \<open>What main will still do to the chain.\<close>

fun rest_chain :: "bool \<Rightarrow> act list \<Rightarrow> string list \<times> bool \<Rightarrow> string list \<times> bool" where
  "rest_chain sudo [] ch = ch"
| "rest_chain sudo (Set_rule # as) ch = rest_chain sudo as (Set_iptable_rule sudo rst_rule ch)"
| "rest_chain sudo (Remove_rule # as) ch = rest_chain sudo as (Remove_iptable_rule sudo rst_rule ch)"
| "rest_chain sudo (Exits code # as) ch = ch"
| "rest_chain sudo (a # as) ch = rest_chain sudo as ch"

definition crashed :: "proc \<Rightarrow> bool" where
  "crashed s \<longleftrightarrow> (\<exists>e. pr_end s = Some (Crashed e))"

lemma rest_chain_neutral [simp]:
  "rest_chain sudo (panics m @ as) = rest_chain sudo as"
  "rest_chain sudo (ensure b msg @ as) = rest_chain sudo as"
  "rest_chain sudo (senders g rs @ as) = rest_chain sudo as"
  by (auto simp: panics_def ensure_def fun_eq_iff split: outcome.split) (induction rs, auto simp: senders_def)

lemma rest_chain_step:
  assumes "proc_step env cfg s s'"
  shows "crashed s' \<or> rest_chain (se_sudo env) (pr_script s') (pr_chain s') = rest_chain (se_sudo env) (pr_script s) (pr_chain s)"
  using assms(1)
proof cases
  case (Main a as)
  then show ?thesis by (cases a) (auto simp: crashed_def die_def)
qed (auto simp: crashed_def)

lemma proc_run_crashed: "proc_run env cfg chain as s \<Longrightarrow> crashed s \<Longrightarrow> pr_script s = [] \<and> pr_alive s = {#}"
proof (induction rule: proc_run.induct)
  case Begin
  then show ?case by (simp add: crashed_def proc_init_def)
next
  case (Next s s')
  from Next.hyps(2) show ?case
  proof cases
    case (Main a as')
    with Next show ?thesis by (cases a) (auto simp: crashed_def die_def)
  qed (use Next in \<open>auto simp: crashed_def\<close>)
qed

lemma rest_chain_run:
  "proc_run env cfg chain as s \<Longrightarrow>
    crashed s \<or> rest_chain (se_sudo env) (pr_script s) (pr_chain s) = rest_chain (se_sudo env) as (chain, False)"
proof (induction rule: proc_run.induct)
  case Begin
  then show ?case by (simp add: proc_init_def)
next
  case (Next s s')
  show ?case
  proof (cases "crashed s")
    case True
    then have "pr_script s = [] \<and> pr_alive s = {#}" using Next.hyps(1) proc_run_crashed by blast
    with Next.hyps(2) show ?thesis by (auto elim: proc_step.cases)
  next
    case False
    with Next.IH rest_chain_step [OF Next.hyps(2)] show ?thesis by auto
  qed
qed

definition tcp_target_ok :: "start_env \<Rightarrow> string list \<Rightarrow> bool" where
  "tcp_target_ok env args \<longleftrightarrow> (case args of [] \<Rightarrow> False
     | a # more_args \<Rightarrow> (case Get_cidr_filename (se_stat env) a of Inl e \<Rightarrow> False | Inr t \<Rightarrow> True))"

lemma tcp_rest_chain:
  "rest_chain sudo (tcp_Start_scan env cfg args out) ch =
     (let ch1 = Set_iptable_rule sudo rst_rule ch in
      if tcp_target_ok env args then Remove_iptable_rule sudo rst_rule ch1 else ch1)"
  by (auto simp: tcp_Start_scan_def init_defs tcp_target_ok_def Let_def split: list.split sum.split)

lemma trt_rest_chain:
  "rest_chain sudo (Start_traceroute env cfg args) ch =
     (let ch1 = Set_iptable_rule sudo rst_rule ch in
      if trt_start_arg args \<noteq> NoTarget then Remove_iptable_rule sudo rst_rule ch1 else ch1)"
  by (auto simp: Start_traceroute_def init_defs Let_def split: trt_target.split)

text \<open>
  C15. When a TCP scan or a traceroute has come to its end without a panic, and \<open>sudo\<close> works, the OUTPUT
  chain is the one it found, if the command line named a target. If the target is missing, or is one that
  the TCP scan takes neither for a network nor for a file (a traceroute takes every such word for the name
  of a file), the rule that drops all outgoing RST segments stays in the chain.
\<close>

theorem firewall_after_scan:
  assumes "se_sudo env" and "pr_script s = []" and "\<not> crashed s"
  shows
    "(proc_run env cfg chain (tcp_Start_scan env cfg args out) s \<longrightarrow>
       (if tcp_target_ok env args then fst (pr_chain s) = chain else has_rule s)) \<and>
     (proc_run env cfg chain (Start_traceroute env cfg args) s \<longrightarrow>
       (if trt_start_arg args \<noteq> NoTarget then fst (pr_chain s) = chain else has_rule s))"
proof -
  let ?chain1 = "Set_iptable_rule True rst_rule (chain, False)"
  have 1: "rst_rule \<in> set (fst ?chain1)" "fst (Remove_iptable_rule True rst_rule ?chain1) = chain"
    using iptables_restored(1) [of rst_rule chain "fst ?chain1" "snd ?chain1"]
      iptables_restored(2) [of rst_rule chain "fst ?chain1" "snd ?chain1" "[]"] by simp_all
  show ?thesis using assms rest_chain_run [of env cfg chain _ s]
    by (auto simp: tcp_rest_chain trt_rest_chain Let_def has_rule_def 1)
qed

subsection \<open>A UDP scan without a target\<close>

text \<open>The script ends in a panic: main comes to its end only by one.\<close>

definition to_panic :: "act list \<Rightarrow> bool" where
  "to_panic as \<longleftrightarrow> (\<exists>pre e. as = pre @ [Panics e] \<and> (\<forall>code. Exits code \<notin> set pre))"

lemma to_panic_run:
  "proc_run env cfg chain as s \<Longrightarrow> to_panic as \<Longrightarrow> crashed s \<or> to_panic (pr_script s)"
proof (induction rule: proc_run.induct)
  case Begin
  then show ?case by (simp add: proc_init_def)
next
  case (Next s s')
  then have s: "crashed s \<or> to_panic (pr_script s)" by blast
  from Next.hyps(2) show ?case
  proof cases
    case (Main a as')
    then obtain pre e where p: "a # as' = pre @ [Panics e]" "\<forall>code. Exits code \<notin> set pre"
      using s proc_run_crashed [OF Next.hyps(1)] by (auto simp: to_panic_def)
    with Main show ?thesis
    proof (cases pre)
      case (Cons b bs)
      with p have "a = b" "to_panic as'" "\<forall>code. a \<noteq> Exits code" by (auto simp: to_panic_def)
      with Main show ?thesis by (cases a) (auto simp: crashed_def die_def)
    qed (auto simp: crashed_def)
  qed (use s in \<open>auto simp: crashed_def\<close>)
qed

lemma udp_without_target:
  assumes "2 \<le> length os_Args" and "proc_run env cfg chain (udp_Start_scan env cfg os_Args [] out) s"
    and "pr_script s = []"
  shows "crashed s"
proof -
  have "to_panic (udp_Start_scan env cfg os_Args [] out)"
    unfolding to_panic_def using assms(1)
    by (intro exI [of _ "Scanner_init env @ udp_Sender_init env cfg"])
      (auto simp: udp_Start_scan_def udp_start_arg_def index_def init_defs panics_def ensure_def split: outcome.split)
  from to_panic_run [OF assms(2) this] assms(3) show ?thesis by (auto simp: to_panic_def)
qed

subsection \<open>A traceroute has no raw connection\<close>

lemma trt_no_raw_con: "Raw_con \<notin> set (Start_traceroute env cfg args)"
  by (auto simp: Start_traceroute_def init_defs panics_def ensure_def senders_def
      split: outcome.split trt_target.split)

lemma no_raw_con:
  "proc_run env cfg chain as s \<Longrightarrow> Raw_con \<notin> set as \<Longrightarrow> Raw_con \<notin> set (pr_script s) \<and> \<not> pr_raw s"
proof (induction rule: proc_run.induct)
  case Begin
  then show ?case by (simp add: proc_init_def)
next
  case (Next s s')
  from Next.hyps(2) show ?case
  proof cases
    case (Main a as')
    with Next show ?thesis by (cases a) (auto simp: die_def)
  qed (use Next in auto)
qed

text \<open>
  C28. \<open>Start_traceroute\<close> never calls \<open>Sender_init\<close>, so at no time of a traceroute is the raw connection
  set: unless the Ethernet header is crafted, which is not the default, sending any packet is a panic.
\<close>

theorem traceroute_needs_ethernet:
  assumes "proc_run env cfg chain (Start_traceroute env cfg args) s" and "\<not> Craft_ethernet cfg"
  shows "\<exists>e. Send_tcp_pkt c cfg (pr_raw s) eth i t payload = Panic e"
proof -
  have raw: "\<not> pr_raw s" using no_raw_con [OF assms(1) trt_no_raw_con] by simp
  have bind: "\<exists>e. bindO (or_panic x) f = Panic e" if "\<And>y. \<exists>e. f y = Panic e" for x and f :: "'x \<Rightarrow> 'y outcome"
    using that by (cases x) (auto simp: or_panic_def)
  have "\<exists>e. send_pkt c cfg (pr_raw s) eth i t payload = Panic e"
    unfolding send_pkt_def using raw assms(2) by (simp add: bind)
  then show ?thesis by (simp add: Send_tcp_pkt_def)
qed

subsection \<open>Runs of main alone\<close>

fun run_main :: "start_env \<Rightarrow> Cfg_db \<Rightarrow> nat \<Rightarrow> proc \<Rightarrow> proc" where
  "run_main env cfg 0 s = s"
| "run_main env cfg (Suc n) s = (case pr_script s of [] \<Rightarrow> s
     | a # as \<Rightarrow> if ready a s then run_main env cfg n (exec env cfg a (s\<lparr>pr_script := as\<rparr>)) else s)"

lemma run_main_run: "proc_run env cfg chain as s \<Longrightarrow> proc_run env cfg chain as (run_main env cfg n s)"
proof (induction n arbitrary: s)
  case (Suc n)
  show ?case
  proof (cases "pr_script s")
    case (Cons a as')
    with Suc show ?thesis by (auto intro: proc_run.Next proc_step.Main)
  qed (use Suc in simp)
qed simp

definition ex_start_env :: start_env where
  "ex_start_env = \<lparr>se_iface = Some [2, 0, 0, 0, 0, 1],
     se_route = Some ''default via 192.168.1.1 dev eth0 proto dhcp metric 100'',
     se_neigh = (\<lambda>a. Some ''192.168.1.1 dev eth0 lladdr 52:54:00:12:35:02 REACHABLE''),
     se_raw = True, se_handle = True, se_sudo = True, se_can_bind = (\<lambda>p. True), se_stat = (\<lambda>f. f = ''ips.txt''),
     se_lines = (\<lambda>f. None), se_keys = [], se_items = []\<rparr>"

lemma ex_Base_init: "Base_init ex_start_env = []"
  by (simp add: Base_init_def ex_start_env_def Base_init_example panics_def)

lemma ex_target: "Get_cidr_filename (se_stat ex_start_env) ''ips.txt'' = Inr (''ips.txt'', [], 0)"
proof -
  have "Get_cidr_filename (\<lambda>f. f = ''ips.txt'') ''ips.txt'' = Inr (''ips.txt'', [], 0)" by code_simp
  then show ?thesis by (simp add: ex_start_env_def)
qed

lemma ex_sudo: "se_sudo ex_start_env"
  by (simp add: ex_start_env_def)

lemma ex_env_parts:
  "raw_connection ex_start_env = [Raw_con]" "Get_ether_handle ex_start_env = []" "routines default_cfg = 1"
  by (simp_all add: ex_start_env_def raw_connection_def Get_ether_handle_def ensure_def routines_def default_cfg_def)

lemma ex_tcp_script:
  "tcp_Start_scan ex_start_env default_cfg [''ips.txt''] ''out'' =
     [Go None R_Handle_ctrl_c, Raw_con, Set_rule, Add Wg 5, Go (Some Wg) R_Packet_capture,
      Go (Some Wg) (R_Write_results ''out''), Go (Some Wg) R_Timeout, Go (Some Wg) (R_Read_ips_file ''ips.txt''),
      Add Wg 1, Go (Some Wg) R_init_tcp, Go (Some Wg) R_Close_handle, Wait Wg, Remove_rule]"
  "tcp_Start_scan ex_start_env default_cfg [] ''out'' = [Go None R_Handle_ctrl_c, Raw_con, Set_rule]"
  by (simp_all add: tcp_Start_scan_def Scanner_init_def ex_Base_init tcp_Sender_init_def ex_env_parts ex_target
      scan_routines_def senders_def scan_supplier_def)

lemma routines_have_resources_witness:
  "let s = run_main ex_start_env default_cfg 7 (proc_init [] (tcp_Start_scan ex_start_env default_cfg [''ips.txt''] ''out''))
   in alive_in Wg s = 3 \<and> pr_count s Wg = 5 \<and> orderly Wg (pr_raw s \<and> has_rule s) s"
proof -
  let ?s = "run_main ex_start_env default_cfg 7 (proc_init [] (tcp_Start_scan ex_start_env default_cfg [''ips.txt''] ''out''))"
  have "proc_run ex_start_env default_cfg [] (tcp_Start_scan ex_start_env default_cfg [''ips.txt''] ''out'') ?s"
    by (rule run_main_run [OF proc_run.Begin])
  then have "orderly Wg (pr_raw ?s \<and> (se_sudo ex_start_env \<longrightarrow> has_rule ?s)) ?s"
    using routines_have_resources [of ex_start_env default_cfg "[]" "[]" "[''ips.txt'']" "''out''" ?s] by blast
  then have "orderly Wg (pr_raw ?s \<and> has_rule ?s) ?s" by (simp add: ex_start_env_def)
  moreover have "alive_in Wg ?s = 3 \<and> pr_count ?s Wg = 5"
    by (simp add: ex_tcp_script proc_init_def eval_nat_numeral alive_in_def)
  ultimately show ?thesis by simp
qed

text \<open>Once the stop channel is closed, any of the routines can return.\<close>

lemma leave_all:
  assumes "proc_run env cfg chain as s" and "pr_stop s" and "pr_alive s = A + B"
  shows "\<exists>s'. proc_run env cfg chain as s' \<and> pr_script s' = pr_script s \<and> pr_alive s' = B \<and> pr_chain s' = pr_chain s \<and>
    (\<forall>g. pr_count s' g = pr_count s g - int (size (filter_mset (\<lambda>x. fst x = Some g) A)))"
  using assms
proof (induction A arbitrary: s)
  case empty
  then show ?case by (intro exI [of _ s]) simp
next
  case (add x A)
  obtain g r where x: "x = (g, r)" by (cases x)
  have "proc_step env cfg s (leave g r s)"
    by (rule proc_step.Done) (use add.prems(2,3) in \<open>simp_all add: x\<close>)
  with add.prems(1) have "proc_run env cfg chain as (leave g r s)" by (rule proc_run.Next)
  from add.IH [OF this] obtain s' where s': "proc_run env cfg chain as s'" "pr_script s' = pr_script s"
    "pr_alive s' = B" "pr_chain s' = pr_chain s"
    "\<forall>h. pr_count s' h = pr_count (leave g r s) h - int (size (filter_mset (\<lambda>x. fst x = Some h) A))"
    using add.prems(2,3) by (auto simp: x leave_def)
  then show ?case by (intro exI [of _ s']) (auto simp: x leave_def split: option.split)
qed

text \<open>
  The handler of a packet can outlive the scan: the capture starts it, everything in the group returns, main
  removes the rule, and the handler has still to send.
\<close>

lemma handler_outlives_rule:
  "\<exists>s. proc_run ex_start_env default_cfg [] (tcp_Start_scan ex_start_env default_cfg [''ips.txt''] ''out'') s \<and>
     pr_script s = [] \<and> (None, R_Process_pkt) \<in># pr_alive s \<and> \<not> has_rule s"
proof -
  let ?as = "tcp_Start_scan ex_start_env default_cfg [''ips.txt''] ''out''"
  define s1 where "s1 = run_main ex_start_env default_cfg 11 (proc_init [] ?as)"
  have 1: "proc_run ex_start_env default_cfg [] ?as s1"
    unfolding s1_def by (rule run_main_run [OF proc_run.Begin])
  have f: "pr_script s1 = [Wait Wg, Remove_rule]" "pr_count s1 Wg = 6"
    "pr_alive s1 = {#(None, R_Handle_ctrl_c), (Some Wg, R_Packet_capture), (Some Wg, R_Write_results ''out''),
       (Some Wg, R_Timeout), (Some Wg, R_Read_ips_file ''ips.txt''), (Some Wg, R_init_tcp), (Some Wg, R_Close_handle)#}"
    "pr_chain s1 = Set_iptable_rule True rst_rule ([], False)"
    by (simp_all add: s1_def ex_tcp_script proc_init_def eval_nat_numeral ex_sudo add_mset_commute)
  define s2 where "s2 = s1\<lparr>pr_alive := add_mset (None, R_Process_pkt) (pr_alive s1)\<rparr>"
  have "proc_step ex_start_env default_cfg s1 s2"
    unfolding s2_def by (rule proc_step.Spawn [of "Some Wg"]) (simp add: f)
  with 1 have 2: "proc_run ex_start_env default_cfg [] ?as s2" by (rule proc_run.Next)
  define s3 where "s3 = s2\<lparr>pr_stop := True\<rparr>"
  have "proc_step ex_start_env default_cfg s2 s3"
    unfolding s3_def by (rule proc_step.Stop [of "Some Wg" "R_Read_ips_file ''ips.txt''"]) (simp_all add: s2_def f)
  with 2 have 3: "proc_run ex_start_env default_cfg [] ?as s3" by (rule proc_run.Next)
  have "pr_alive s3 = {#(Some Wg, R_Packet_capture), (Some Wg, R_Write_results ''out''), (Some Wg, R_Timeout),
      (Some Wg, R_Read_ips_file ''ips.txt''), (Some Wg, R_init_tcp), (Some Wg, R_Close_handle)#} +
    {#(None, R_Handle_ctrl_c), (None, R_Process_pkt)#}"
    by (simp add: s3_def s2_def f add_mset_commute)
  from leave_all [OF 3 _ this] obtain s4 where 4: "proc_run ex_start_env default_cfg [] ?as s4"
    "pr_script s4 = [Wait Wg, Remove_rule]" "pr_alive s4 = {#(None, R_Handle_ctrl_c), (None, R_Process_pkt)#}"
    "pr_chain s4 = pr_chain s1" "pr_count s4 Wg = 0"
    by (auto simp: s3_def s2_def f)
  define s5 where "s5 = run_main ex_start_env default_cfg 2 s4"
  have 5: "proc_run ex_start_env default_cfg [] ?as s5" unfolding s5_def by (rule run_main_run [OF 4(1)])
  moreover have "pr_script s5 = []" "pr_alive s5 = {#(None, R_Handle_ctrl_c), (None, R_Process_pkt)#}"
    by (simp_all add: s5_def 4 eval_nat_numeral)
  moreover have "fst (pr_chain s5) = fst (Remove_iptable_rule True rst_rule (Set_iptable_rule True rst_rule ([], False)))"
    by (simp add: s5_def 4 f eval_nat_numeral ex_sudo)
  then have "fst (pr_chain s5) = []"
    using iptables_restored(2) [of rst_rule "[]" "fst (Set_iptable_rule True rst_rule ([], False))"
        "snd (Set_iptable_rule True rst_rule ([], False))" "[]"] by simp
  ultimately show ?thesis by (intro exI [of _ s5]) (simp add: has_rule_def)
qed

lemma firewall_after_scan_witness:
  "let s = run_main ex_start_env default_cfg 3 (proc_init [''-j ACCEPT''] (tcp_Start_scan ex_start_env default_cfg [] ''out''))
   in pr_script s = [] \<and> pr_end s = None \<and> has_rule s"
proof -
  let ?s = "run_main ex_start_env default_cfg 3 (proc_init [''-j ACCEPT''] (tcp_Start_scan ex_start_env default_cfg [] ''out''))"
  have "pr_script ?s = [] \<and> pr_end ?s = None" by (simp add: ex_tcp_script proc_init_def eval_nat_numeral)
  moreover from this have "has_rule ?s"
    using firewall_after_scan [of ex_start_env ?s default_cfg "[''-j ACCEPT'']" "[]" "''out''"]
      run_main_run [OF proc_run.Begin] by (simp add: ex_start_env_def crashed_def tcp_target_ok_def)
  ultimately show ?thesis by simp
qed

definition ex_codec :: "tcp_layer codec" where
  "ex_codec = \<lparr>serialize_all = (\<lambda>i t p. Some p), serialize_ip = (\<lambda>i. Some []), parse_header = Some,
     serialize_transport = (\<lambda>t p. Some p)\<rparr>"

lemma traceroute_needs_ethernet_witness:
  "let s = run_main ex_start_env default_cfg 4 (proc_init [] (Start_traceroute ex_start_env default_cfg [''192.0.2.1'']))
   in \<forall>eth i t. \<exists>e. Send_tcp_pkt ex_codec default_cfg (pr_raw s) eth i t [1, 2] = Panic e"
  unfolding Let_def
  by (intro allI, rule traceroute_needs_ethernet [OF run_main_run [OF proc_run.Begin]]) (simp add: default_cfg_def)

end
