(* ===== verification/RateEnd.thy ===== *)
theory RateEnd
  imports RateLimit "HOL-Library.Multiset"
begin

section \<open>The end of a rate test and its results (ratelimit.go write_results, Start_ratetest)\<close>

text \<open>
  The senders put tested resolvers into \<open>finished_resolvers\<close>, a channel with room for 128; one routine
  takes them out and writes their files under the lock \<open>open_writer\<close>. When the senders are done main
  takes that lock, keeps it, closes the stop channel and ends the program.
\<close>

text \<open>The rows of the two files of a resolver: the time stamps of the answers, and the rates.\<close>

definition write_entry :: "Cfg_db \<Rightarrow> resolver_entry \<Rightarrow> (string list list \<times> string list list) outcome" where
  "write_entry cfg e = bindO (timestamp_rows cfg e) (\<lambda>ts. Ret (ts, map rate_record (acc_rate_data e)))"

definition finished_cap :: nat where
  "finished_cap = 128"

datatype lock = Free | ByWriter | ByMain

record rate_end =
  fe_testing :: "resolver_entry list"
  fe_chan :: "resolver_entry list"
  fe_taken :: "resolver_entry option"
  fe_lock :: lock
  fe_written :: "(resolver_entry \<times> string list list \<times> string list list) list"
  fe_stop :: bool
  fe_panic :: "go_panic option"

inductive fe_step :: "Cfg_db \<Rightarrow> rate_end \<Rightarrow> rate_end \<Rightarrow> bool" for cfg where
  Finish: "fe_testing s = xs @ e # ys \<Longrightarrow> length (fe_chan s) < finished_cap \<Longrightarrow>
    fe_step cfg s (s\<lparr>fe_testing := xs @ ys, fe_chan := fe_chan s @ [e]\<rparr>)"
| Receive: "fe_chan s = e # rest \<Longrightarrow> fe_taken s = None \<Longrightarrow>
    fe_step cfg s (s\<lparr>fe_chan := rest, fe_taken := Some e\<rparr>)"
| Lock: "fe_taken s = Some e \<Longrightarrow> fe_lock s = Free \<Longrightarrow> fe_step cfg s (s\<lparr>fe_lock := ByWriter\<rparr>)"
| Write: "fe_taken s = Some e \<Longrightarrow> fe_lock s = ByWriter \<Longrightarrow> write_entry cfg e = Ret files \<Longrightarrow>
    fe_step cfg s (s\<lparr>fe_taken := None, fe_lock := Free, fe_written := fe_written s @ [(e, files)]\<rparr>)"
| Write_panic: "fe_taken s = Some e \<Longrightarrow> fe_lock s = ByWriter \<Longrightarrow> write_entry cfg e = Panic p \<Longrightarrow>
    fe_step cfg s (s\<lparr>fe_panic := Some p\<rparr>)"
| Main_lock: "fe_testing s = [] \<Longrightarrow> fe_lock s = Free \<Longrightarrow> fe_step cfg s (s\<lparr>fe_lock := ByMain\<rparr>)"
| Main_stop: "fe_lock s = ByMain \<Longrightarrow> fe_step cfg s (s\<lparr>fe_stop := True\<rparr>)"

definition fe_start :: "resolver_entry list \<Rightarrow> rate_end" where
  "fe_start es = \<lparr>fe_testing = es, fe_chan = [], fe_taken = None, fe_lock = Free, fe_written = [],
     fe_stop = False, fe_panic = None\<rparr>"

text \<open>A panic of the writer ends the program.\<close>

inductive fe_run :: "Cfg_db \<Rightarrow> rate_end \<Rightarrow> rate_end \<Rightarrow> bool" for cfg s0 where
  Begin: "fe_run cfg s0 s0"
| Next: "fe_run cfg s0 s \<Longrightarrow> fe_panic s = None \<Longrightarrow> fe_step cfg s s' \<Longrightarrow> fe_run cfg s0 s'"

definition taken_list :: "rate_end \<Rightarrow> resolver_entry list" where
  "taken_list s = (case fe_taken s of None \<Rightarrow> [] | Some e \<Rightarrow> [e])"

text \<open>No entry disappears, and what a file holds is what \<open>write_entry\<close> makes of the entry.\<close>

definition fe_inv :: "Cfg_db \<Rightarrow> resolver_entry list \<Rightarrow> rate_end \<Rightarrow> bool" where
  "fe_inv cfg es s \<longleftrightarrow>
     mset es = mset (map fst (fe_written s)) + mset (taken_list s @ fe_chan s @ fe_testing s) \<and>
     length (fe_chan s) \<le> finished_cap \<and> (fe_lock s = ByMain \<longrightarrow> fe_testing s = []) \<and>
     (\<forall>(e, files) \<in> set (fe_written s). write_entry cfg e = Ret files)"

lemma fe_step_inv: "fe_step cfg s s' \<Longrightarrow> fe_inv cfg es s \<Longrightarrow> fe_inv cfg es s'"
  by (induction rule: fe_step.induct) (auto simp: fe_inv_def taken_list_def)

lemma fe_run_inv: "fe_run cfg (fe_start es) s \<Longrightarrow> fe_inv cfg es s"
proof (induction rule: fe_run.induct)
  case Begin
  then show ?case by (simp add: fe_inv_def fe_start_def taken_list_def)
qed (blast intro: fe_step_inv)

text \<open>Once main has the lock nothing more is written.\<close>

lemma fe_step_locked:
  "fe_step cfg s s' \<Longrightarrow> fe_lock s = ByMain \<Longrightarrow> fe_lock s' = ByMain \<and> fe_written s' = fe_written s"
  by (induction rule: fe_step.induct) auto

lemma fe_run_locked: "fe_run cfg s s' \<Longrightarrow> fe_lock s = ByMain \<Longrightarrow> fe_lock s' = ByMain \<and> fe_written s' = fe_written s"
  by (induction rule: fe_run.induct) (auto dest: fe_step_locked)

lemma finish_all:
  "length (fe_chan s) + length (fe_testing s) \<le> finished_cap \<Longrightarrow> fe_panic s = None \<Longrightarrow>
    fe_run cfg s0 s \<Longrightarrow> \<exists>s'. fe_run cfg s0 s' \<and> fe_testing s' = [] \<and> fe_panic s' = None \<and> fe_lock s' = fe_lock s \<and> fe_written s' = fe_written s"
proof (induction "fe_testing s" arbitrary: s)
  case Nil
  then show ?case by auto
next
  case (Cons e es)
  let ?t = "s\<lparr>fe_testing := es, fe_chan := fe_chan s @ [e]\<rparr>"
  from Cons.hyps(2) have t: "fe_testing s = e # es" ..
  have "length (fe_chan s) < finished_cap" using Cons.prems(1) t by simp
  then have "fe_step cfg s ?t" using fe_step.Finish [of s "[]" e es] t by simp
  then have "fe_run cfg s0 ?t" using Cons.prems(2,3) by (auto intro: fe_run.Next)
  from Cons.hyps(1) [of ?t, OF _ _ _ this] Cons.prems(1,2) t show ?case by simp
qed

text \<open>
  C27. At the end of a rate test results can be lost, but not many: when main has taken the lock, each
  resolver tested has its files, with the rows of its entry, or is one of at most 129 that never get them (128 in the
  channel and one the writer holds). With up to 128 resolvers all of them can be lost.
\<close>

theorem rate_results_lost:
  "(\<forall>s. fe_run cfg (fe_start es) s \<and> fe_lock s = ByMain \<longrightarrow>
      (\<exists>lost. mset es = mset (map fst (fe_written s)) + mset lost \<and> length lost \<le> 129) \<and>
      (\<forall>(e, files) \<in> set (fe_written s). write_entry cfg e = Ret files) \<and>
      (\<forall>s'. fe_run cfg s s' \<longrightarrow> fe_written s' = fe_written s)) \<and>
   (length es \<le> 128 \<longrightarrow> (\<exists>s. fe_run cfg (fe_start es) s \<and> fe_lock s = ByMain \<and> fe_written s = []))"
proof (intro conjI allI impI)
  fix s assume s: "fe_run cfg (fe_start es) s \<and> fe_lock s = ByMain"
  then have i: "fe_inv cfg es s" using fe_run_inv by blast
  with s show "\<exists>lost. mset es = mset (map fst (fe_written s)) + mset lost \<and> length lost \<le> 129"
    by (intro exI [of _ "taken_list s @ fe_chan s"])
      (auto simp: fe_inv_def taken_list_def finished_cap_def split: option.splits)
  show "\<forall>(e, files) \<in> set (fe_written s). write_entry cfg e = Ret files" using i by (simp add: fe_inv_def)
  show "fe_written s' = fe_written s" if "fe_run cfg s s'" for s' using fe_run_locked [OF that] s by simp
next
  assume "length es \<le> 128"
  then have "length (fe_chan (fe_start es)) + length (fe_testing (fe_start es)) \<le> finished_cap"
    by (simp add: fe_start_def finished_cap_def)
  from finish_all [OF this _ fe_run.Begin] obtain s where
    "fe_run cfg (fe_start es) s" "fe_panic s = None" "fe_testing s = []" "fe_lock s = Free" "fe_written s = []"
    by (auto simp: fe_start_def)
  then show "\<exists>s. fe_run cfg (fe_start es) s \<and> fe_lock s = ByMain \<and> fe_written s = []"
    by (intro exI [of _ "s\<lparr>fe_lock := ByMain\<rparr>"]) (auto intro: fe_run.Next fe_step.Main_lock)
qed

lemma rate_results_lost_witness:
  "\<exists>s. fe_run default_cfg (fe_start [new_entry [192, 0, 2, 1] 0]) s \<and> fe_lock s = ByMain \<and> fe_written s = []"
  using rate_results_lost [of default_cfg "[new_entry [192, 0, 2, 1] 0]"] by simp

end
