(* ===== verification/Logging.thy ===== *)
theory Logging
  imports Config
begin

section \<open>Log lines (logging/logging.go)\<close>

text \<open>
  What \<open>Println\<close> hands to \<open>log.Println\<close> and what \<open>Write_to_runlog\<close> appends to \<open>run.log\<close>. The
  values to print are their texts; a prefix that is nil is \<open>None\<close>.
\<close>

definition level_tag :: "int \<Rightarrow> string" where
  "level_tag lvl =
     (if lvl = 1 then ''ERR    '' else if lvl = 2 then ''WARN   '' else if lvl = 3 then ''INFO   ''
      else if lvl = 4 then ''DEBUG  '' else if lvl = 5 then ''VERBOSE'' else if lvl = 6 then ''ALL    ''
      else ''       '')"

definition log_Println :: "Cfg_db \<Rightarrow> int \<Rightarrow> string option \<Rightarrow> string list \<Rightarrow> string list option" where
  "log_Println cfg lvl pref v =
     (if lvl \<le> Verbosity cfg
      then Some (level_tag lvl #
        (case pref of None \<Rightarrow> v | Some p \<Rightarrow> if p = '''' then v else (''['' @ p @ '']'') # v))
      else None)"

definition Write_to_runlog :: "string \<Rightarrow> string \<Rightarrow> string \<Rightarrow> string" where
  "Write_to_runlog runlog_prefix file msg =
     file @ (if runlog_prefix \<noteq> '''' then ''['' @ runlog_prefix @ ''] '' @ msg else msg) @ [CHR 10]"

text \<open>A message is printed exactly up to the configured verbosity, and raising it loses none.\<close>

lemma log_Println_mono:
  "Verbosity cfg \<le> Verbosity cfg' \<Longrightarrow> log_Println cfg lvl p v = Some l \<Longrightarrow> log_Println cfg' lvl p v = Some l"
  by (auto simp: log_Println_def split: if_splits)

text \<open>The tags have one width, so the columns of a log line up.\<close>

lemma level_tag_width: "length (level_tag lvl) = 7"
  by (simp add: level_tag_def)

text \<open>A message without a line break is one line of the run log.\<close>

lemma runlog_one_line:
  assumes "CHR 10 \<notin> set msg" and "CHR 10 \<notin> set pre"
  shows "length (split_on (CHR 10) (Write_to_runlog pre file msg)) = length (split_on (CHR 10) file) + 1"
  using assms by (simp add: length_split_on Write_to_runlog_def count_list_0_iff)

end
