(* ===== verification/GoFlag.thy ===== *)
theory GoFlag
  imports Prelude
begin

section \<open>Package flag: the command line of a Go program\<close>

text \<open>
  The part of Go's package \<open>flag\<close> the commands of \<open>dns_tool\<close> use: a flag set with boolean, string
  and integer variables, and \<open>FlagSet.Parse\<close> under \<open>ContinueOnError\<close>. The variables are the fields
  of a record, a flag is the update of its field. An error leaves the fields that were set before
  it, and the remaining words of the command line in \<open>fs.Args()\<close>.
\<close>

subsection \<open>Values\<close>

datatype num_err = ErrSyntax | ErrRange

text \<open>The value of a digit in \<open>strconv.ParseUint\<close>.\<close>

definition digit36 :: "char \<Rightarrow> nat option" where
  "digit36 c =
     (let n = (of_char c :: nat); l = (of_char (to_lower_char c) :: nat)
      in if 48 \<le> n \<and> n \<le> 57 then Some (n - 48)
         else if 97 \<le> l \<and> l \<le> 122 then Some (l - 87) else None)"

fun digits_loop :: "nat \<Rightarrow> nat \<Rightarrow> string \<Rightarrow> num_err + nat" where
  "digits_loop b n [] = Inr n"
| "digits_loop b n (c # s) =
     (if c = CHR ''_'' then digits_loop b n s
      else case digit36 c of None \<Rightarrow> Inl ErrSyntax
         | Some d \<Rightarrow> if b \<le> d then Inl ErrSyntax
                     else if 2 ^ 64 \<le> n * b + d then Inl ErrRange
                     else digits_loop b (n * b + d) s)"

text \<open>The prefix of a number chooses the base, a leading zero alone means octal.\<close>

definition base_prefix :: "string \<Rightarrow> nat \<times> string" where
  "base_prefix s =
     (if s \<noteq> [] \<and> hd s = CHR ''0'' then
        if 3 \<le> length s \<and> to_lower_char (s ! 1) = CHR ''b'' then (2, drop 2 s)
        else if 3 \<le> length s \<and> to_lower_char (s ! 1) = CHR ''o'' then (8, drop 2 s)
        else if 3 \<le> length s \<and> to_lower_char (s ! 1) = CHR ''x'' then (16, drop 2 s)
        else (8, drop 1 s)
      else (10, s))"

text \<open>
  \<open>strconv.underscoreOK\<close>: an underscore stands between digits or after the prefix. The character
  before is a digit (\<open>0\<close>), an underscore, the beginning (\<open>^\<close>) or something else (\<open>!\<close>).
\<close>

fun underscores_loop :: "bool \<Rightarrow> char \<Rightarrow> string \<Rightarrow> bool" where
  "underscores_loop hex i [] \<longleftrightarrow> i \<noteq> CHR ''_''"
| "underscores_loop hex i (c # s) \<longleftrightarrow>
     (let l = (of_char (to_lower_char c) :: nat)
      in if is_digit c \<or> hex \<and> 97 \<le> l \<and> l \<le> 102 then underscores_loop hex CHR ''0'' s
         else if c = CHR ''_'' then i = CHR ''0'' \<and> underscores_loop hex CHR ''_'' s
         else i \<noteq> CHR ''_'' \<and> underscores_loop hex CHR ''!'' s)"

definition underscoreOK :: "string \<Rightarrow> bool" where
  "underscoreOK s \<longleftrightarrow>
     (if 2 \<le> length s \<and> hd s = CHR ''0'' \<and> to_lower_char (s ! 1) \<in> {CHR ''b'', CHR ''o'', CHR ''x''}
      then underscores_loop (to_lower_char (s ! 1) = CHR ''x'') CHR ''0'' (drop 2 s)
      else underscores_loop False CHR ''^'' s)"

definition ParseUint :: "string \<Rightarrow> num_err + nat" where
  "ParseUint s =
     (if s = [] then Inl ErrSyntax
      else case base_prefix s of (b, t) \<Rightarrow>
        (case digits_loop b 0 t of Inl e \<Rightarrow> Inl e
         | Inr n \<Rightarrow> if has_char CHR ''_'' t \<and> \<not> underscoreOK s then Inl ErrSyntax else Inr n))"

text \<open>\<open>strconv.ParseInt(s, 0, 64)\<close>: the value it returns, and its error. A value is returned with
  an error too, and \<open>intValue.Set\<close> assigns it.\<close>

definition ParseInt :: "string \<Rightarrow> int \<times> num_err option" where
  "ParseInt s =
     (let neg = (s \<noteq> [] \<and> hd s = CHR ''-'');
          t = (if s \<noteq> [] \<and> (hd s = CHR ''-'' \<or> hd s = CHR ''+'') then tl s else s)
      in case ParseUint t of
           Inl ErrSyntax \<Rightarrow> (0, Some ErrSyntax)
         | Inl ErrRange \<Rightarrow> (if neg then - (2 ^ 63) else 2 ^ 63 - 1, Some ErrRange)
         | Inr n \<Rightarrow> if \<not> neg \<and> 2 ^ 63 \<le> n then (2 ^ 63 - 1, Some ErrRange)
                    else if neg \<and> 2 ^ 63 < n then (- (2 ^ 63), Some ErrRange)
                    else (if neg then - int n else int n, None))"

definition ParseBool :: "string \<Rightarrow> bool option" where
  "ParseBool s =
     (if s \<in> {''1'', ''t'', ''T'', ''true'', ''TRUE'', ''True''} then Some True
      else if s \<in> {''0'', ''f'', ''F'', ''false'', ''FALSE'', ''False''} then Some False
      else None)"

subsection \<open>Flag sets\<close>

datatype 'r flag =
    BoolVar "bool \<Rightarrow> 'r \<Rightarrow> 'r"
  | StringVar "string \<Rightarrow> 'r \<Rightarrow> 'r"
  | IntVar "int \<Rightarrow> 'r \<Rightarrow> 'r"

type_synonym 'r flag_set = "(string \<times> 'r flag) list"

datatype flag_err =
    BadFlagSyntax string
  | NotDefined string
  | NeedsArgument string
  | InvalidValue string string
  | ErrHelp

text \<open>A flag is cut at its first equals sign.\<close>

definition split_flag :: "string \<Rightarrow> string \<times> string option" where
  "split_flag s =
     (if has_char CHR ''='' s
      then (takeWhile (\<lambda>c. c \<noteq> CHR ''='') s, Some (tl (dropWhile (\<lambda>c. c \<noteq> CHR ''='') s)))
      else (s, None))"

definition is_flag :: "string \<Rightarrow> bool" where
  "is_flag s \<longleftrightarrow> 2 \<le> length s \<and> hd s = CHR ''-''"

definition flag_name :: "string \<Rightarrow> string" where
  "flag_name s = (if s ! 1 = CHR ''-'' then drop 2 s else drop 1 s)"

text \<open>\<open>FlagSet.Parse\<close>: the fields, \<open>fs.Args()\<close> and the error.\<close>

fun Parse :: "'r flag_set \<Rightarrow> 'r \<Rightarrow> string list \<Rightarrow> 'r \<times> string list \<times> flag_err option" where
  "Parse fs r [] = (r, [], None)"
| "Parse fs r (s # args) =
     (if \<not> is_flag s then (r, s # args, None)
      else if s = ''--'' then (r, args, None)
      else if flag_name s = [] \<or> hd (flag_name s) = CHR ''-'' \<or> hd (flag_name s) = CHR ''=''
      then (r, s # args, Some (BadFlagSyntax s))
      else case split_flag (flag_name s) of (name, val) \<Rightarrow>
        (case map_of fs name of
           None \<Rightarrow> (r, args, Some (if name = ''help'' \<or> name = ''h'' then ErrHelp
                                   else NotDefined name))
         | Some (BoolVar f) \<Rightarrow>
             (case val of
                None \<Rightarrow> Parse fs (f True r) args
              | Some v \<Rightarrow>
                  (case ParseBool v of
                     None \<Rightarrow> (f False r, args, Some (InvalidValue name v))
                   | Some b \<Rightarrow> Parse fs (f b r) args))
         | Some (StringVar f) \<Rightarrow>
             (case val of
                Some v \<Rightarrow> Parse fs (f v r) args
              | None \<Rightarrow>
                  (case args of
                     [] \<Rightarrow> (r, [], Some (NeedsArgument name))
                   | v # rest \<Rightarrow> Parse fs (f v r) rest))
         | Some (IntVar f) \<Rightarrow>
             (case val of
                Some v \<Rightarrow>
                  (case ParseInt v of
                     (i, None) \<Rightarrow> Parse fs (f i r) args
                   | (i, Some e) \<Rightarrow> (f i r, args, Some (InvalidValue name v)))
              | None \<Rightarrow>
                  (case args of
                     [] \<Rightarrow> (r, [], Some (NeedsArgument name))
                   | v # rest \<Rightarrow>
                       (case ParseInt v of
                          (i, None) \<Rightarrow> Parse fs (f i r) rest
                        | (i, Some e) \<Rightarrow> (f i r, rest, Some (InvalidValue name v)))))))"

declare Parse.simps(2) [simp del]

subsection \<open>Numbers are read back\<close>

lemma digit36_digit: "is_digit c \<Longrightarrow> digit36 c = Some (digit_val c)"
  by (simp add: digit36_def is_digit_def digit_val_def Let_def)

lemma digits_loop_digits:
  assumes "list_all is_digit s" and "foldl (\<lambda>n c. 10 * n + digit_val c) n s < 2 ^ 64"
  shows "digits_loop 10 n s = Inr (foldl (\<lambda>n c. 10 * n + digit_val c) n s)"
  using assms
proof (induction s arbitrary: n)
  case Nil
  then show ?case by simp
next
  case (Cons c s)
  let ?m = "10 * n + digit_val c"
  have mono: "n \<le> foldl (\<lambda>n c. 10 * n + digit_val c) n s" for n
  proof (induction s arbitrary: n)
    case (Cons d s)
    show ?case using Cons.IH [of "10 * n + digit_val d"] by simp
  qed simp
  have d: "is_digit c" and lt: "digit_val c < 10" and nu: "c \<noteq> CHR ''_''"
    using Cons.prems(1) by (auto simp: is_digit_def digit_val_def)
  have "?m < 2 ^ 64" using Cons.prems(2) mono [of ?m] by simp
  then show ?case
    using Cons.IH [of ?m] Cons.prems lt nu by (simp add: digit36_digit [OF d] mult.commute)
qed

lemma nat_digits_lead: "nat_digits n = c # t \<Longrightarrow> c = CHR ''0'' \<Longrightarrow> n = 0"
proof (induction n arbitrary: t rule: nat_digits.induct)
  case (1 n)
  have z: "d = 0" if "d < 10" "digit_char d = CHR ''0''" for d
  proof -
    have "(of_char (digit_char d) :: nat) = 48" by (simp add: that(2))
    with that(1) show ?thesis by simp
  qed
  show ?case
  proof (cases "n < 10")
    case True
    with 1 z show ?thesis by (simp add: nat_digits.simps [of n])
  next
    case False
    obtain c' t' where ct: "nat_digits (n div 10) = c' # t'"
      by (metis list.exhaust nat_digits_neq_Nil)
    with 1 False have "n div 10 = 0" by (simp add: nat_digits.simps [of n])
    with False show ?thesis by simp
  qed
qed

lemma nat_digits_0: "nat_digits 0 = ''0''"
proof -
  have "char_of (of_char CHR ''0'' :: nat) = CHR ''0''" by (rule char_of_char)
  then show ?thesis by (simp add: nat_digits.simps digit_char_def)
qed

lemma ParseUint_nat_digits:
  assumes "n < 2 ^ 64"
  shows "ParseUint (nat_digits n) = Inr n"
proof (cases "n = 0")
  case True
  then show ?thesis by (simp add: nat_digits_0 ParseUint_def base_prefix_def has_char_def)
next
  case False
  obtain c t where ct: "nat_digits n = c # t" by (metis list.exhaust nat_digits_neq_Nil)
  with False have "c \<noteq> CHR ''0''" using nat_digits_lead by blast
  then have p: "base_prefix (nat_digits n) = (10, nat_digits n)" by (simp add: base_prefix_def ct)
  have "\<not> is_digit CHR ''_''" by (simp add: is_digit_def)
  then have u: "\<not> has_char CHR ''_'' (nat_digits n)" using nat_digits_chars by (auto simp: has_char_def)
  have "digits_loop 10 0 (nat_digits n) = Inr n"
    using digits_loop_digits [OF nat_digits_digits, of 0 n] digits_val_nat_digits [of n] assms
    by (simp add: digits_val_def)
  with p u show ?thesis by (simp add: ParseUint_def)
qed

lemma ParseInt_itoa:
  assumes "- (2 ^ 63) \<le> i" and "i < 2 ^ 63"
  shows "ParseInt (itoa i) = (i, None)"
proof (cases "i < 0")
  case True
  moreover from this assms have "nat (- i) < 2 ^ 64" "\<not> 2 ^ 63 < nat (- i)" by auto
  ultimately show ?thesis
    using ParseUint_nat_digits [of "nat (- i)"] by (simp add: ParseInt_def itoa_def Let_def)
next
  case False
  then have lt: "nat i < 2 ^ 64" "\<not> 2 ^ 63 \<le> nat i" using assms by auto
  obtain c t where ct: "nat_digits (nat i) = c # t" by (metis list.exhaust nat_digits_neq_Nil)
  then have "is_digit c" using nat_digits_chars [of c "nat i"] by simp
  then have "c \<noteq> CHR ''-'' \<and> c \<noteq> CHR ''+''" by (rule is_digit_not_sign)
  with False lt show ?thesis
    using ParseUint_nat_digits [OF lt(1)] by (simp add: ParseInt_def itoa_def Let_def ct)
qed

subsection \<open>Settings written as a command line\<close>

datatype flag_val = VBool bool | VString string | VInt int

fun val_text :: "flag_val \<Rightarrow> string" where
  "val_text (VBool b) = (if b then ''true'' else ''false'')"
| "val_text (VString s) = s"
| "val_text (VInt i) = itoa i"

definition flag_arg :: "string \<times> flag_val \<Rightarrow> string" where
  "flag_arg nv = CHR ''-'' # fst nv @ CHR ''='' # val_text (snd nv)"

fun set_flag :: "'r flag \<Rightarrow> flag_val \<Rightarrow> 'r \<Rightarrow> 'r" where
  "set_flag (BoolVar f) (VBool b) r = f b r"
| "set_flag (StringVar f) (VString s) r = f s r"
| "set_flag (IntVar f) (VInt i) r = f i r"
| "set_flag fl v r = r"

fun val_fits :: "'r flag \<Rightarrow> flag_val \<Rightarrow> bool" where
  "val_fits (BoolVar f) (VBool b) \<longleftrightarrow> True"
| "val_fits (StringVar f) (VString s) \<longleftrightarrow> True"
| "val_fits (IntVar f) (VInt i) \<longleftrightarrow> - (2 ^ 63) \<le> i \<and> i < 2 ^ 63"
| "val_fits fl v \<longleftrightarrow> False"

definition good_name :: "string \<Rightarrow> bool" where
  "good_name n \<longleftrightarrow> n \<noteq> [] \<and> hd n \<noteq> CHR ''-'' \<and> CHR ''='' \<notin> set n"

definition set_flags :: "'r flag_set \<Rightarrow> (string \<times> flag_val) list \<Rightarrow> 'r \<Rightarrow> 'r" where
  "set_flags fs ss r = fold (\<lambda>nv r. case map_of fs (fst nv) of None \<Rightarrow> r | Some fl \<Rightarrow> set_flag fl (snd nv) r) ss r"

definition fits :: "'r flag_set \<Rightarrow> string \<times> flag_val \<Rightarrow> bool" where
  "fits fs nv \<longleftrightarrow> good_name (fst nv) \<and>
     (case map_of fs (fst nv) of None \<Rightarrow> False | Some fl \<Rightarrow> val_fits fl (snd nv))"

lemma good_name_flag:
  assumes "good_name n"
  shows "is_flag (CHR ''-'' # n @ t)" and "n @ t \<noteq> ''-''"
    and "flag_name (CHR ''-'' # n @ t) = n @ t"
    and "n @ t \<noteq> []" and "hd (n @ t) \<noteq> CHR ''-''" and "hd (n @ t) \<noteq> CHR ''=''"
proof -
  obtain c m where n: "n = c # m" and c: "c \<noteq> CHR ''-''" "c \<noteq> CHR ''=''"
    using assms by (cases n) (auto simp: good_name_def)
  show "is_flag (CHR ''-'' # n @ t)" by (simp add: n is_flag_def)
  show "n @ t \<noteq> ''-''" using c by (simp add: n)
  show "flag_name (CHR ''-'' # n @ t) = n @ t" using c by (simp add: n flag_name_def)
  show "n @ t \<noteq> []" by (simp add: n)
  show "hd (n @ t) \<noteq> CHR ''-''" using c by (simp add: n)
  show "hd (n @ t) \<noteq> CHR ''=''" using c by (simp add: n)
qed

lemma split_flag_value:
  "good_name n \<Longrightarrow> split_flag (n @ CHR ''='' # v) = (n, Some v)"
  by (auto simp: good_name_def split_flag_def has_char_def takeWhile_append dropWhile_append)

lemma split_flag_name: "good_name n \<Longrightarrow> split_flag n = (n, None)"
  by (simp add: good_name_def split_flag_def has_char_def)

lemma Parse_flag_arg:
  assumes "good_name n" and "map_of fs n = Some fl" and "val_fits fl v"
  shows "Parse fs r (flag_arg (n, v) # args) = Parse fs (set_flag fl v r) args"
  using assms(2,3)
  by (cases fl; cases v)
    (simp_all add: flag_arg_def Parse.simps(2) good_name_flag [OF assms(1)] split_flag_value [OF assms(1)]
      ParseBool_def ParseInt_itoa)

lemma Parse_flag_args:
  assumes "list_all (fits fs) ss"
  shows "Parse fs r (map flag_arg ss @ args) = Parse fs (set_flags fs ss r) args"
  using assms
proof (induction ss arbitrary: r)
  case Nil
  then show ?case by (simp add: set_flags_def)
next
  case (Cons nv ss)
  obtain n v where nv: "nv = (n, v)" by force
  from Cons.prems obtain fl where "good_name n" "map_of fs n = Some fl" "val_fits fl v"
    by (auto simp: fits_def nv split: option.splits)
  with Cons show ?case by (simp add: nv Parse_flag_arg set_flags_def)
qed

text \<open>The flags end at the first word that is none.\<close>

lemma Parse_positional: "args = [] \<or> \<not> is_flag (hd args) \<Longrightarrow> Parse fs r args = (r, args, None)"
  by (cases args) (simp_all add: Parse.simps(2))

lemma Parse_undefined:
  assumes "good_name n" and "map_of fs n = None"
  shows "Parse fs r ((CHR ''-'' # n) # args) =
    (r, args, Some (if n = ''help'' \<or> n = ''h'' then ErrHelp else NotDefined n))"
  using good_name_flag [OF assms(1), of "[]"] assms(2)
  by (simp add: Parse.simps(2) split_flag_name [OF assms(1)])

end
