(* ===== verification/DnsTool.thy ===== *)
theory DnsTool
  imports GoFlag Common
begin

section \<open>The command line of the tool (dns_tool.go)\<close>

text \<open>
  The five commands with their flags, what each runs with which configuration and arguments, and the
  exit code of the program. What a run does outside this file is a list of events: a module started,
  the usage printed, profiling switched. The files the run reads are described by an environment: the
  result of \<open>cleanenv.ReadConfig\<close> on a path, whether a path exists, whether the profile can be
  written. The modules themselves are the subject of the other theories.
\<close>

subsection \<open>The commands\<close>

record ScannerCommand =
  sc_help_flag :: bool
  sc_mode_flag :: string
  sc_mode_alias :: string
  sc_prot_flag :: string
  sc_prot_alias :: string
  sc_config_path :: string
  sc_config_alias :: string
  sc_pktrate :: int
  sc_pktrate_alias :: int
  sc_outpath :: string
  sc_outpath_alias :: string
  sc_profile :: bool
  sc_debug_level :: int
  sc_debug_alias :: int
  sc_ethernet_header :: bool
  sc_ethernet_alias :: bool
  sc_qname :: string
  sc_qname_alias :: string
  sc_port :: int

definition NewScannerCommand :: ScannerCommand where
  "NewScannerCommand = \<lparr>sc_help_flag = False, sc_mode_flag = '''', sc_mode_alias = '''',
     sc_prot_flag = '''', sc_prot_alias = '''', sc_config_path = '''', sc_config_alias = '''',
     sc_pktrate = - 2, sc_pktrate_alias = - 2, sc_outpath = '''', sc_outpath_alias = '''',
     sc_profile = False, sc_debug_level = - 1, sc_debug_alias = - 1, sc_ethernet_header = False,
     sc_ethernet_alias = False, sc_qname = '''', sc_qname_alias = '''', sc_port = - 1\<rparr>"

definition scanner_flags :: "ScannerCommand flag_set" where
  "scanner_flags =
     [(''help'', BoolVar (\<lambda>b. sc_help_flag_update (\<lambda>_. b))),
      (''mode'', StringVar (\<lambda>s. sc_mode_flag_update (\<lambda>_. s))),
      (''m'', StringVar (\<lambda>s. sc_mode_alias_update (\<lambda>_. s))),
      (''protocol'', StringVar (\<lambda>s. sc_prot_flag_update (\<lambda>_. s))),
      (''p'', StringVar (\<lambda>s. sc_prot_alias_update (\<lambda>_. s))),
      (''config'', StringVar (\<lambda>s. sc_config_path_update (\<lambda>_. s))),
      (''c'', StringVar (\<lambda>s. sc_config_alias_update (\<lambda>_. s))),
      (''rate'', IntVar (\<lambda>i. sc_pktrate_update (\<lambda>_. i))),
      (''r'', IntVar (\<lambda>i. sc_pktrate_alias_update (\<lambda>_. i))),
      (''out'', StringVar (\<lambda>s. sc_outpath_update (\<lambda>_. s))),
      (''o'', StringVar (\<lambda>s. sc_outpath_alias_update (\<lambda>_. s))),
      (''profile'', BoolVar (\<lambda>b. sc_profile_update (\<lambda>_. b))),
      (''verbose'', IntVar (\<lambda>i. sc_debug_level_update (\<lambda>_. i))),
      (''v'', IntVar (\<lambda>i. sc_debug_alias_update (\<lambda>_. i))),
      (''ethernet'', BoolVar (\<lambda>b. sc_ethernet_header_update (\<lambda>_. b))),
      (''e'', BoolVar (\<lambda>b. sc_ethernet_alias_update (\<lambda>_. b))),
      (''qname'', StringVar (\<lambda>s. sc_qname_update (\<lambda>_. s))),
      (''q'', StringVar (\<lambda>s. sc_qname_alias_update (\<lambda>_. s))),
      (''port'', IntVar (\<lambda>i. sc_port_update (\<lambda>_. i)))]"

record QMinServerCommand =
  qs_help_flag :: bool
  qs_config_path :: string
  qs_config_alias :: string

definition NewQMinServerCommand :: QMinServerCommand where
  "NewQMinServerCommand = \<lparr>qs_help_flag = False,
     qs_config_path = ''qmin/dns_server/config.yml'', qs_config_alias = ''''\<rparr>"

definition qmin_server_flags :: "QMinServerCommand flag_set" where
  "qmin_server_flags =
     [(''help'', BoolVar (\<lambda>b. qs_help_flag_update (\<lambda>_. b))),
      (''config'', StringVar (\<lambda>s. qs_config_path_update (\<lambda>_. s))),
      (''c'', StringVar (\<lambda>s. qs_config_alias_update (\<lambda>_. s)))]"

record QMinScannerCommand =
  qsc_help_flag :: bool
  qsc_resolver_flag :: bool
  qsc_resolver_alias :: bool
  qsc_config_path :: string
  qsc_config_alias :: string

definition NewQMinScannerCommand :: QMinScannerCommand where
  "NewQMinScannerCommand = \<lparr>qsc_help_flag = False, qsc_resolver_flag = False,
     qsc_resolver_alias = False, qsc_config_path = ''./qmin/scanner/config.yml'',
     qsc_config_alias = ''''\<rparr>"

definition qmin_scanner_flags :: "QMinScannerCommand flag_set" where
  "qmin_scanner_flags =
     [(''help'', BoolVar (\<lambda>b. qsc_help_flag_update (\<lambda>_. b))),
      (''resolver'', BoolVar (\<lambda>b. qsc_resolver_flag_update (\<lambda>_. b))),
      (''r'', BoolVar (\<lambda>b. qsc_resolver_alias_update (\<lambda>_. b))),
      (''config'', StringVar (\<lambda>s. qsc_config_path_update (\<lambda>_. s))),
      (''c'', StringVar (\<lambda>s. qsc_config_alias_update (\<lambda>_. s)))]"

record ParquetWriterCommand =
  pwc_temp_path :: string

definition NewQMINScannerParquetWriterCommand :: ParquetWriterCommand where
  "NewQMINScannerParquetWriterCommand = \<lparr>pwc_temp_path = ''''\<rparr>"

definition parquet_writer_flags :: "ParquetWriterCommand flag_set" where
  "parquet_writer_flags = [(''path'', StringVar (\<lambda>s. pwc_temp_path_update (\<lambda>_. s)))]"

record PostProcCommand =
  ppc_outputPath :: string
  ppc_recursive :: bool
  ppc_recursive_alias :: bool
  ppc_help_flag :: bool
  ppc_resolver_matching :: bool
  ppc_combine_flag :: bool
  ppc_metadata_path :: string

definition NewQMINScannerPostProcCommand :: PostProcCommand where
  "NewQMINScannerPostProcCommand = \<lparr>ppc_outputPath = '''', ppc_recursive = False,
     ppc_recursive_alias = False, ppc_help_flag = False, ppc_resolver_matching = False,
     ppc_combine_flag = False, ppc_metadata_path = ''''\<rparr>"

definition post_proc_flags :: "PostProcCommand flag_set" where
  "post_proc_flags =
     [(''help'', BoolVar (\<lambda>b. ppc_help_flag_update (\<lambda>_. b))),
      (''recursive'', BoolVar (\<lambda>b. ppc_recursive_update (\<lambda>_. b))),
      (''r'', BoolVar (\<lambda>b. ppc_recursive_alias_update (\<lambda>_. b))),
      (''out'', StringVar (\<lambda>s. ppc_outputPath_update (\<lambda>_. s))),
      (''resolverMatch'', BoolVar (\<lambda>b. ppc_resolver_matching_update (\<lambda>_. b))),
      (''combine'', BoolVar (\<lambda>b. ppc_combine_flag_update (\<lambda>_. b))),
      (''m'', StringVar (\<lambda>s. ppc_metadata_path_update (\<lambda>_. s)))]"

subsection \<open>What a run does\<close>

datatype event =
    Usage string
  | Listing "(string \<times> string) list"
  | LoadedConfig string
  | StartProfiling
  | StopProfiling
  | RunlogPrefix string
  | TcpScan Cfg_db "string list" string
  | UdpScan Cfg_db "string list" string
  | TcpTraceroute Cfg_db "string list"
  | Ratetest Cfg_db "string list" string
  | QminServer
  | QminScan "string list" bool
  | WriteParquet string string
  | PostProcessing string bool string bool bool string

text \<open>
  A call returns, ends the program with a code (\<open>os.Exit\<close>, \<open>log.Fatal\<close>), panics, or never returns. \<open>Run\<close>
  returns an error and an exit code. \<open>module_end\<close> tells how a module that has been started ends; what the
  modules do is the matter of the other theories.
\<close>

datatype 'a run_end = Returns 'a | Exit int | Crash go_panic | Runs_on

type_synonym run_result = "event list \<times> (string option \<times> int) run_end"

record tool_env =
  read_config :: "string \<Rightarrow> Cfg_db \<Rightarrow> Cfg_db option"
  qmin_server_config :: "string \<Rightarrow> bool"
  qmin_scanner_config :: "string \<Rightarrow> bool"
  not_exist :: "string \<Rightarrow> bool"
  profile_writable :: bool
  module_end :: "event \<Rightarrow> unit run_end"

text \<open>The name server does not return: \<open>Start_server\<close> ends in an empty \<open>select\<close>.\<close>

definition end_of :: "tool_env \<Rightarrow> event \<Rightarrow> unit run_end" where
  "end_of env m = (if m = QminServer \<and> module_end env m = Returns () then Runs_on else module_end env m)"

fun as_result :: "unit run_end \<Rightarrow> (string option \<times> int) run_end" where
  "as_result (Returns u) = Returns (None, 0)"
| "as_result (Exit code) = Exit code"
| "as_result (Crash e) = Crash e"
| "as_result Runs_on = Runs_on"

text \<open>A module runs behind the events \<open>pre\<close>; \<open>post\<close> follows only if it returns.\<close>

definition run_module :: "tool_env \<Rightarrow> event list \<Rightarrow> event \<Rightarrow> event list \<Rightarrow> run_result" where
  "run_module env pre m post =
     (pre @ m # (if end_of env m = Returns () then post else []), as_result (end_of env m))"

definition wrong_args :: "string \<Rightarrow> run_result" where
  "wrong_args msg = ([], Returns (Some msg, exit_code WRONG_INPUT_ARGS))"

subsubsection \<open>scanner\<close>

definition scanner_aliases :: "ScannerCommand \<Rightarrow> ScannerCommand" where
  "scanner_aliases sc = sc
     \<lparr>sc_mode_flag := (if sc_mode_alias sc \<noteq> '''' then sc_mode_alias sc else sc_mode_flag sc),
      sc_prot_flag := (if sc_prot_alias sc \<noteq> '''' then sc_prot_alias sc else sc_prot_flag sc),
      sc_config_path := (if sc_config_alias sc \<noteq> '''' then sc_config_alias sc else sc_config_path sc),
      sc_debug_level := (if - 1 < sc_debug_alias sc then sc_debug_alias sc else sc_debug_level sc),
      sc_pktrate := (if - 2 < sc_pktrate_alias sc then sc_pktrate_alias sc else sc_pktrate sc),
      sc_outpath := (if sc_outpath_alias sc \<noteq> '''' then sc_outpath_alias sc else sc_outpath sc),
      sc_qname := (if sc_qname_alias sc \<noteq> '''' then sc_qname_alias sc else sc_qname sc)\<rparr>"

definition scanner_overrides :: "ScannerCommand \<Rightarrow> Cfg_db \<Rightarrow> Cfg_db" where
  "scanner_overrides sc cfg = cfg
     \<lparr>Pkts_per_sec := (if - 2 < sc_pktrate sc then sc_pktrate sc else Pkts_per_sec cfg),
      Dns_query := (if sc_qname sc \<noteq> '''' then sc_qname sc else Dns_query cfg),
      Verbosity := (if - 1 < sc_debug_level sc then sc_debug_level sc else Verbosity cfg),
      Dst_port := (if sc_port sc \<noteq> - 1 then word_of_int (sc_port sc) else Dst_port cfg)\<rparr>"

definition out_or :: "string \<Rightarrow> ScannerCommand \<Rightarrow> string" where
  "out_or d sc = (if sc_outpath sc = '''' then d else sc_outpath sc)"

text \<open>The switch over modes and protocols: the message of an error, or the prefix of the log and the module.\<close>

definition scanner_start :: "Cfg_db \<Rightarrow> ScannerCommand \<Rightarrow> string list \<Rightarrow> string + string \<times> event" where
  "scanner_start cfg sc args =
     (let m = sc_mode_flag sc; p = sc_prot_flag sc in
      if m = '''' then Inl ''missing mode (--mode)''
      else if m = ''s'' \<or> m = ''scan'' then
        if p = '''' then Inl ''missing protocol''
        else if p = ''tcp''
        then Inr (''TCP-SCAN'', TcpScan cfg args (out_or ''tcp_results.csv.gz'' sc))
        else if p = ''udp''
        then Inr (''UDP-SCAN'', UdpScan cfg args (out_or ''udp_results.csv.gz'' sc))
        else Inl ''wrong protocol''
      else if m = ''t'' \<or> m = ''trace'' \<or> m = ''traceroute'' then
        if p = '''' then Inl ''missing protocol''
        else if p = ''tcp''
        then Inr (''TCP-Traceroute'', TcpTraceroute cfg args)
        else Inl ''wrong protocol''
      else if m = ''r'' \<or> m = ''rate'' \<or> m = ''ratelimit'' then
        Inr (''Ratelimit'', Ratetest cfg args (out_or ''ratelimit_results'' sc))
      else Inl (''wrong mode:'' @ m))"

definition profiling :: "ScannerCommand \<Rightarrow> event \<Rightarrow> event list" where
  "profiling sc e = (if sc_profile sc then [e] else [])"

definition scanner_Run :: "tool_env \<Rightarrow> Cfg_db \<Rightarrow> ScannerCommand \<Rightarrow> string list \<Rightarrow> run_result" where
  "scanner_Run env cfg sc0 args =
     (if sc_help_flag sc0 then ([Usage ''scanner''], Returns (None, 0))
      else let sc = scanner_aliases sc0;
               cfg0 = cfg\<lparr>Craft_ethernet := sc_ethernet_alias sc \<or> sc_ethernet_header sc\<rparr> in
        if sc_config_path sc = '''' then wrong_args ''missing config path''
        else case read_config env (sc_config_path sc) cfg0 of
          None \<Rightarrow> ([], Crash (PanicError ''config''))
        | Some cfg1 \<Rightarrow>
            if sc_profile sc \<and> \<not> profile_writable env
            then ([LoadedConfig (sc_config_path sc)], Crash (PanicError ''cpu.prof''))
            else let pre = LoadedConfig (sc_config_path sc) # profiling sc StartProfiling in
              (case scanner_start (scanner_overrides sc cfg1) sc args of
                 Inl msg \<Rightarrow> (pre, Returns (Some msg, exit_code WRONG_INPUT_ARGS))
               | Inr (tag, m) \<Rightarrow> run_module env (pre @ [RunlogPrefix tag]) m (profiling sc StopProfiling)))"

subsubsection \<open>qmin_server, qmin_scanner, temp_file_parquet_writer, qmin_post_proc\<close>

definition qmin_server_Run :: "tool_env \<Rightarrow> QMinServerCommand \<Rightarrow> run_result" where
  "qmin_server_Run env qc =
     (if qs_help_flag qc then ([Usage ''qmin_server''], Returns (None, 0))
      else let path = (if qs_config_alias qc \<noteq> '''' then qs_config_alias qc else qs_config_path qc) in
        if path = '''' then wrong_args ''missing config path''
        else if \<not> qmin_server_config env path then ([], Crash (PanicError ''config''))
        else run_module env [LoadedConfig path] QminServer [])"

definition qmin_scanner_Run :: "tool_env \<Rightarrow> QMinScannerCommand \<Rightarrow> string list \<Rightarrow> run_result" where
  "qmin_scanner_Run env qsc args =
     (if qsc_help_flag qsc then ([Usage ''qmin_scanner''], Returns (None, 0))
      else let path = (if qsc_config_alias qsc \<noteq> '''' then qsc_config_alias qsc else qsc_config_path qsc);
               resolver = qsc_resolver_alias qsc \<or> qsc_resolver_flag qsc in
        if path = '''' then wrong_args ''missing config path''
        else if \<not> qmin_scanner_config env path then ([], Crash (PanicError ''config''))
        else run_module env [LoadedConfig path] (QminScan args resolver) [])"

definition parquet_writer_Run :: "tool_env \<Rightarrow> ParquetWriterCommand \<Rightarrow> run_result" where
  "parquet_writer_Run env pwc =
     (if pwc_temp_path pwc = '''' then wrong_args ''Path is missing''
      else if not_exist env (pwc_temp_path pwc) then wrong_args ''File not Found''
      else run_module env [] (WriteParquet (pwc_temp_path pwc) ''./data/raw/qmin/out.parquet'') [])"

definition post_proc_Run :: "tool_env \<Rightarrow> PostProcCommand \<Rightarrow> string list \<Rightarrow> run_result" where
  "post_proc_Run env ppc args =
     (if ppc_help_flag ppc then ([Usage ''qmin_post_proc''], Returns (None, 0))
      else let rcs = ppc_recursive_alias ppc \<or> ppc_recursive ppc in
        case args of
          [] \<Rightarrow> wrong_args ''Path is missing''
        | path # _ \<Rightarrow>
            if not_exist env path then wrong_args ''File not Found''
            else if ppc_combine_flag ppc \<and> \<not> rcs
            then wrong_args ''In order to use the 'combine' flag, the 'recursive' flag needs to be set.''
            else run_module env [] (PostProcessing path rcs (ppc_outputPath ppc) (ppc_resolver_matching ppc)
                     (ppc_combine_flag ppc) (ppc_metadata_path ppc)) [])"

subsubsection \<open>The choice of the command\<close>

definition cmd_list :: "(string \<times> string) list" where
  "cmd_list =
     [(''scanner'', ''Measure the open DNS infrastructure over IPv4 using TCP/UDP''),
      (''qmin_server'', ''Starts up a DNS Server for Qmin testing of DNS Resolver''),
      (''qmin_scanner'', ''Starts the QMin Scanner to test Resolvers''),
      (''temp_file_parquet_writer'', ''Write temp scan results file to parquet file''),
      (''qmin_post_proc'', ''Prostprocessing QMIN Scanner result file(s)'')]"

text \<open>
  \<open>cmd.Init\<close> parses the flags and prints the usage on an error; \<open>base\<close> does not look at the error
  it returns and runs the command.
\<close>

definition init_run :: "string \<Rightarrow> 'r flag_set \<Rightarrow> 'r \<Rightarrow> string list \<Rightarrow> ('r \<Rightarrow> string list \<Rightarrow> run_result) \<Rightarrow> run_result" where
  "init_run name fs new args run =
     (case Parse fs new args of (r, rest, err) \<Rightarrow>
        (case run r rest of (ev, out) \<Rightarrow> ((if err = None then [] else [Usage name]) @ ev, out)))"

definition run_command :: "tool_env \<Rightarrow> Cfg_db \<Rightarrow> string \<Rightarrow> string list \<Rightarrow> run_result" where
  "run_command env cfg name args =
     (if name = ''scanner''
      then init_run name scanner_flags NewScannerCommand args (scanner_Run env cfg)
      else if name = ''qmin_server''
      then init_run name qmin_server_flags NewQMinServerCommand args (\<lambda>qc rest. qmin_server_Run env qc)
      else if name = ''qmin_scanner''
      then init_run name qmin_scanner_flags NewQMinScannerCommand args (qmin_scanner_Run env)
      else if name = ''temp_file_parquet_writer''
      then init_run name parquet_writer_flags NewQMINScannerParquetWriterCommand args
             (\<lambda>pwc rest. parquet_writer_Run env pwc)
      else if name = ''qmin_post_proc''
      then init_run name post_proc_flags NewQMINScannerPostProcCommand args (post_proc_Run env)
      else ([], Returns (Some ''Unknown Subcommand'', 1)))"

fun base_cmd :: "tool_env \<Rightarrow> Cfg_db \<Rightarrow> string list \<Rightarrow> run_result" where
  "base_cmd env cfg [] = wrong_args ''You must choose what to do!''"
| "base_cmd env cfg (name # args) =
     (if name = ''help'' then ([Listing cmd_list], Returns (None, 0))
      else run_command env cfg name args)"

text \<open>How the program ends: the exit code of \<open>main\<close> or of a module, a panic, or not at all.\<close>

datatype tool_end = Exit_code int | Panicked go_panic | Still_running

fun main_end :: "(string option \<times> int) run_end \<Rightarrow> tool_end" where
  "main_end (Returns (None, code)) = Exit_code 0"
| "main_end (Returns (Some msg, code)) = Exit_code code"
| "main_end (Exit code) = Exit_code code"
| "main_end (Crash e) = Panicked e"
| "main_end Runs_on = Still_running"

definition tool_main :: "tool_env \<Rightarrow> Cfg_db \<Rightarrow> string list \<Rightarrow> event list \<times> tool_end" where
  "tool_main env cfg args = (case base_cmd env cfg args of (ev, out) \<Rightarrow> (ev, main_end out))"

subsection \<open>One module is started, or the exit code tells why not\<close>

fun is_start :: "event \<Rightarrow> bool" where
  "is_start (TcpScan c a p) = True"
| "is_start (UdpScan c a p) = True"
| "is_start (TcpTraceroute c a) = True"
| "is_start (Ratetest c a p) = True"
| "is_start QminServer = True"
| "is_start (QminScan a b) = True"
| "is_start (WriteParquet a b) = True"
| "is_start (PostProcessing a b c d e f) = True"
| "is_start e = False"

fun is_help :: "event \<Rightarrow> bool" where
  "is_help (Usage n) = True"
| "is_help (Listing cs) = True"
| "is_help e = False"

definition starts :: "event list \<Rightarrow> nat" where
  "starts ev = length (filter is_start ev)"

lemma starts_simps [simp]:
  "starts [] = 0" "starts (e # ev) = (if is_start e then 1 else 0) + starts ev"
  "starts (ev @ ev') = starts ev + starts ev'" "\<not> is_start e \<Longrightarrow> starts (profiling sc e) = 0"
  by (simp_all add: starts_def profiling_def)

text \<open>
  The run of a command starts no module, and then returns an error with code 1, shows help with code 0,
  or panics; or it starts one, and ends the way the module does.
\<close>

fun program_end :: "unit run_end \<Rightarrow> tool_end" where
  "program_end (Returns u) = Exit_code 0"
| "program_end (Exit code) = Exit_code code"
| "program_end (Crash e) = Panicked e"
| "program_end Runs_on = Still_running"

definition one_module :: "tool_env \<Rightarrow> event list \<Rightarrow> event \<Rightarrow> bool" where
  "one_module env ev m \<longleftrightarrow> (\<exists>pre post. ev = pre @ m # post \<and> is_start m \<and> starts pre = 0 \<and> starts post = 0)"

definition run_ok :: "tool_env \<Rightarrow> run_result \<Rightarrow> bool" where
  "run_ok env res \<longleftrightarrow>
     (case res of (ev, out) \<Rightarrow>
        starts ev = 0 \<and> (case out of
            Returns (Some msg, code) \<Rightarrow> code = 1
          | Returns (None, code) \<Rightarrow> list_ex is_help ev
          | Crash e \<Rightarrow> True
          | _ \<Rightarrow> False) \<or>
        (\<exists>m. one_module env ev m \<and> out = as_result (end_of env m)))"

lemma run_ok_wrong_args [simp]: "run_ok env (wrong_args msg)"
  by (simp add: run_ok_def wrong_args_def)

lemma run_ok_crash [simp]: "starts ev = 0 \<Longrightarrow> run_ok env (ev, Crash e)"
  by (simp add: run_ok_def)

lemma run_ok_help [simp]: "run_ok env ([Usage n], Returns (None, 0))" "run_ok env ([Listing cs], Returns (None, 0))"
  by (simp_all add: run_ok_def)

lemma run_ok_error [simp]: "starts ev = 0 \<Longrightarrow> run_ok env (ev, Returns (Some msg, 1))"
  by (simp add: run_ok_def)

lemma run_module_ok [simp]:
  assumes "is_start m" and "starts pre = 0" and "starts post = 0"
  shows "run_ok env (run_module env pre m post)"
proof -
  have "one_module env (pre @ m # (if end_of env m = Returns () then post else [])) m"
    unfolding one_module_def using assms
    by (intro exI [of _ pre] exI [of _ "if end_of env m = Returns () then post else []"]) simp
  then show ?thesis by (auto simp: run_ok_def run_module_def)
qed

lemma main_end_Returns: "main_end (Returns (a, c)) = Exit_code (if a = None then 0 else c)"
  by (cases a) simp_all

lemma main_end_as_result: "main_end (as_result r) = program_end r"
  by (cases r) simp_all

lemma main_run_module:
  "\<exists>pre' post'. (case run_module env pre m post of (ev, out) \<Rightarrow> (ev, main_end out)) =
     (pre' @ m # post', program_end (end_of env m))"
  by (auto simp: run_module_def main_end_as_result)

lemma scanner_start_is_start: "scanner_start cfg sc args = Inr (tag, m) \<Longrightarrow> is_start m"
  by (auto simp: scanner_start_def Let_def split: if_splits)

lemma scanner_Run_ok: "run_ok env (scanner_Run env cfg sc args)"
  unfolding scanner_Run_def Let_def
  by (auto dest: scanner_start_is_start split: option.split prod.split sum.split)

lemma qmin_server_Run_ok: "run_ok env (qmin_server_Run env qc)"
  by (simp add: qmin_server_Run_def Let_def)

lemma qmin_scanner_Run_ok: "run_ok env (qmin_scanner_Run env qsc args)"
  by (simp add: qmin_scanner_Run_def Let_def)

lemma parquet_writer_Run_ok: "run_ok env (parquet_writer_Run env pwc)"
  by (simp add: parquet_writer_Run_def)

lemma post_proc_Run_ok: "run_ok env (post_proc_Run env ppc args)"
  by (simp add: post_proc_Run_def Let_def split: list.split)

lemma run_ok_usage:
  assumes "run_ok env (ev, res)" shows "run_ok env (Usage n # ev, res)"
proof -
  have "one_module env (Usage n # ev) m" if "one_module env ev m" for m
  proof -
    from that obtain pre post where "ev = pre @ m # post" "is_start m" "starts pre = 0" "starts post = 0"
      by (auto simp: one_module_def)
    then show ?thesis unfolding one_module_def by (intro exI [of _ "Usage n # pre"] exI [of _ post]) simp
  qed
  then show ?thesis using assms
    by (auto simp: run_ok_def split: run_end.splits option.splits)
qed

lemma init_run_ok:
  assumes "\<And>r rest. run_ok env (run r rest)"
  shows "run_ok env (init_run name fs new args run)"
proof -
  obtain r rest err where p: "Parse fs new args = (r, rest, err)" by (metis surj_pair)
  have "run_ok env (run r rest)" by (rule assms)
  then show ?thesis
    by (cases "run r rest") (auto simp: init_run_def p intro: run_ok_usage)
qed

lemma run_command_ok: "run_ok env (run_command env cfg name args)"
  unfolding run_command_def
  by (simp add: init_run_ok scanner_Run_ok qmin_server_Run_ok qmin_scanner_Run_ok
      parquet_writer_Run_ok post_proc_Run_ok)

lemma base_cmd_ok: "run_ok env (base_cmd env cfg args)"
  by (cases args) (simp_all add: run_command_ok)

text \<open>
  C32. For every command line, configuration and environment there are two cases. Either no module is
  started: then the program panics (a configuration that cannot be read, a profile that cannot be
  written), exits with 1, or exits with 0 after it has printed help. Or exactly one module is started, and the
  program ends the way this module ends: with 0 if it returns, with its code if it exits, with its
  panic, or not at all (the name server never returns). A run that does nothing and reports success does not
  exist.
\<close>

theorem tool_starts_one:
  "case tool_main env cfg args of (ev, res) \<Rightarrow>
     starts ev = 0 \<and> ((\<exists>e. res = Panicked e) \<or> res = Exit_code 1 \<or> res = Exit_code 0 \<and> list_ex is_help ev) \<or>
     (\<exists>m. one_module env ev m \<and> res = program_end (end_of env m) \<and> end_of env QminServer \<noteq> Returns ())"
proof -
  obtain ev out where b: "base_cmd env cfg args = (ev, out)" by force
  have ok: "run_ok env (ev, out)" using base_cmd_ok [of env cfg args] by (simp add: b)
  have server: "end_of env QminServer \<noteq> Returns ()" by (simp add: end_of_def)
  from ok consider "starts ev = 0" "\<exists>e. main_end out = Panicked e \<or> main_end out = Exit_code 1 \<or>
      main_end out = Exit_code 0 \<and> list_ex is_help ev"
    | m where "one_module env ev m" "out = as_result (end_of env m)"
    by (auto simp: run_ok_def main_end_Returns split: run_end.splits option.splits)
  then show ?thesis
  proof cases
    case 1
    then show ?thesis by (auto simp: tool_main_def b)
  next
    case 2
    with server show ?thesis by (auto simp: tool_main_def b main_end_as_result)
  qed
qed

subsection \<open>Every setting of the flags can be given on the command line\<close>

definition scanner_settings :: "ScannerCommand \<Rightarrow> (string \<times> flag_val) list" where
  "scanner_settings sc =
     [(''help'', VBool (sc_help_flag sc)), (''mode'', VString (sc_mode_flag sc)),
      (''m'', VString (sc_mode_alias sc)), (''protocol'', VString (sc_prot_flag sc)),
      (''p'', VString (sc_prot_alias sc)), (''config'', VString (sc_config_path sc)),
      (''c'', VString (sc_config_alias sc)), (''rate'', VInt (sc_pktrate sc)),
      (''r'', VInt (sc_pktrate_alias sc)), (''out'', VString (sc_outpath sc)),
      (''o'', VString (sc_outpath_alias sc)), (''profile'', VBool (sc_profile sc)),
      (''verbose'', VInt (sc_debug_level sc)), (''v'', VInt (sc_debug_alias sc)),
      (''ethernet'', VBool (sc_ethernet_header sc)), (''e'', VBool (sc_ethernet_alias sc)),
      (''qname'', VString (sc_qname sc)), (''q'', VString (sc_qname_alias sc)),
      (''port'', VInt (sc_port sc))]"

definition in_int64 :: "int \<Rightarrow> bool" where
  "in_int64 i \<longleftrightarrow> - (2 ^ 63) \<le> i \<and> i < 2 ^ 63"

definition scanner_args :: "ScannerCommand \<Rightarrow> string list" where
  "scanner_args sc = map flag_arg (scanner_settings sc)"

definition int_fields_ok :: "ScannerCommand \<Rightarrow> bool" where
  "int_fields_ok sc \<longleftrightarrow> list_all in_int64
     [sc_pktrate sc, sc_pktrate_alias sc, sc_debug_level sc, sc_debug_alias sc, sc_port sc]"

lemma scanner_settings_fit: "int_fields_ok sc \<Longrightarrow> list_all (fits scanner_flags) (scanner_settings sc)"
  by (simp add: scanner_settings_def scanner_flags_def fits_def good_name_def int_fields_ok_def in_int64_def)

lemma scanner_settings_set: "set_flags scanner_flags (scanner_settings sc) r = sc"
  by (cases sc; cases r) (simp add: set_flags_def scanner_settings_def scanner_flags_def)

lemma Parse_scanner_args:
  "int_fields_ok sc \<Longrightarrow> Parse scanner_flags r (scanner_args sc @ args) = Parse scanner_flags sc args"
  by (simp add: scanner_args_def Parse_flag_args scanner_settings_fit scanner_settings_set)

text \<open>
  C23. The flags of the scanner: the values of all 19 flags, written out as words of a command line, are
  read back by the flag set as they were, whatever the fields held before, and the words behind them
  are the positional arguments. No two flags share a field, no field lacks its flag, and a number keeps
  its value in the whole range of a 64-bit integer.
\<close>

theorem scanner_flags_roundtrip:
  assumes "int_fields_ok sc" and "args = [] \<or> \<not> is_flag (hd args)"
  shows "Parse scanner_flags r (scanner_args sc @ args) = (sc, args, None)"
  by (simp add: Parse_scanner_args assms Parse_positional)

lemma scanner_flags_roundtrip_witness:
  "let sc = NewScannerCommand\<lparr>sc_mode_flag := ''scan'', sc_prot_alias := ''udp'', sc_pktrate := - 1\<rparr>
   in Parse scanner_flags NewScannerCommand (scanner_args sc @ [''1.1.1.0/24'']) = (sc, [''1.1.1.0/24''], None)"
  unfolding Let_def
  by (rule scanner_flags_roundtrip)
    (simp_all add: int_fields_ok_def in_int64_def NewScannerCommand_def is_flag_def)

subsection \<open>The configuration a scan runs with\<close>

lemma base_cmd_scanner:
  "base_cmd env cfg (''scanner'' # words) = init_run ''scanner'' scanner_flags NewScannerCommand words (scanner_Run env cfg)"
  by (simp add: run_command_def)

lemma base_cmd_scanner_args:
  assumes "int_fields_ok sc" and "args = [] \<or> \<not> is_flag (hd args)"
  shows "base_cmd env cfg (''scanner'' # scanner_args sc @ args) = scanner_Run env cfg sc args"
  unfolding base_cmd_scanner init_run_def
  by (simp add: Parse_scanner_args assms(1) Parse_positional [OF assms(2)] split: prod.split)

text \<open>The alias of a flag wins over the flag, and the command line over the file.\<close>

definition scan_config :: "ScannerCommand \<Rightarrow> Cfg_db \<Rightarrow> Cfg_db \<Rightarrow> bool" where
  "scan_config sc file cfg \<longleftrightarrow>
     Pkts_per_sec cfg = (if - 2 < sc_pktrate_alias sc then sc_pktrate_alias sc
                         else if - 2 < sc_pktrate sc then sc_pktrate sc else Pkts_per_sec file) \<and>
     Dns_query cfg = (if sc_qname_alias sc \<noteq> '''' then sc_qname_alias sc
                      else if sc_qname sc \<noteq> '''' then sc_qname sc else Dns_query file) \<and>
     Verbosity cfg = (if - 1 < sc_debug_alias sc then sc_debug_alias sc
                      else if - 1 < sc_debug_level sc then sc_debug_level sc else Verbosity file) \<and>
     int (unat (Dst_port cfg)) = (if sc_port sc \<noteq> - 1 then sc_port sc mod 65536
                                  else int (unat (Dst_port file)))"

lemma scan_config_overrides: "scan_config sc file (scanner_overrides (scanner_aliases sc) file)"
  by (simp add: scan_config_def scanner_overrides_def scanner_aliases_def uint_word_of_int)

text \<open>The other fields of the configuration are those of the file.\<close>

definition rest_of_file :: "Cfg_db \<Rightarrow> Cfg_db \<Rightarrow> bool" where
  "rest_of_file file cfg \<longleftrightarrow>
     cfg\<lparr>Pkts_per_sec := Pkts_per_sec file, Dns_query := Dns_query file, Verbosity := Verbosity file,
       Dst_port := Dst_port file\<rparr> = file"

lemma rest_of_file_overrides: "rest_of_file file (scanner_overrides sc file)"
  by (simp add: rest_of_file_def scanner_overrides_def)

lemma rest_of_file_ethernet: "rest_of_file file cfg \<Longrightarrow> Craft_ethernet cfg = Craft_ethernet file"
  unfolding rest_of_file_def by (drule arg_cong [where f = Craft_ethernet]) simp

definition chosen :: "string \<Rightarrow> string \<Rightarrow> string" where
  "chosen alias flag = (if alias \<noteq> '''' then alias else flag)"

lemma scanner_aliases_chosen:
  "sc_mode_flag (scanner_aliases sc) = chosen (sc_mode_alias sc) (sc_mode_flag sc)"
  "sc_prot_flag (scanner_aliases sc) = chosen (sc_prot_alias sc) (sc_prot_flag sc)"
  "sc_config_path (scanner_aliases sc) = chosen (sc_config_alias sc) (sc_config_path sc)"
  "sc_outpath (scanner_aliases sc) = chosen (sc_outpath_alias sc) (sc_outpath sc)"
  "sc_profile (scanner_aliases sc) = sc_profile sc"
  "sc_ethernet_alias (scanner_aliases sc) = sc_ethernet_alias sc"
  "sc_ethernet_header (scanner_aliases sc) = sc_ethernet_header sc"
  by (simp_all add: scanner_aliases_def chosen_def)

text \<open>
  C12. From the command line to the UDP scan: a command line that holds the settings \<open>sc\<close> with mode
  \<open>scan\<close> and protocol \<open>udp\<close>, given by the flag or by its alias, starts the UDP scan with the
  positional arguments, the output path (or \<open>udp_results.csv.gz\<close>) and a configuration in which rate,
  query name, verbosity and port are those of the command line where it has them (the alias before the
  flag, the port modulo 65536) and every other field is the one of the file. The Ethernet flag is
  stored before the file is read, so the file has the last word on it.
\<close>

theorem scan_runs_with_configuration:
  assumes "int_fields_ok sc" and "args = [] \<or> \<not> is_flag (hd args)" and "\<not> sc_help_flag sc"
    and "chosen (sc_mode_alias sc) (sc_mode_flag sc) \<in> {''s'', ''scan''}"
    and "chosen (sc_prot_alias sc) (sc_prot_flag sc) = ''udp''"
    and "chosen (sc_config_alias sc) (sc_config_path sc) \<noteq> ''''"
    and "read_config env (chosen (sc_config_alias sc) (sc_config_path sc))
           (cfg\<lparr>Craft_ethernet := sc_ethernet_alias sc \<or> sc_ethernet_header sc\<rparr>) = Some file"
    and "sc_profile sc \<longrightarrow> profile_writable env"
  shows "\<exists>cfg' pre post m. m = UdpScan cfg' args (chosen (chosen (sc_outpath_alias sc) (sc_outpath sc)) ''udp_results.csv.gz'') \<and>
    tool_main env cfg (''scanner'' # scanner_args sc @ args) = (pre @ m # post, program_end (end_of env m)) \<and>
    scan_config sc file cfg' \<and> rest_of_file file cfg'"
proof -
  let ?cfg = "scanner_overrides (scanner_aliases sc) file"
  let ?m = "UdpScan ?cfg args (chosen (chosen (sc_outpath_alias sc) (sc_outpath sc)) ''udp_results.csv.gz'')"
  have st: "scanner_start ?cfg (scanner_aliases sc) args = Inr (''UDP-SCAN'', ?m)"
    using assms(4,5) unfolding scanner_start_def Let_def scanner_aliases_chosen out_or_def
    by (auto simp: chosen_def scanner_aliases_chosen)
  have "\<exists>pre post. scanner_Run env cfg sc args = run_module env pre ?m post"
    using assms(3,6,7,8) unfolding scanner_Run_def Let_def scanner_aliases_chosen
    by (auto simp: st)
  then have "\<exists>pre post. tool_main env cfg (''scanner'' # scanner_args sc @ args) = (pre @ ?m # post, program_end (end_of env ?m))"
    unfolding tool_main_def base_cmd_scanner_args [OF assms(1,2)] by (auto intro: main_run_module)
  with scan_config_overrides rest_of_file_overrides show ?thesis by blast
qed

lemma scan_runs_with_configuration_witness:
  "let sc = NewScannerCommand\<lparr>sc_mode_alias := ''s'', sc_prot_flag := ''udp'', sc_config_path := ''c.yml'',
              sc_pktrate := 100, sc_pktrate_alias := 200, sc_port := 65589, sc_ethernet_alias := True\<rparr>;
       env = \<lparr>read_config = (\<lambda>p c. if p = ''c.yml'' then Some (default_cfg\<lparr>Verbosity := 5\<rparr>) else None),
              qmin_server_config = (\<lambda>p. False), qmin_scanner_config = (\<lambda>p. False),
              not_exist = (\<lambda>p. True), profile_writable = False,
              module_end = (\<lambda>m. Exit 1)\<rparr>
   in \<exists>cfg' pre post. tool_main env default_cfg (''scanner'' # scanner_args sc @ [''1.1.1.0/24'']) =
        (pre @ UdpScan cfg' [''1.1.1.0/24''] ''udp_results.csv.gz'' # post, Exit_code 1) \<and>
      Pkts_per_sec cfg' = 200 \<and> Verbosity cfg' = 5 \<and> int (unat (Dst_port cfg')) = 53 \<and>
      \<not> Craft_ethernet cfg'"
proof -
  let ?sc = "NewScannerCommand\<lparr>sc_mode_alias := ''s'', sc_prot_flag := ''udp'', sc_config_path := ''c.yml'',
              sc_pktrate := 100, sc_pktrate_alias := 200, sc_port := 65589, sc_ethernet_alias := True\<rparr>"
  let ?env = "\<lparr>read_config = (\<lambda>p c. if p = ''c.yml'' then Some (default_cfg\<lparr>Verbosity := 5\<rparr>) else None),
              qmin_server_config = (\<lambda>p. False), qmin_scanner_config = (\<lambda>p. False),
              not_exist = (\<lambda>p. True), profile_writable = False,
              module_end = (\<lambda>m. Exit 1)\<rparr>"
  have out: "chosen (chosen (sc_outpath_alias ?sc) (sc_outpath ?sc)) ''udp_results.csv.gz'' = ''udp_results.csv.gz''"
    by (simp add: chosen_def NewScannerCommand_def)
  have "\<exists>cfg' pre post m. m = UdpScan cfg' [''1.1.1.0/24''] (chosen (chosen (sc_outpath_alias ?sc) (sc_outpath ?sc)) ''udp_results.csv.gz'') \<and>
    tool_main ?env default_cfg (''scanner'' # scanner_args ?sc @ [''1.1.1.0/24'']) = (pre @ m # post, program_end (end_of ?env m)) \<and>
    scan_config ?sc (default_cfg\<lparr>Verbosity := 5\<rparr>) cfg' \<and> rest_of_file (default_cfg\<lparr>Verbosity := 5\<rparr>) cfg'"
    by (rule scan_runs_with_configuration)
      (simp_all add: int_fields_ok_def in_int64_def NewScannerCommand_def is_flag_def chosen_def)
  then obtain cfg' pre post where
      run: "tool_main ?env default_cfg (''scanner'' # scanner_args ?sc @ [''1.1.1.0/24'']) =
        (pre @ UdpScan cfg' [''1.1.1.0/24''] ''udp_results.csv.gz'' # post, Exit_code 1)"
      and sc: "scan_config ?sc (default_cfg\<lparr>Verbosity := 5\<rparr>) cfg'"
      and fl: "rest_of_file (default_cfg\<lparr>Verbosity := 5\<rparr>) cfg'"
    unfolding out by (auto simp: end_of_def)
  have "Pkts_per_sec cfg' = 200 \<and> Verbosity cfg' = 5 \<and> int (unat (Dst_port cfg')) = 53"
    using sc by (simp add: scan_config_def NewScannerCommand_def default_cfg_def)
  moreover have "\<not> Craft_ethernet cfg'"
    using rest_of_file_ethernet [OF fl] by (simp add: default_cfg_def)
  ultimately show ?thesis using run unfolding Let_def by blast
qed

text \<open>
  A wrong flag does not stop the tool: a command line with a flag that does not exist prints the
  usage and then runs, exactly as if the flag were the word \<open>--\<close>. What was given before it counts, the
  flags behind it do not: they have become positional arguments of the module.
\<close>

theorem unknown_flag_runs:
  assumes "int_fields_ok sc" and "good_name n" and "map_of scanner_flags n = None"
  shows "tool_main env cfg (''scanner'' # scanner_args sc @ (CHR ''-'' # n) # words) =
    apfst ((#) (Usage ''scanner'')) (tool_main env cfg (''scanner'' # scanner_args sc @ ''--'' # words))"
proof -
  note e = Parse_undefined [OF assms(2,3), of sc words]
  have d: "Parse scanner_flags sc (''--'' # words) = (sc, words, None)"
    by (simp add: Parse.simps(2) is_flag_def)
  have split: "tool_main env cfg (''scanner'' # ws) =
      (case init_run ''scanner'' scanner_flags NewScannerCommand ws (scanner_Run env cfg) of (ev, out) \<Rightarrow> (ev, main_end out))" for ws
    unfolding tool_main_def base_cmd_scanner ..
  obtain ev out where r: "scanner_Run env cfg sc words = (ev, out)" by force
  show ?thesis
    unfolding split init_run_def Parse_scanner_args [OF assms(1)] d e
    by (cases out) (auto simp: r split: prod.split option.split)
qed

lemma unknown_flag_runs_witness:
  "let sc = NewScannerCommand\<lparr>sc_mode_alias := ''r'', sc_config_path := ''c.yml''\<rparr>;
       env = \<lparr>read_config = (\<lambda>p c. Some default_cfg), qmin_server_config = (\<lambda>p. False),
              qmin_scanner_config = (\<lambda>p. False), not_exist = (\<lambda>p. True), profile_writable = False,
              module_end = (\<lambda>m. Returns ())\<rparr>
   in tool_main env default_cfg (''scanner'' # scanner_args sc @ ''-rates'' # [''-1'', ''in.csv'']) =
        ([Usage ''scanner'', LoadedConfig ''c.yml'', RunlogPrefix ''Ratelimit'',
          Ratetest default_cfg [''-1'', ''in.csv''] ''ratelimit_results''], Exit_code 0)"
proof -
  let ?sc = "NewScannerCommand\<lparr>sc_mode_alias := ''r'', sc_config_path := ''c.yml''\<rparr>"
  let ?env = "\<lparr>read_config = (\<lambda>p c. Some default_cfg), qmin_server_config = (\<lambda>p. False),
              qmin_scanner_config = (\<lambda>p. False), not_exist = (\<lambda>p. True), profile_writable = False,
              module_end = (\<lambda>m. Returns ())\<rparr>"
  have ok: "int_fields_ok ?sc" by (simp add: int_fields_ok_def in_int64_def NewScannerCommand_def)
  have unknown: "tool_main ?env default_cfg (''scanner'' # scanner_args ?sc @ ''-rates'' # [''-1'', ''in.csv'']) =
    apfst ((#) (Usage ''scanner'')) (tool_main ?env default_cfg (''scanner'' # scanner_args ?sc @ ''--'' # [''-1'', ''in.csv'']))"
    by (rule unknown_flag_runs) (simp_all add: ok good_name_def scanner_flags_def)
  have "Parse scanner_flags NewScannerCommand (scanner_args ?sc @ ''--'' # [''-1'', ''in.csv'']) =
      (?sc, [''-1'', ''in.csv''], None)"
    unfolding Parse_scanner_args [OF ok] by (simp add: Parse.simps(2) is_flag_def)
  moreover have "scanner_Run ?env default_cfg ?sc [''-1'', ''in.csv''] =
      ([LoadedConfig ''c.yml'', RunlogPrefix ''Ratelimit'',
        Ratetest default_cfg [''-1'', ''in.csv''] ''ratelimit_results''], Returns (None, 0))"
    by (simp add: scanner_Run_def scanner_aliases_def NewScannerCommand_def scanner_start_def
        scanner_overrides_def profiling_def out_or_def run_module_def end_of_def)
  ultimately have "tool_main ?env default_cfg (''scanner'' # scanner_args ?sc @ ''--'' # [''-1'', ''in.csv'']) =
      ([LoadedConfig ''c.yml'', RunlogPrefix ''Ratelimit'',
        Ratetest default_cfg [''-1'', ''in.csv''] ''ratelimit_results''], Exit_code 0)"
    unfolding tool_main_def base_cmd_scanner init_run_def by simp
  with unknown show ?thesis by (simp add: Let_def)
qed

text \<open>A number that cannot be read is taken as zero, and the run goes on with it.\<close>

lemma bad_rate_is_zero:
  "Parse scanner_flags NewScannerCommand [''-rate'', ''fast'', ''-m'', ''s''] =
     (NewScannerCommand\<lparr>sc_pktrate := 0\<rparr>, [''-m'', ''s''], Some (InvalidValue ''rate'' ''fast''))"
  by (simp add: Parse.simps(2) is_flag_def flag_name_def split_flag_def has_char_def scanner_flags_def
      ParseInt_def ParseUint_def base_prefix_def digit36_def to_lower_char_def)

end
