(* ===== verification/DumpPcaps.thy ===== *)
theory DumpPcaps
  imports Prelude
begin

section \<open>The capture program (util/dump/dump_pcaps.go)\<close>

text \<open>
  A program of its own: it writes the packets of an interface to files \<open>udpdump0.pcap\<close>,
  \<open>udpdump1.pcap\<close>, ..., starts a new file when the current one is larger than 300 MiB, and compresses
  the old one. The capture and the check of the size are two routines; a step of the model is what one
  of them does between two waits. The size \<open>Stat\<close> reports is an input of the step. Capturing, the
  pcap format and gzip are library code: a file is the list of its packets.
\<close>

definition pcap_part_size :: int where
  "pcap_part_size = 300 * 1024 * 1024"

definition pcap_name :: "nat \<Rightarrow> string" where
  "pcap_name n = ''udpdump'' @ itoa (int n) @ ''.pcap''"

text \<open>The files of the dump directory, the open file with its writer, and the file that
  \<open>check_writer\<close> is going to compress.\<close>

record 'p dump_state =
  dump_files :: "string \<Rightarrow> 'p list option"
  pcap_counter :: nat
  pcap_file :: string
  to_zip :: "string option"
  stopped :: bool

definition create :: "string \<Rightarrow> (string \<Rightarrow> 'p list option) \<Rightarrow> (string \<Rightarrow> 'p list option)" where
  "create name files = files(name := Some [])"

definition zipndel :: "string \<Rightarrow> (string \<Rightarrow> 'p list option) \<Rightarrow> (string \<Rightarrow> 'p list option)" where
  "zipndel name files = files(name @ ''.gz'' := files name, name := None)"

definition dump_start :: "(string \<Rightarrow> 'p list option) \<Rightarrow> 'p dump_state" where
  "dump_start files = \<lparr>dump_files = create (pcap_name 0) files, pcap_counter = 1,
     pcap_file = pcap_name 0, to_zip = None, stopped = False\<rparr>"

definition check_writer_tick :: "int \<Rightarrow> 'p dump_state \<Rightarrow> 'p dump_state" where
  "check_writer_tick sz s =
     (if pcap_part_size < sz
      then s\<lparr>dump_files := create (pcap_name (pcap_counter s)) (dump_files s),
             pcap_file := pcap_name (pcap_counter s), pcap_counter := pcap_counter s + 1,
             to_zip := Some (pcap_file s)\<rparr>
      else s)"

definition check_writer_zip :: "string \<Rightarrow> 'p dump_state \<Rightarrow> 'p dump_state" where
  "check_writer_zip old s = s\<lparr>dump_files := zipndel old (dump_files s), to_zip := None\<rparr>"

definition packet_capture :: "'p \<Rightarrow> 'p dump_state \<Rightarrow> 'p dump_state" where
  "packet_capture p s = s\<lparr>dump_files := (dump_files s)(pcap_file s :=
     Some (case dump_files s (pcap_file s) of None \<Rightarrow> [p] | Some ps \<Rightarrow> ps @ [p]))\<rparr>"

text \<open>Both routines end on the interrupt, the size check only when it is not compressing; then
  \<open>main\<close> compresses the last file.\<close>

definition dump_stop :: "'p dump_state \<Rightarrow> 'p dump_state" where
  "dump_stop s = s\<lparr>dump_files := zipndel (pcap_file s) (dump_files s), stopped := True\<rparr>"

inductive dump_run :: "(string \<Rightarrow> 'p list option) \<Rightarrow> 'p dump_state \<Rightarrow> 'p list \<Rightarrow> bool" for files where
  start: "dump_run files (dump_start files) []"
| capture: "dump_run files s ps \<Longrightarrow> \<not> stopped s \<Longrightarrow> dump_run files (packet_capture p s) (ps @ [p])"
| tick: "dump_run files s ps \<Longrightarrow> \<not> stopped s \<Longrightarrow> to_zip s = None \<Longrightarrow>
    dump_run files (check_writer_tick sz s) ps"
| zip: "dump_run files s ps \<Longrightarrow> to_zip s = Some old \<Longrightarrow> dump_run files (check_writer_zip old s) ps"
| stop: "dump_run files s ps \<Longrightarrow> \<not> stopped s \<Longrightarrow> to_zip s = None \<Longrightarrow> dump_run files (dump_stop s) ps"

subsection \<open>No packet is lost between two files\<close>

lemma itoa_nat_inj: "itoa (int m) = itoa (int n) \<Longrightarrow> m = n"
  by (metis digits_val_nat_digits itoa_def nat_int of_nat_less_0_iff)

lemma pcap_name_inj [simp]: "pcap_name m = pcap_name n \<longleftrightarrow> m = n"
  using itoa_nat_inj by (auto simp: pcap_name_def)

lemma pcap_name_gz [simp]: "pcap_name m \<noteq> pcap_name n @ ''.gz''" "pcap_name n @ ''.gz'' \<noteq> pcap_name m"
proof -
  have "last (pcap_name m) \<noteq> last (pcap_name n @ ''.gz'')" by (simp add: pcap_name_def)
  then show "pcap_name m \<noteq> pcap_name n @ ''.gz''" by metis
  then show "pcap_name n @ ''.gz'' \<noteq> pcap_name m" by metis
qed

text \<open>The packets of part \<open>n\<close>: in its file, or in the compressed file once that is written.\<close>

definition gz_name :: "nat \<Rightarrow> string" where
  "gz_name n = pcap_name n @ ''.gz''"

definition part :: "(string \<Rightarrow> 'p list option) \<Rightarrow> nat \<Rightarrow> 'p list" where
  "part files n = (case files (pcap_name n) of Some ps \<Rightarrow> ps
     | None \<Rightarrow> (case files (gz_name n) of Some ps \<Rightarrow> ps | None \<Rightarrow> []))"

definition dumped :: "'p dump_state \<Rightarrow> 'p list" where
  "dumped s = concat (map (part (dump_files s)) [0..<pcap_counter s])"

definition dump_ok :: "'p dump_state \<Rightarrow> bool" where
  "dump_ok s \<longleftrightarrow> 0 < pcap_counter s \<and>
     (\<not> stopped s \<longrightarrow> pcap_file s = pcap_name (pcap_counter s - 1) \<and>
        dump_files s (pcap_file s) \<noteq> None) \<and>
     (\<forall>f. to_zip s = Some f \<longrightarrow> (\<exists>n. f = pcap_name n \<and> n + 1 < pcap_counter s \<and> dump_files s f \<noteq> None))"

lemma gz_name_simps [simp]: "gz_name m = gz_name n \<longleftrightarrow> m = n" "gz_name m \<noteq> pcap_name n"
  "pcap_name n \<noteq> gz_name m"
  by (auto simp: gz_name_def)

lemma dump_run_ok: "dump_run files s ps \<Longrightarrow> dump_ok s"
proof (induction rule: dump_run.induct)
  case start
  show ?case by (simp add: dump_ok_def dump_start_def create_def)
next
  case (capture s ps p)
  then show ?case by (auto simp: dump_ok_def packet_capture_def)
next
  case (tick s ps sz)
  then show ?case by (auto simp: dump_ok_def check_writer_tick_def create_def)
next
  case (zip s ps old)
  then obtain n where "old = pcap_name n" "n + 1 < pcap_counter s" by (auto simp: dump_ok_def)
  with zip show ?case by (auto simp: dump_ok_def check_writer_zip_def zipndel_def gz_name_def [symmetric])
next
  case (stop s ps)
  then show ?case by (auto simp: dump_ok_def dump_stop_def)
qed

lemma part_zipndel: "files (pcap_name n) \<noteq> None \<Longrightarrow> part (zipndel (pcap_name n) files) m = part files m"
  by (auto simp: part_def zipndel_def gz_name_def [symmetric] split: option.split)

lemma dumped_step:
  assumes "\<And>n. n < pcap_counter s \<Longrightarrow> part (dump_files s') n = part (dump_files s) n"
    and "pcap_counter s' = pcap_counter s"
  shows "dumped s' = dumped s"
proof -
  have "map (part (dump_files s')) [0..<pcap_counter s] = map (part (dump_files s)) [0..<pcap_counter s]"
    by (rule map_cong) (use assms(1) in auto)
  then show ?thesis unfolding dumped_def assms(2) by (rule arg_cong)
qed

lemma dumped_last:
  "pcap_counter s = Suc k \<Longrightarrow>
    dumped s = concat (map (part (dump_files s)) [0..<k]) @ part (dump_files s) k"
  by (simp add: dumped_def)

lemma dumped_capture:
  assumes "dump_ok s" and "\<not> stopped s" shows "dumped (packet_capture p s) = dumped s @ [p]"
proof -
  from assms obtain k where k: "pcap_counter s = Suc k" by (auto simp: dump_ok_def gr0_conv_Suc)
  with assms obtain qs where q: "dump_files s (pcap_name k) = Some qs" and f: "pcap_file s = pcap_name k"
    by (auto simp: dump_ok_def)
  have old: "map (part (dump_files (packet_capture p s))) [0..<k] = map (part (dump_files s)) [0..<k]"
    by (rule map_cong) (simp_all add: packet_capture_def part_def f split: option.split)
  have new: "part (dump_files (packet_capture p s)) k = part (dump_files s) k @ [p]"
    by (simp add: packet_capture_def part_def f q)
  have k': "pcap_counter (packet_capture p s) = Suc k" by (simp add: packet_capture_def k)
  show ?thesis unfolding dumped_last [OF k'] dumped_last [OF k] old new by simp
qed

lemma dumped_tick: "dumped (check_writer_tick sz s) = dumped s"
proof (cases "pcap_part_size < sz")
  case True
  have old: "map (part (dump_files (check_writer_tick sz s))) [0..<pcap_counter s] =
      map (part (dump_files s)) [0..<pcap_counter s]"
    by (rule map_cong) (use True in \<open>simp_all add: check_writer_tick_def create_def part_def split: option.split\<close>)
  have new: "part (dump_files (check_writer_tick sz s)) (pcap_counter s) = []"
    using True by (simp add: check_writer_tick_def create_def part_def)
  have c: "pcap_counter (check_writer_tick sz s) = Suc (pcap_counter s)"
    using True by (simp add: check_writer_tick_def)
  show ?thesis unfolding dumped_last [OF c] old new by (simp add: dumped_def)
qed (simp add: check_writer_tick_def)

text \<open>
  The packets of all parts, in the order of their numbers, are the captured packets in the order of
  capture: at every moment, across the change of the file, its compression and the end of the program.
\<close>

lemma dump_keeps_packets: "dump_run files s ps \<Longrightarrow> dumped s = ps"
proof (induction rule: dump_run.induct)
  case start
  show ?case by (simp add: dumped_def dump_start_def create_def part_def)
next
  case (capture s ps p)
  then show ?case using dumped_capture [OF dump_run_ok [OF capture.hyps(1)]] by simp
next
  case (tick s ps sz)
  then show ?case by (simp add: dumped_tick)
next
  case (zip s ps old)
  then obtain n where n: "old = pcap_name n" "dump_files s old \<noteq> None"
    using dump_run_ok [OF zip.hyps(1)] by (auto simp: dump_ok_def)
  have "dumped (check_writer_zip old s) = dumped s"
    by (rule dumped_step) (use n in \<open>simp_all add: check_writer_zip_def part_zipndel\<close>)
  with zip.IH show ?case by simp
next
  case (stop s ps)
  then have n: "pcap_file s = pcap_name (pcap_counter s - 1)" "dump_files s (pcap_file s) \<noteq> None"
    using dump_run_ok [OF stop.hyps(1)] by (auto simp: dump_ok_def)
  have "dumped (dump_stop s) = dumped s"
    by (rule dumped_step) (use n in \<open>simp_all add: dump_stop_def part_zipndel\<close>)
  with stop.IH show ?case by simp
qed

text \<open>The names repeat from run to run: a second run replaces the parts of the first.\<close>

lemma dump_restart_truncates:
  "part (dump_files (dump_start files)) 0 = []"
  by (simp add: dump_start_def create_def part_def)

end
